(* ===== verification/Prelude.thy ===== *)
theory Prelude
  imports Main "HOL-Library.Word"
begin

text \<open>
  Shared vocabulary of the development: the names of the model's base types, the collections of
  rewrite rules the component theories extend, the sequencing of fallible steps (Go's
  \<^verbatim>\<open>if err != nil { return ... }\<close>), and generic lemmas on lists and maps.
\<close>

section \<open>Base types\<close>

type_synonym byte = "8 word"
type_synonym bytes = "8 word list"
type_synonym Offset = "64 word"
type_synonym uint64 = "64 word"

named_theorems codec_simps \<open>encoding and decoding of wire values\<close>
named_theorems store_simps \<open>one-step behaviour of the segment and partition stores\<close>
named_theorems consumer_simps \<open>one-step behaviour of the consumer state\<close>
named_theorems runtime_simps \<open>one-step behaviour of the queue runtime\<close>

section \<open>Fallible steps\<close>

text \<open>
  A Go function that returns \<^verbatim>\<open>(value, error)\<close> is a sum: \<open>Inl\<close> holds the error.
  \<open>sum_bind\<close> is the early return on a non-nil error.
\<close>

definition sum_bind :: "'e + 'a \<Rightarrow> ('a \<Rightarrow> 'e + 'b) \<Rightarrow> 'e + 'b" where
  "sum_bind r f = (case r of Inl e \<Rightarrow> Inl e | Inr x \<Rightarrow> f x)"

definition map_err :: "('e \<Rightarrow> 'f) \<Rightarrow> 'e + 'a \<Rightarrow> 'f + 'a" where
  "map_err g r = (case r of Inl e \<Rightarrow> Inl (g e) | Inr x \<Rightarrow> Inr x)"

lemma sum_bind_Inl [simp]: "sum_bind (Inl e) f = Inl e"
  by (simp add: sum_bind_def)

lemma sum_bind_Inr [simp]: "sum_bind (Inr x) f = f x"
  by (simp add: sum_bind_def)

lemma map_err_Inl [simp]: "map_err g (Inl e) = Inl (g e)"
  by (simp add: map_err_def)

lemma map_err_Inr [simp]: "map_err g (Inr x) = Inr x"
  by (simp add: map_err_def)

lemma map_err_eq_Inr [simp]: "map_err g r = Inr x \<longleftrightarrow> r = Inr x"
  by (cases r) simp_all

lemma sum_bind_eq_Inr: "sum_bind r f = Inr y \<longleftrightarrow> (\<exists>x. r = Inr x \<and> f x = Inr y)"
  by (cases r) simp_all

lemma sum_bind_eq_Inl: "sum_bind r f = Inl e \<longleftrightarrow> r = Inl e \<or> (\<exists>x. r = Inr x \<and> f x = Inl e)"
  by (cases r) auto

section \<open>Lists and maps\<close>

lemma take_drop_append_exact [simp]:
  "length xs = n \<Longrightarrow> take n (xs @ ys) = xs"
  "length xs = n \<Longrightarrow> drop n (xs @ ys) = ys"
  by simp_all

lemma find_append:
  "find P (xs @ ys) = (case find P xs of None \<Rightarrow> find P ys | Some x \<Rightarrow> Some x)"
  by (induction xs) simp_all

lemma find_map_of:
  "map_option g (find (\<lambda>x. f x = k) xs) = map_of (map (\<lambda>x. (f x, g x)) xs) k"
  by (induction xs) auto

lemma distinct_map_nth_eq:
  "distinct (map f xs) \<Longrightarrow> i < length xs \<Longrightarrow> j < length xs \<Longrightarrow> f (xs ! i) = f (xs ! j) \<Longrightarrow> i = j"
  by (metis distinct_conv_nth length_map nth_map)

section \<open>Machine words\<close>

lemma unat_Suc_no_wrap:
  fixes w :: "'a::len word"
  assumes "unat w + 1 < 2 ^ LENGTH('a)"
  shows "unat (w + 1) = unat w + 1"
  using assms by (simp add: unat_word_ariths)

lemma unat_of_nat_small:
  "n < 2 ^ LENGTH('a::len) \<Longrightarrow> unat (of_nat n :: 'a word) = n"
  by (simp add: unat_of_nat)

lemma word_neq_succ: "(w :: 'a::len word) + 1 \<noteq> w"
  by simp

end
