(* ===== verification/Go_Std.thy ===== *)
theory Go_Std
  imports Prelude
begin

text \<open>
  The part of Go's language and standard library that the sources use: error values with wrapping
  (\<^verbatim>\<open>fmt.Errorf\<close>, \<^verbatim>\<open>errors.Is\<close>), decimal formatting and parsing (\<^verbatim>\<open>strconv\<close>,
  \<^verbatim>\<open>%d\<close>, \<^verbatim>\<open>%06d\<close>), the string functions of package \<^verbatim>\<open>strings\<close>, big-endian integers
  (\<^verbatim>\<open>encoding/binary\<close>) and the two ways the sources read bytes (\<^verbatim>\<open>io.ReadFull\<close> on a file,
  \<^verbatim>\<open>(*bytes.Reader).Read\<close> on a buffer). A Go \<^verbatim>\<open>string\<close> is a byte sequence: it is an
  Isabelle \<open>string\<close>, whose characters are the bytes 0 to 255.
\<close>

unbundle bit_operations_syntax

section \<open>Errors\<close>

text \<open>
  The sentinel errors of package queue, the errors of the standard library the code compares with or
  passes on, \<open>Errorf\<close> for \<^verbatim>\<open>fmt.Errorf\<close> without a wrapped error and \<open>Wrapf pre e post\<close> for a
  format with \<^verbatim>\<open>%w\<close> in it. \<open>GoPanic\<close> is a run-time panic, \<open>OSError\<close> an error of the operating system or of the network.
\<close>

datatype go_error =
    ErrOffsetNotFound
  | ErrMessageNotInflight
  | ErrReplicationQuorum
  | ErrNotPartitionLeader
  | ErrUnexpectedOffset
  | ErrNoNodes
  | ErrLeaderNotFound
  | ErrNoPartitions
  | EOF
  | ErrUnexpectedEOF
  | ContextCanceled
  | OSError string
  | Errorf string
  | Wrapf string go_error string
  | GoPanic string

fun Error :: "go_error \<Rightarrow> string" where
  "Error ErrOffsetNotFound = ''offset not found''"
| "Error ErrMessageNotInflight = ''message not in flight''"
| "Error ErrReplicationQuorum = ''replication quorum not reached''"
| "Error ErrNotPartitionLeader = ''not partition leader''"
| "Error ErrUnexpectedOffset = ''unexpected record offset''"
| "Error ErrNoNodes = ''no queue nodes available''"
| "Error ErrLeaderNotFound = ''partition leader not found''"
| "Error ErrNoPartitions = ''no partitions available''"
| "Error EOF = ''EOF''"
| "Error ErrUnexpectedEOF = ''unexpected EOF''"
| "Error ContextCanceled = ''context canceled''"
| "Error (OSError s) = s"
| "Error (Errorf s) = s"
| "Error (Wrapf pre e post) = pre @ Error e @ post"
| "Error (GoPanic s) = s"

text \<open>
  \<^verbatim>\<open>errors.Is(err, target)\<close> for a sentinel target: the error itself or one it wraps. The
  comparison \<^verbatim>\<open>err == target\<close> is equality and does not look inside a \<open>Wrapf\<close>.
\<close>

fun errors_Is :: "go_error \<Rightarrow> go_error \<Rightarrow> bool" where
  "errors_Is (Wrapf pre e post) t = (Wrapf pre e post = t \<or> errors_Is e t)"
| "errors_Is e t = (e = t)"

lemma errors_Is_refl [simp]: "errors_Is e e"
  by (cases e) simp_all

section \<open>Decimal numbers\<close>

definition digit_char :: "nat \<Rightarrow> char" where
  "digit_char d = char_of (48 + d)"

fun dec_nat :: "nat \<Rightarrow> string" where
  "dec_nat n = (if n < 10 then [digit_char n] else dec_nat (n div 10) @ [digit_char (n mod 10)])"

declare dec_nat.simps [simp del]

text \<open>\<^verbatim>\<open>strconv.Itoa\<close> and the verb \<^verbatim>\<open>%d\<close>.\<close>

definition itoa :: "int \<Rightarrow> string" where
  "itoa i = (if i < 0 then ''-'' @ dec_nat (nat (- i)) else dec_nat (nat i))"

text \<open>The verb \<^verbatim>\<open>%06d\<close>: zero padding to six columns, the sign counted.\<close>

definition pad_left :: "nat \<Rightarrow> string \<Rightarrow> string" where
  "pad_left w s = replicate (w - length s) (CHR ''0'') @ s"

definition itoa06 :: "int \<Rightarrow> string" where
  "itoa06 i = (if i < 0 then ''-'' @ pad_left 5 (dec_nat (nat (- i))) else pad_left 6 (dec_nat (nat i)))"

definition is_digit :: "char \<Rightarrow> bool" where
  "is_digit c \<longleftrightarrow> 48 \<le> (of_char c :: nat) \<and> (of_char c :: nat) \<le> 57"

definition digit_val :: "char \<Rightarrow> nat" where
  "digit_val c = of_char c - 48"

definition dec_val :: "string \<Rightarrow> nat" where
  "dec_val s = foldl (\<lambda>a c. 10 * a + digit_val c) 0 s"

text \<open>
  \<^verbatim>\<open>strconv.Atoi\<close>: an optional sign, at least one digit, only digits, and a value of a 64-bit
  \<^verbatim>\<open>int\<close>; \<open>None\<close> is the syntax or range error.
\<close>

definition atoi :: "string \<Rightarrow> int option" where
  "atoi s =
     (let neg = (s \<noteq> [] \<and> hd s = CHR ''-'');
          ds = (if s \<noteq> [] \<and> (hd s = CHR ''-'' \<or> hd s = CHR ''+'') then tl s else s);
          v = (if neg then - int (dec_val ds) else int (dec_val ds))
      in if ds = [] \<or> \<not> list_all is_digit ds then None
         else if v < - (2 ^ 63) \<or> 2 ^ 63 \<le> v then None else Some v)"

lemma of_char_digit_char [simp]: "d < 10 \<Longrightarrow> (of_char (digit_char d) :: nat) = 48 + d"
  by (simp add: digit_char_def)

lemma digit_val_digit_char [simp]: "d < 10 \<Longrightarrow> digit_val (digit_char d) = d"
  by (simp add: digit_val_def)

lemma is_digit_digit_char [simp]: "d < 10 \<Longrightarrow> is_digit (digit_char d)"
  by (simp add: is_digit_def)

lemma dec_nat_not_Nil [simp]: "dec_nat n \<noteq> []"
  by (subst dec_nat.simps) simp

lemma dec_nat_digits [simp]: "list_all is_digit (dec_nat n)"
proof (induction n rule: dec_nat.induct)
  case (1 n)
  then show ?case by (cases "n < 10") (simp_all add: dec_nat.simps [of n])
qed

lemma dec_val_snoc [simp]: "dec_val (s @ [c]) = 10 * dec_val s + digit_val c"
  by (simp add: dec_val_def)

lemma dec_val_dec_nat [simp]: "dec_val (dec_nat n) = n"
proof (induction n rule: dec_nat.induct)
  case (1 n)
  show ?case
  proof (cases "n < 10")
    case True
    then show ?thesis by (simp add: dec_nat.simps [of n] dec_val_def)
  next
    case False
    with 1 show ?thesis by (simp add: dec_nat.simps [of n])
  qed
qed

lemma dec_nat_inject [simp]: "dec_nat m = dec_nat n \<longleftrightarrow> m = n"
  by (metis dec_val_dec_nat)

lemma not_is_digit_minus [simp]: "\<not> is_digit (CHR ''-'')"
  by (simp add: is_digit_def)

lemma dec_val_zeros: "dec_val (replicate k (CHR ''0'') @ s) = dec_val s"
  by (induction k) (simp_all add: dec_val_def digit_val_def)

lemma pad_left_digits: "list_all is_digit s \<Longrightarrow> list_all is_digit (pad_left w s)"
  by (auto simp: pad_left_def list_all_iff is_digit_def)

lemma dec_val_pad_left [simp]: "dec_val (pad_left w s) = dec_val s"
  by (simp add: pad_left_def dec_val_zeros)

lemma digits_neq_minus: "list_all is_digit s \<Longrightarrow> s \<noteq> CHR ''-'' # t"
  by (auto simp: list_all_iff)

lemma itoa_inject [simp]: "itoa i = itoa j \<longleftrightarrow> i = j"
proof -
  have "itoa i = itoa j \<Longrightarrow> i = j"
    using digits_neq_minus [OF dec_nat_digits]
    by (auto simp: itoa_def split: if_splits) (metis)+
  then show ?thesis by auto
qed

lemma itoa06_inject [simp]: "itoa06 i = itoa06 j \<longleftrightarrow> i = j"
proof -
  note neq = digits_neq_minus [OF pad_left_digits [OF dec_nat_digits]]
  have val: "pad_left w (dec_nat m) = pad_left w (dec_nat n) \<Longrightarrow> m = n" for w m n
    by (metis dec_val_dec_nat dec_val_pad_left)
  have "itoa06 i = itoa06 j \<Longrightarrow> i = j"
    by (auto simp: itoa06_def neq neq [symmetric] split: if_splits dest: val)
  then show ?thesis by auto
qed

lemma atoi_itoa:
  assumes "- (2 ^ 63) \<le> i" and "i < 2 ^ 63"
  shows "atoi (itoa i) = Some i"
proof (cases "i < 0")
  case True
  with assms show ?thesis by (simp add: itoa_def atoi_def)
next
  case False
  have sign: "hd (dec_nat n) \<noteq> CHR ''-''" "hd (dec_nat n) \<noteq> CHR ''+''" for n
    using dec_nat_digits [of n] dec_nat_not_Nil [of n]
    by (cases "dec_nat n"; auto simp: is_digit_def)+
  from False assms show ?thesis by (simp add: itoa_def atoi_def sign)
qed

section \<open>Package strings\<close>

text \<open>
  \<^verbatim>\<open>strings.TrimSpace\<close> removes leading and trailing white space; the model knows the ASCII
  white space, which is all the code's inputs (environment values, configuration words) use.
\<close>

definition is_space :: "char \<Rightarrow> bool" where
  "is_space c \<longleftrightarrow> c = CHR '' '' \<or> (9 \<le> (of_char c :: nat) \<and> (of_char c :: nat) \<le> 13)"

definition TrimLeftP :: "(char \<Rightarrow> bool) \<Rightarrow> string \<Rightarrow> string" where
  "TrimLeftP P s = dropWhile P s"

definition TrimRightP :: "(char \<Rightarrow> bool) \<Rightarrow> string \<Rightarrow> string" where
  "TrimRightP P s = rev (dropWhile P (rev s))"

definition TrimSpace :: "string \<Rightarrow> string" where
  "TrimSpace s = TrimRightP is_space (TrimLeftP is_space s)"

definition TrimRight :: "string \<Rightarrow> char \<Rightarrow> string" where
  "TrimRight s c = TrimRightP ((=) c) s"

definition TrimLeft :: "string \<Rightarrow> char \<Rightarrow> string" where
  "TrimLeft s c = TrimLeftP ((=) c) s"

fun HasPrefix :: "string \<Rightarrow> string \<Rightarrow> bool" where
  "HasPrefix s [] = True"
| "HasPrefix [] (p # ps) = False"
| "HasPrefix (c # s) (p # ps) = (c = p \<and> HasPrefix s ps)"

definition TrimPrefix :: "string \<Rightarrow> string \<Rightarrow> string" where
  "TrimPrefix s p = (if HasPrefix s p then drop (length p) s else s)"

definition HasSuffix :: "string \<Rightarrow> string \<Rightarrow> bool" where
  "HasSuffix s p = HasPrefix (rev s) (rev p)"

definition TrimSuffix :: "string \<Rightarrow> string \<Rightarrow> string" where
  "TrimSuffix s p = (if HasSuffix s p then take (length s - length p) s else s)"

text \<open>\<^verbatim>\<open>strings.Split\<close> at a one-byte separator: one more part than separators.\<close>

fun Split :: "string \<Rightarrow> char \<Rightarrow> string list" where
  "Split [] sep = [[]]"
| "Split (c # s) sep =
     (if c = sep then [] # Split s sep
      else (case Split s sep of p # ps \<Rightarrow> (c # p) # ps | [] \<Rightarrow> [[c]]))"

text \<open>\<^verbatim>\<open>strings.SplitN(s, sep, 2)\<close>: one part without a separator, else the two sides of the first.\<close>

definition SplitN2 :: "string \<Rightarrow> char \<Rightarrow> string list" where
  "SplitN2 s sep =
     (if sep \<in> set s then [takeWhile (\<lambda>c. c \<noteq> sep) s, tl (dropWhile (\<lambda>c. c \<noteq> sep) s)] else [s])"

text \<open>\<^verbatim>\<open>strings.Join\<close>.\<close>

fun Join :: "string list \<Rightarrow> string \<Rightarrow> string" where
  "Join [] sep = []"
| "Join [s] sep = s"
| "Join (s # t # ts) sep = s @ sep @ Join (t # ts) sep"

text \<open>\<^verbatim>\<open>strings.ToLower\<close> on ASCII letters.\<close>

definition lower_char :: "char \<Rightarrow> char" where
  "lower_char c = (let n = (of_char c :: nat) in if 65 \<le> n \<and> n \<le> 90 then char_of (n + 32) else c)"

definition ToLower :: "string \<Rightarrow> string" where
  "ToLower s = map lower_char s"

lemma HasPrefix_iff: "HasPrefix s p \<longleftrightarrow> (\<exists>t. s = p @ t)"
  by (induction s p rule: HasPrefix.induct) auto

lemma Split_not_Nil [simp]: "Split s sep \<noteq> []"
  by (cases s) (auto split: list.splits)

lemma Split_no_sep: "sep \<notin> set s \<Longrightarrow> Split s sep = [s]"
  by (induction s) auto

lemma Split_append: "sep \<notin> set p \<Longrightarrow> Split (p @ sep # s) sep = p # Split s sep"
  by (induction p) auto

lemma Split_sound: "p \<in> set (Split s sep) \<Longrightarrow> sep \<notin> set p"
proof (induction s arbitrary: p)
  case Nil
  then show ?case by simp
next
  case (Cons c s)
  obtain q qs where q: "Split s sep = q # qs"
    using Split_not_Nil [of s sep] by (cases "Split s sep") auto
  with Cons show ?case by (auto split: if_splits)
qed

lemma Join_Split: "Join (Split s sep) [sep] = s"
proof (induction s)
  case Nil
  show ?case by simp
next
  case (Cons c s)
  obtain q qs where q: "Split s sep = q # qs"
    using Split_not_Nil [of s sep] by (cases "Split s sep") auto
  with Cons.IH show ?case by (cases qs) auto
qed

lemma Split_Join:
  "ts \<noteq> [] \<Longrightarrow> (\<And>t. t \<in> set ts \<Longrightarrow> sep \<notin> set t) \<Longrightarrow> Split (Join ts [sep]) sep = ts"
  by (induction ts "[sep]" rule: Join.induct) (auto simp: Split_no_sep Split_append)

text \<open>
  \<^verbatim>\<open>strconv.Quote\<close> and the verb \<^verbatim>\<open>%q\<close>: quotes, backslashes and control characters are escaped.
  Bytes above 127 are copied, as the source's printable UTF-8 is.
\<close>

definition hex_digit :: "nat \<Rightarrow> char" where
  "hex_digit d = (if d < 10 then char_of (48 + d) else char_of (87 + d))"

text \<open>The value of a hexadecimal digit in either case.\<close>

definition unhex :: "char \<Rightarrow> nat option" where
  "unhex c =
     (let n = (of_char c :: nat) in
      if 48 \<le> n \<and> n \<le> 57 then Some (n - 48)
      else if 97 \<le> n \<and> n \<le> 102 then Some (n - 87)
      else if 65 \<le> n \<and> n \<le> 70 then Some (n - 55)
      else None)"

lemma unhex_hex_digit [simp]: "d < 16 \<Longrightarrow> unhex (hex_digit d) = Some d"
  by (auto simp: unhex_def hex_digit_def Let_def)

lemma of_char_div_16: "(of_char c :: nat) div 16 < 16"
proof -
  have "(of_char c :: nat) < 256" by (metis of_char_mod_256 mod_less_divisor zero_less_numeral)
  then show ?thesis by (intro less_mult_imp_div_less) simp
qed

definition quote_char :: "char \<Rightarrow> string" where
  "quote_char c =
     (let n = (of_char c :: nat) in
      if n = 34 then [char_of (92 :: nat), c] else if n = 92 then [c, c]
      else if n = 7 then [char_of (92 :: nat), CHR ''a''] else if n = 8 then [char_of (92 :: nat), CHR ''b'']
      else if n = 9 then [char_of (92 :: nat), CHR ''t''] else if n = 10 then [char_of (92 :: nat), CHR ''n'']
      else if n = 11 then [char_of (92 :: nat), CHR ''v''] else if n = 12 then [char_of (92 :: nat), CHR ''f'']
      else if n = 13 then [char_of (92 :: nat), CHR ''r'']
      else if n < 32 \<or> n = 127 then [char_of (92 :: nat), CHR ''x'', hex_digit (n div 16), hex_digit (n mod 16)]
      else [c])"

definition Quote :: "string \<Rightarrow> string" where
  "Quote s = [char_of (34 :: nat)] @ concat (map quote_char s) @ [char_of (34 :: nat)]"

section \<open>Package path/filepath\<close>

text \<open>
  \<^verbatim>\<open>filepath.Clean\<close> and \<^verbatim>\<open>filepath.Join\<close> of two elements on Unix. The path's elements are
  processed from left to right on a stack (kept in reverse): empty elements and \<^verbatim>\<open>.\<close> are dropped,
  \<^verbatim>\<open>..\<close> removes the element before it, or is dropped at the root, or is kept.
\<close>

definition clean_step :: "bool \<Rightarrow> string list \<Rightarrow> string \<Rightarrow> string list" where
  "clean_step rooted st c =
     (if c = [] \<or> c = ''.'' then st
      else if c = ''..'' then
        (case st of [] \<Rightarrow> if rooted then [] else [''..''] | x # xs \<Rightarrow> if x = ''..'' then ''..'' # st else xs)
      else c # st)"

definition Clean :: "string \<Rightarrow> string" where
  "Clean p =
     (if p = [] then ''.''
      else (let rooted = (hd p = CHR ''/'');
                body = Join (rev (foldl (clean_step rooted) [] (Split p (CHR ''/'')))) ''/''
            in if rooted then ''/'' @ body else if body = [] then ''.'' else body))"

definition filepath_Join :: "string \<Rightarrow> string \<Rightarrow> string" where
  "filepath_Join a b =
     (if a \<noteq> [] then Clean (a @ ''/'' @ b) else if b \<noteq> [] then Clean b else [])"

definition plain_name :: "string \<Rightarrow> bool" where
  "plain_name n \<longleftrightarrow> CHR ''/'' \<notin> set n \<and> n \<notin> {[], ''.'', ''..''}"

lemma Split_snoc: "sep \<notin> set n \<Longrightarrow> Split (d @ sep # n) sep = Split d sep @ [n]"
  by (induction d) (auto simp: Split_no_sep split: list.splits)

lemma Join_snoc: "Join (xs @ [n]) sep = (if xs = [] then n else Join xs sep @ sep @ n)"
  by (induction xs sep rule: Join.induct) auto

lemma Clean_Join_plain:
  assumes "plain_name n" and "d \<noteq> []"
  shows "\<exists>pre. \<forall>m. plain_name m \<longrightarrow> Clean (d @ ''/'' @ m) = pre @ m"
proof -
  let ?st = "rev (foldl (clean_step (hd d = CHR ''/'')) [] (Split d (CHR ''/'')))"
  let ?pre = "(if hd d = CHR ''/'' then ''/'' else []) @ (if ?st = [] then [] else Join ?st ''/'' @ ''/'')"
  have "Clean (d @ ''/'' @ m) = ?pre @ m" if m: "plain_name m" for m
  proof -
    have "CHR ''/'' \<notin> set m" using m by (simp add: plain_name_def)
    then have "Split (d @ ''/'' @ m) (CHR ''/'') = Split d (CHR ''/'') @ [m]"
      using Split_snoc [of "CHR ''/''" m d] by simp
    moreover have "clean_step b st m = m # st" for b st
      using m by (simp add: clean_step_def plain_name_def)
    moreover have "m \<noteq> []" using m by (simp add: plain_name_def)
    ultimately show ?thesis
      using assms(2) by (simp add: Clean_def Let_def Join_snoc)
  qed
  then show ?thesis by blast
qed

lemma filepath_Join_inject:
  assumes "plain_name m" and "plain_name n"
  shows "filepath_Join d m = filepath_Join d n \<longleftrightarrow> m = n"
proof (cases "d = []")
  case True
  have "Clean m = m" if "plain_name m" for m
    using that by (auto simp: Clean_def plain_name_def Split_no_sep clean_step_def Let_def)
      (cases m; simp)
  with True assms show ?thesis by (auto simp: filepath_Join_def plain_name_def)
next
  case False
  with Clean_Join_plain [OF assms(1) False] assms show ?thesis
    by (auto simp: filepath_Join_def)
qed

section \<open>Big-endian integers and readers\<close>

definition bytes_of_string :: "string \<Rightarrow> bytes" where
  "bytes_of_string s = map (\<lambda>c. of_nat (of_char c)) s"

definition string_of_bytes :: "bytes \<Rightarrow> string" where
  "string_of_bytes b = map (\<lambda>w. char_of (unat w)) b"

definition PutUint32 :: "32 word \<Rightarrow> bytes" where
  "PutUint32 v = [ucast (drop_bit 24 v), ucast (drop_bit 16 v), ucast (drop_bit 8 v), ucast v]"

fun Uint32 :: "bytes \<Rightarrow> 32 word" where
  "Uint32 (b0 # b1 # b2 # b3 # _) =
     ucast b3 OR push_bit 8 (ucast b2) OR push_bit 16 (ucast b1) OR push_bit 24 (ucast b0)"
| "Uint32 _ = 0"

definition PutUint64 :: "64 word \<Rightarrow> bytes" where
  "PutUint64 v =
     [ucast (drop_bit 56 v), ucast (drop_bit 48 v), ucast (drop_bit 40 v), ucast (drop_bit 32 v),
      ucast (drop_bit 24 v), ucast (drop_bit 16 v), ucast (drop_bit 8 v), ucast v]"

fun Uint64 :: "bytes \<Rightarrow> 64 word" where
  "Uint64 (b0 # b1 # b2 # b3 # b4 # b5 # b6 # b7 # _) =
     ucast b7 OR push_bit 8 (ucast b6) OR push_bit 16 (ucast b5) OR push_bit 24 (ucast b4) OR
     push_bit 32 (ucast b3) OR push_bit 40 (ucast b2) OR push_bit 48 (ucast b1) OR push_bit 56 (ucast b0)"
| "Uint64 _ = 0"

text \<open>
  A reader over a file is the bytes not yet read and the error the next read meets at their end:
  \<open>EOF\<close> at the end of the file, an operating-system error where the device fails.
  \<^verbatim>\<open>io.ReadFull\<close> turns an \<open>EOF\<close> in the middle of the buffer into \<open>ErrUnexpectedEOF\<close>.
\<close>

type_synonym reader = "bytes \<times> go_error"

fun ReadFull :: "reader \<Rightarrow> nat \<Rightarrow> go_error + bytes \<times> reader" where
  "ReadFull (bs, e) n =
     (if n \<le> length bs then Inr (take n bs, (drop n bs, e))
      else Inl (if bs = [] then e else if e = EOF then ErrUnexpectedEOF else e))"

text \<open>
  \<^verbatim>\<open>(*bytes.Reader).Read(value)\<close> with \<^verbatim>\<open>value := make([]byte, n)\<close>: \<^verbatim>\<open>io.EOF\<close> when the
  buffer is used up, whatever \<open>n\<close> is; otherwise it copies what there is, and the rest of
  \<^verbatim>\<open>value\<close> keeps its zero bytes.
\<close>

definition bytes_Read :: "bytes \<Rightarrow> nat \<Rightarrow> go_error + bytes \<times> bytes" where
  "bytes_Read bs n =
     (if bs = [] then Inl EOF
      else Inr (take n bs @ replicate (n - length bs) 0, drop n bs))"

lemma string_of_bytes_of_string [simp]: "string_of_bytes (bytes_of_string s) = s"
proof -
  have "char_of (unat (of_nat (of_char c) :: byte)) = c" for c
    by (simp add: unat_of_nat)
  then show ?thesis by (simp add: string_of_bytes_def bytes_of_string_def comp_def)
qed

lemma length_bytes_of_string [simp]: "length (bytes_of_string s) = length s"
  by (simp add: bytes_of_string_def)

lemma bytes_of_string_Nil_iff [simp]: "bytes_of_string s = [] \<longleftrightarrow> s = []"
  by (simp add: bytes_of_string_def)

lemma length_PutUint32 [simp]: "length (PutUint32 v) = 4"
  by (simp add: PutUint32_def)

lemma length_PutUint64 [simp]: "length (PutUint64 v) = 8"
  by (simp add: PutUint64_def)

lemma byte_of_word: "(ucast (ucast w :: byte) :: 'a::len word) = take_bit 8 w"
  by (rule bit_word_eqI) (auto simp: bit_simps)

lemma take_bit_next_byte:
  "take_bit k w OR push_bit k (take_bit 8 (drop_bit k w)) = take_bit (k + 8) (w :: 'a::len word)"
  by (rule bit_word_eqI) (auto simp: bit_simps)

lemma Uint32_PutUint32 [codec_simps]: "Uint32 (PutUint32 v @ r) = v"
  using take_bit_next_byte [of 8 v] take_bit_next_byte [of 16 v] take_bit_next_byte [of 24 v]
  by (simp add: PutUint32_def byte_of_word or.assoc [symmetric] take_bit_word_eq_self)

lemma Uint64_PutUint64 [codec_simps]: "Uint64 (PutUint64 v @ r) = v"
  using take_bit_next_byte [of 8 v] take_bit_next_byte [of 16 v] take_bit_next_byte [of 24 v]
    take_bit_next_byte [of 32 v] take_bit_next_byte [of 40 v] take_bit_next_byte [of 48 v]
    take_bit_next_byte [of 56 v]
  by (simp add: PutUint64_def byte_of_word or.assoc [symmetric] take_bit_word_eq_self)

lemmas Uint32_PutUint32_Nil [codec_simps] = Uint32_PutUint32 [where r = "[]", simplified]
lemmas Uint64_PutUint64_Nil [codec_simps] = Uint64_PutUint64 [where r = "[]", simplified]

lemma ReadFull_append [codec_simps]:
  "length bs = n \<Longrightarrow> ReadFull (bs @ rest, e) n = Inr (bs, (rest, e))"
  by simp

lemma bytes_Read_append [codec_simps]:
  "length bs = n \<Longrightarrow> bs @ rest \<noteq> [] \<Longrightarrow> bytes_Read (bs @ rest) n = Inr (bs, rest)"
  by (simp add: bytes_Read_def)

lemma bytes_Read_Nil [codec_simps]: "bytes_Read [] n = Inl EOF"
  by (simp add: bytes_Read_def)

end
