(* ===== verification/Go_Http.thy ===== *)
theory Go_Http
  imports Go_Std
begin

text \<open>
  The part of \<^verbatim>\<open>net/http\<close> the sources use. An outgoing request is a method, a URL, headers and a
  body; the network is a function from requests to an error or a response, and building a request
  may fail on its URL: both are arguments of the definitions that use them. A handler is a function
  from an incoming request, whose URL the server has already parsed, to the response it writes.
\<close>

type_synonym headers = "(string \<times> string) list"

record http_request =
  req_Method :: string
  req_URL :: string
  req_Header :: headers
  req_Body :: string

record http_response =
  resp_StatusCode :: int
  resp_Status :: string
  resp_Header :: headers
  resp_Body :: string

record server_request =
  sr_Method :: string
  sr_Path :: string
  sr_Query :: "(string \<times> string) list"
  sr_Body :: string
  sr_ctx :: "go_error option"

record server_response =
  w_Status :: int
  w_Header :: headers
  w_Body :: string

text \<open>
  What the code needs of the network: \<^verbatim>\<open>http.NewRequestWithContext\<close> fails on some URLs, and
  \<^verbatim>\<open>client.Do\<close> gives an error or a response.
\<close>

record network =
  net_url_error :: "string \<Rightarrow> go_error option"
  net_do :: "http_request \<Rightarrow> go_error + http_response"

text \<open>\<^verbatim>\<open>Header.Get\<close> and \<^verbatim>\<open>Query().Get\<close>: the first value of the key, empty when there is none.\<close>

definition first_value :: "(string \<times> string) list \<Rightarrow> string \<Rightarrow> string" where
  "first_value kvs k = (case map_of kvs k of None \<Rightarrow> [] | Some v \<Rightarrow> v)"

text \<open>\<^verbatim>\<open>http.StatusText\<close>, the registered reason phrases; empty for any other code.\<close>

definition status_texts :: "(int \<times> string) list" where
  "status_texts =
    [(100, ''Continue''), (101, ''Switching Protocols''), (102, ''Processing''), (103, ''Early Hints''),
     (200, ''OK''), (201, ''Created''), (202, ''Accepted''), (203, ''Non-Authoritative Information''),
     (204, ''No Content''), (205, ''Reset Content''), (206, ''Partial Content''), (207, ''Multi-Status''),
     (208, ''Already Reported''), (226, ''IM Used''), (300, ''Multiple Choices''), (301, ''Moved Permanently''),
     (302, ''Found''), (303, ''See Other''), (304, ''Not Modified''), (305, ''Use Proxy''),
     (307, ''Temporary Redirect''), (308, ''Permanent Redirect''), (400, ''Bad Request''), (401, ''Unauthorized''),
     (402, ''Payment Required''), (403, ''Forbidden''), (404, ''Not Found''), (405, ''Method Not Allowed''),
     (406, ''Not Acceptable''), (407, ''Proxy Authentication Required''), (408, ''Request Timeout''),
     (409, ''Conflict''), (410, ''Gone''), (411, ''Length Required''), (412, ''Precondition Failed''),
     (413, ''Request Entity Too Large''), (414, ''Request URI Too Long''), (415, ''Unsupported Media Type''),
     (416, ''Requested Range Not Satisfiable''), (417, ''Expectation Failed''), (418, ''I'' @ [char_of (39 :: nat)] @ ''m a teapot''),
     (421, ''Misdirected Request''), (422, ''Unprocessable Entity''), (423, ''Locked''),
     (424, ''Failed Dependency''), (425, ''Too Early''), (426, ''Upgrade Required''),
     (428, ''Precondition Required''), (429, ''Too Many Requests''), (431, ''Request Header Fields Too Large''),
     (451, ''Unavailable For Legal Reasons''), (500, ''Internal Server Error''), (501, ''Not Implemented''),
     (502, ''Bad Gateway''), (503, ''Service Unavailable''), (504, ''Gateway Timeout''),
     (505, ''HTTP Version Not Supported''), (506, ''Variant Also Negotiates''), (507, ''Insufficient Storage''),
     (508, ''Loop Detected''), (510, ''Not Extended''), (511, ''Network Authentication Required'')]"

definition StatusText :: "int \<Rightarrow> string" where
  "StatusText code = (case map_of status_texts code of None \<Rightarrow> [] | Some t \<Rightarrow> t)"

text \<open>
  \<^verbatim>\<open>http.Error\<close> writes the message and a newline as plain text; \<open>reply\<close> is a handler that only
  writes a status. \<open>limit_body\<close> is \<^verbatim>\<open>io.LimitReader\<close>.
\<close>

definition newline :: char where
  "newline = char_of (10 :: nat)"

definition http_Error :: "string \<Rightarrow> int \<Rightarrow> server_response" where
  "http_Error message code =
     \<lparr>w_Status = code,
      w_Header = [(''Content-Type'', ''text/plain; charset=utf-8''), (''X-Content-Type-Options'', ''nosniff'')],
      w_Body = message @ [newline]\<rparr>"

definition reply :: "int \<Rightarrow> server_response" where
  "reply code = \<lparr>w_Status = code, w_Header = [], w_Body = []\<rparr>"

definition reply_body :: "string \<Rightarrow> string \<Rightarrow> server_response" where
  "reply_body contentType body = \<lparr>w_Status = 200, w_Header = [(''Content-Type'', contentType)], w_Body = body\<rparr>"

definition limit_body :: "nat \<Rightarrow> string \<Rightarrow> string" where
  "limit_body n body = take n body"

definition status_ok :: "int \<Rightarrow> bool" where
  "status_ok code \<longleftrightarrow> 200 \<le> code \<and> code < 300"

lemma w_Status_simps [simp]:
  "w_Status (http_Error msg code) = code"
  "w_Status (reply code) = code"
  "w_Status (reply_body t b) = 200"
  by (simp_all add: http_Error_def reply_def reply_body_def)

definition post_json :: "string \<Rightarrow> string \<Rightarrow> http_request" where
  "post_json url body =
     \<lparr>req_Method = ''POST'', req_URL = url, req_Header = [(''Content-Type'', ''application/json'')], req_Body = body\<rparr>"

end
