(* ===== verification/Codec.thy ===== *)
theory Codec
  imports Go_Std
begin

text \<open>
  The messages and records of package queue (\<^verbatim>\<open>message.go\<close>, \<^verbatim>\<open>record.go\<close>) and the
  length-prefixed binary form in which a message is stored (\<^verbatim>\<open>codec.go\<close>). The lemmas give the
  encoded form, the round trip for every message with a payload, and what the decoder makes of an
  empty payload and of a field whose bytes were cut short.
\<close>

section \<open>Data\<close>

record Message =
  msg_Topic :: string
  msg_ID :: string
  msg_RoutingKey :: string
  msg_Payload :: bytes

record Record =
  rec_Offset :: Offset
  rec_Message :: Message

section \<open>Encoding\<close>

definition writeBytes :: "bytes \<Rightarrow> bytes \<Rightarrow> go_error + bytes" where
  "writeBytes buf v =
     (if length v > 2 ^ 32 - 1 then Inl (Errorf ''value exceeds maximum supported size'')
      else Inr (buf @ PutUint32 (of_nat (length v)) @ v))"

definition writeString :: "bytes \<Rightarrow> string \<Rightarrow> go_error + bytes" where
  "writeString buf s = writeBytes buf (bytes_of_string s)"

definition encodeMessage :: "Message \<Rightarrow> go_error + bytes" where
  "encodeMessage m =
     sum_bind (map_err (\<lambda>e. Wrapf ''encode message ID: '' e []) (writeString [] (msg_ID m))) (\<lambda>buf.
     sum_bind (map_err (\<lambda>e. Wrapf ''encode topic: '' e []) (writeString buf (msg_Topic m))) (\<lambda>buf.
     sum_bind (map_err (\<lambda>e. Wrapf ''encode routing key: '' e []) (writeString buf (msg_RoutingKey m))) (\<lambda>buf.
     map_err (\<lambda>e. Wrapf ''encode payload: '' e []) (writeBytes buf (msg_Payload m)))))"

section \<open>Decoding\<close>

text \<open>
  \<^verbatim>\<open>binary.Read\<close> of the size uses \<^verbatim>\<open>io.ReadFull\<close>; the value itself is read by one call of
  \<^verbatim>\<open>(*bytes.Reader).Read\<close>, which may return fewer bytes than asked for.
\<close>

definition readBytes :: "bytes \<Rightarrow> go_error + bytes \<times> bytes" where
  "readBytes r =
     sum_bind (ReadFull (r, EOF) 4) (\<lambda>(hdr, (r', _)).
     bytes_Read r' (unat (Uint32 hdr)))"

definition readString :: "bytes \<Rightarrow> go_error + string \<times> bytes" where
  "readString r = sum_bind (readBytes r) (\<lambda>(v, r'). Inr (string_of_bytes v, r'))"

definition decodeMessage :: "bytes \<Rightarrow> go_error + Message" where
  "decodeMessage data =
     sum_bind (map_err (\<lambda>e. Wrapf ''decode message ID: '' e []) (readString data)) (\<lambda>(mid, r1).
     sum_bind (map_err (\<lambda>e. Wrapf ''decode topic: '' e []) (readString r1)) (\<lambda>(topic, r2).
     sum_bind (map_err (\<lambda>e. Wrapf ''decode routing key: '' e []) (readString r2)) (\<lambda>(key, r3).
     sum_bind (map_err (\<lambda>e. Wrapf ''decode payload: '' e []) (readBytes r3)) (\<lambda>(payload, _).
     Inr \<lparr>msg_Topic = topic, msg_ID = mid, msg_RoutingKey = key, msg_Payload = payload\<rparr>))))"

section \<open>The encoded form\<close>

definition frame_bytes :: "bytes \<Rightarrow> bytes" where
  "frame_bytes v = PutUint32 (of_nat (length v)) @ v"

definition message_bytes :: "Message \<Rightarrow> bytes" where
  "message_bytes m =
     frame_bytes (bytes_of_string (msg_ID m)) @ frame_bytes (bytes_of_string (msg_Topic m)) @
     frame_bytes (bytes_of_string (msg_RoutingKey m)) @ frame_bytes (msg_Payload m)"

text \<open>A message is encodable when none of its four fields is 4 GiB or longer.\<close>

definition encodable :: "Message \<Rightarrow> bool" where
  "encodable m \<longleftrightarrow> length (msg_ID m) < 2 ^ 32 \<and> length (msg_Topic m) < 2 ^ 32 \<and>
     length (msg_RoutingKey m) < 2 ^ 32 \<and> length (msg_Payload m) < 2 ^ 32"

lemma length_frame_bytes [simp]: "length (frame_bytes v) = 4 + length v"
  by (simp add: frame_bytes_def)

lemma frame_bytes_not_Nil [simp]: "frame_bytes v \<noteq> []"
  by (simp add: frame_bytes_def PutUint32_def)

lemma length_message_bytes:
  "length (message_bytes m) =
     16 + length (msg_ID m) + length (msg_Topic m) + length (msg_RoutingKey m) + length (msg_Payload m)"
  by (simp add: message_bytes_def)

lemma writeBytes_ok [codec_simps]:
  "length v < 2 ^ 32 \<Longrightarrow> writeBytes buf v = Inr (buf @ frame_bytes v)"
  by (simp add: writeBytes_def frame_bytes_def)

lemma writeBytes_too_long [codec_simps]:
  "2 ^ 32 \<le> length v \<Longrightarrow> writeBytes buf v = Inl (Errorf ''value exceeds maximum supported size'')"
  by (simp add: writeBytes_def)

lemma writeBytes_Inr_iff: "writeBytes buf v = Inr b \<longleftrightarrow> length v < 2 ^ 32 \<and> b = buf @ frame_bytes v"
  by (auto simp: writeBytes_def frame_bytes_def)

lemma encodeMessage_Inr_iff: "encodeMessage m = Inr b \<longleftrightarrow> encodable m \<and> b = message_bytes m"
  by (auto simp: encodeMessage_def writeString_def sum_bind_eq_Inr writeBytes_Inr_iff
      encodable_def message_bytes_def)

lemma encodeMessage_ok [codec_simps]: "encodable m \<Longrightarrow> encodeMessage m = Inr (message_bytes m)"
  by (simp add: encodeMessage_Inr_iff)

section \<open>Reading a field back\<close>

lemma readBytes_frame [codec_simps]:
  assumes "length v < 2 ^ 32" and "v @ rest \<noteq> []"
  shows "readBytes (frame_bytes v @ rest) = Inr (v, rest)"
proof -
  have "ReadFull (frame_bytes v @ rest, EOF) 4 = Inr (PutUint32 (of_nat (length v)), (v @ rest, EOF))"
    by (simp add: frame_bytes_def)
  then show ?thesis
    using assms by (simp add: readBytes_def codec_simps unat_of_nat_small)
qed

lemma readBytes_frame_Nil_end [codec_simps]: "readBytes (frame_bytes []) = Inl EOF"
  by (simp add: readBytes_def frame_bytes_def codec_simps)

lemma readString_frame [codec_simps]:
  "length s < 2 ^ 32 \<Longrightarrow> rest \<noteq> [] \<Longrightarrow>
     readString (frame_bytes (bytes_of_string s) @ rest) = Inr (s, rest)"
  by (simp add: readString_def codec_simps)

text \<open>A field with fewer bytes than its size says is padded with zero bytes.\<close>

lemma readBytes_short:
  assumes "n < 2 ^ 32" and "bs \<noteq> []" and "length bs < n"
  shows "readBytes (PutUint32 (of_nat n) @ bs) = Inr (bs @ replicate (n - length bs) 0, [])"
proof -
  have "ReadFull (PutUint32 (of_nat n) @ bs, EOF) 4 = Inr (PutUint32 (of_nat n), (bs, EOF))"
    by simp
  then show ?thesis
    using assms by (simp add: readBytes_def codec_simps unat_of_nat_small bytes_Read_def)
qed

lemma decodeMessage_message_bytes_tail:
  assumes "encodable m"
  shows "decodeMessage (frame_bytes (bytes_of_string (msg_ID m)) @
     frame_bytes (bytes_of_string (msg_Topic m)) @ frame_bytes (bytes_of_string (msg_RoutingKey m)) @
     p # ps) =
     (case readBytes (p # ps) of Inl e \<Rightarrow> Inl (Wrapf ''decode payload: '' e [])
      | Inr (payload, _) \<Rightarrow> Inr (m\<lparr>msg_Payload := payload\<rparr>))"
  using assms by (cases m) (auto simp: decodeMessage_def encodable_def codec_simps split: sum.split)

lemma decodeMessage_payload:
  assumes "encodable m" and "tail \<noteq> []"
  shows "decodeMessage (frame_bytes (bytes_of_string (msg_ID m)) @
     frame_bytes (bytes_of_string (msg_Topic m)) @ frame_bytes (bytes_of_string (msg_RoutingKey m)) @
     tail) =
     (case readBytes tail of Inl e \<Rightarrow> Inl (Wrapf ''decode payload: '' e [])
      | Inr (payload, _) \<Rightarrow> Inr (m\<lparr>msg_Payload := payload\<rparr>))"
  using assms decodeMessage_message_bytes_tail by (cases tail) auto

lemma decodeMessage_message_bytes [codec_simps]:
  "encodable m \<Longrightarrow> msg_Payload m \<noteq> [] \<Longrightarrow> decodeMessage (message_bytes m) = Inr m"
  using readBytes_frame [of "msg_Payload m" "[]"]
  by (simp add: message_bytes_def decodeMessage_payload encodable_def)

section \<open>Properties of the codec\<close>

text \<open>
  C17: A message with a payload, none of whose fields reaches 4 GiB, is encoded without error and
  decoding the encoded bytes gives the message back.
\<close>

theorem codec_roundtrip:
  assumes "encodable m" and "msg_Payload m \<noteq> []"
  shows "\<exists>b. encodeMessage m = Inr b \<and> decodeMessage b = Inr m"
  using assms by (simp add: codec_simps)

definition sample_message :: Message where
  "sample_message = \<lparr>msg_Topic = ''gpu'', msg_ID = ''7-1'', msg_RoutingKey = ''GPU-0'', msg_Payload = [123, 125]\<rparr>"

lemma sample_message_encodable [simp]: "encodable sample_message"
  by (simp add: encodable_def sample_message_def)

theorem codec_roundtrip_witness:
  "\<exists>b. encodeMessage sample_message = Inr b \<and> decodeMessage b = Inr sample_message"
  by (rule codec_roundtrip) (simp_all add: sample_message_def encodable_def)

text \<open>
  Encoding fails exactly on a message with a field of 4 GiB or more, with the error of the first
  such field in the order message ID, topic, routing key, payload.
\<close>

lemma encode_error_first_long_field:
  "encodeMessage m =
     (let long = Errorf ''value exceeds maximum supported size'' in
      if 2 ^ 32 \<le> length (msg_ID m) then Inl (Wrapf ''encode message ID: '' long [])
      else if 2 ^ 32 \<le> length (msg_Topic m) then Inl (Wrapf ''encode topic: '' long [])
      else if 2 ^ 32 \<le> length (msg_RoutingKey m) then Inl (Wrapf ''encode routing key: '' long [])
      else if 2 ^ 32 \<le> length (msg_Payload m) then Inl (Wrapf ''encode payload: '' long [])
      else Inr (message_bytes m))"
  by (auto simp: encodeMessage_def writeString_def codec_simps message_bytes_def not_le Let_def)

text \<open>
  C26: A message with an empty payload is encoded without error, but the decoder rejects the bytes:
  the last call of \<^verbatim>\<open>(*bytes.Reader).Read\<close> is at the end of the buffer and returns \<^verbatim>\<open>io.EOF\<close>
  even for zero bytes.
\<close>

theorem empty_payload_undecodable:
  assumes "encodable m" and "msg_Payload m = []"
  shows "\<exists>b. encodeMessage m = Inr b \<and> decodeMessage b = Inl (Wrapf ''decode payload: '' EOF [])"
  using assms by (simp add: codec_simps message_bytes_def decodeMessage_payload)

theorem empty_payload_undecodable_witness:
  "\<exists>b. encodeMessage (sample_message\<lparr>msg_Payload := []\<rparr>) = Inr b \<and>
     decodeMessage b = Inl (Wrapf ''decode payload: '' EOF [])"
  by (rule empty_payload_undecodable) (simp_all add: sample_message_def encodable_def)

text \<open>
  The decoder does not notice that the payload was cut short: when the last \<open>k\<close> bytes of the
  encoding are missing, but not the whole payload, it returns the message with \<open>k\<close> zero bytes in
  their place.
\<close>

lemma truncated_payload_zero_filled:
  assumes "encodable m" and "encodeMessage m = Inr b" and "k < length (msg_Payload m)"
  shows "decodeMessage (take (length b - k) b) =
    Inr (m\<lparr>msg_Payload := take (length (msg_Payload m) - k) (msg_Payload m) @ replicate k 0\<rparr>)"
proof -
  let ?p = "take (length (msg_Payload m) - k) (msg_Payload m)"
  let ?pre = "frame_bytes (bytes_of_string (msg_ID m)) @ frame_bytes (bytes_of_string (msg_Topic m)) @
    frame_bytes (bytes_of_string (msg_RoutingKey m))"
  let ?tail = "PutUint32 (of_nat (length (msg_Payload m))) @ ?p"
  have b: "b = ?pre @ PutUint32 (of_nat (length (msg_Payload m))) @ msg_Payload m"
    using assms by (simp add: encodeMessage_Inr_iff message_bytes_def frame_bytes_def)
  have cut: "take (length b - k) b = ?pre @ ?tail"
    using assms(3) by (simp add: b)
  have p: "?p \<noteq> []" "length ?p = length (msg_Payload m) - k" using assms(3) by auto
  have len: "length (msg_Payload m) < 2 ^ 32" using assms(1) by (simp add: encodable_def)
  have "readBytes ?tail = Inr (?p @ replicate k 0, [])"
  proof (cases "k = 0")
    case True
    with readBytes_frame [of "msg_Payload m" "[]"] assms(3) len show ?thesis
      by (auto simp: frame_bytes_def)
  next
    case False
    with readBytes_short [OF len, of ?p] p assms(3) show ?thesis by simp
  qed
  moreover have "?tail \<noteq> []" using p by simp
  ultimately show ?thesis
    unfolding cut using decodeMessage_payload [OF assms(1), of ?tail] by simp
qed

lemma truncated_payload_zero_filled_witness:
  "\<exists>b. encodeMessage sample_message = Inr b \<and>
     decodeMessage (take (length b - 1) b) = Inr (sample_message\<lparr>msg_Payload := [123, 0]\<rparr>)"
proof -
  have enc: "encodeMessage sample_message = Inr (message_bytes sample_message)"
    by (simp add: codec_simps)
  have "(1::nat) < length (msg_Payload sample_message)" by (simp add: sample_message_def)
  from truncated_payload_zero_filled [OF sample_message_encodable enc this] enc show ?thesis
    by (simp add: sample_message_def)
qed

end
