(* ===== verification/Segment_Store.thy ===== *)
theory Segment_Store
  imports Codec
begin

text \<open>
  The append-only segment file of \<^verbatim>\<open>segment_store.go\<close>. A file is its bytes in a file system (a
  map from paths), a \<open>SegmentStore\<close> is an open handle on a path, and every call of the operating
  system may fail: an \<open>io\<close> record says, for one operation, which of its calls fail and after how
  many bytes. The handle is opened with \<^verbatim>\<open>O_APPEND\<close>, so a write goes to the end of the file
  whatever the read position is, and each scan starts with a seek to the beginning; the position is
  therefore not part of the state.

  The specification of a segment is its list of records, in file order (\<open>log_bytes\<close>). The lemmas
  show that a scan finds the first record with an offset, that recovery keeps exactly the complete
  records in front of a torn tail, and that on arbitrary bytes recovery is idempotent and leaves a
  file that every read can scan to its end.
\<close>

section \<open>Files and faults\<close>

type_synonym filesystem = "string \<rightharpoonup> bytes"

record io =
  io_mkdir :: "go_error option"
  io_open :: "go_error option"
  io_seek :: "go_error option"
  io_write_header :: "(nat \<times> go_error) option"
  io_write_payload :: "(nat \<times> go_error) option"
  io_sync :: "go_error option"
  io_read :: "(nat \<times> go_error) option"
  io_truncate :: "go_error option"
  io_seek_end :: "go_error option"
  io_close :: "go_error option"

definition io_ok :: io where
  "io_ok = \<lparr>io_mkdir = None, io_open = None, io_seek = None, io_write_header = None,
     io_write_payload = None, io_sync = None, io_read = None, io_truncate = None,
     io_seek_end = None, io_close = None\<rparr>"

record SegmentStore =
  seg_path :: string
  seg_open :: bool

lemma io_ok_simps [simp]:
  "io_mkdir io_ok = None" "io_open io_ok = None" "io_seek io_ok = None"
  "io_write_header io_ok = None" "io_write_payload io_ok = None" "io_sync io_ok = None"
  "io_read io_ok = None" "io_truncate io_ok = None" "io_seek_end io_ok = None" "io_close io_ok = None"
  by (simp_all add: io_ok_def)

definition contents :: "filesystem \<Rightarrow> SegmentStore \<Rightarrow> bytes" where
  "contents fs s = (case fs (seg_path s) of None \<Rightarrow> [] | Some b \<Rightarrow> b)"

definition ErrClosed :: "string \<Rightarrow> SegmentStore \<Rightarrow> go_error" where
  "ErrClosed op s = OSError (op @ '' '' @ seg_path s @ '': file already closed'')"

text \<open>An operation of \<^verbatim>\<open>*os.File\<close> without a result: it fails on a closed file.\<close>

definition file_op :: "string \<Rightarrow> go_error option \<Rightarrow> SegmentStore \<Rightarrow> go_error option" where
  "file_op op fault s = (if seg_open s then fault else Some (ErrClosed op s))"

text \<open>\<^verbatim>\<open>(*os.File).Write\<close>: all bytes, or a prefix of them and an error.\<close>

definition file_write ::
  "(nat \<times> go_error) option \<Rightarrow> filesystem \<Rightarrow> SegmentStore \<Rightarrow> bytes \<Rightarrow> filesystem \<times> go_error option" where
  "file_write fault fs s bs =
     (if \<not> seg_open s then (fs, Some (ErrClosed ''write'' s))
      else (case fault of
          None \<Rightarrow> (fs(seg_path s \<mapsto> contents fs s @ bs), None)
        | Some (n, e) \<Rightarrow> (fs(seg_path s \<mapsto> contents fs s @ take n bs), Some e)))"

text \<open>The file as a reader from its beginning; a device failure cuts it after \<open>n\<close> bytes.\<close>

definition file_reader :: "io \<Rightarrow> filesystem \<Rightarrow> SegmentStore \<Rightarrow> reader" where
  "file_reader io fs s =
     (case io_read io of
        None \<Rightarrow> (contents fs s, EOF)
      | Some (n, e) \<Rightarrow> (take n (contents fs s), e))"

section \<open>Operations\<close>

definition recordHeaderSize :: nat where
  "recordHeaderSize = 12"

definition OpenSegmentStore :: "io \<Rightarrow> filesystem \<Rightarrow> string \<Rightarrow> filesystem \<times> (go_error + SegmentStore)" where
  "OpenSegmentStore io fs path =
     (case io_open io of
        Some e \<Rightarrow> (fs, Inl (Wrapf ''open segment: '' e []))
      | None \<Rightarrow>
          ((case fs path of None \<Rightarrow> fs(path \<mapsto> []) | Some _ \<Rightarrow> fs),
           Inr \<lparr>seg_path = path, seg_open = True\<rparr>))"

definition SegmentStore_Append ::
  "io \<Rightarrow> filesystem \<Rightarrow> SegmentStore \<Rightarrow> Record \<Rightarrow> filesystem \<times> go_error option" where
  "SegmentStore_Append io fs s r =
     (case encodeMessage (rec_Message r) of
        Inl e \<Rightarrow> (fs, Some (Wrapf ''encode record: '' e []))
      | Inr payload \<Rightarrow>
          (let header = PutUint32 (of_nat (length payload)) @ PutUint64 (rec_Offset r) in
           case file_write (io_write_header io) fs s header of
             (fs1, Some e) \<Rightarrow> (fs1, Some (Wrapf ''write record header: '' e []))
           | (fs1, None) \<Rightarrow>
               (case file_write (io_write_payload io) fs1 s payload of
                  (fs2, Some e) \<Rightarrow> (fs2, Some (Wrapf ''write record payload: '' e []))
                | (fs2, None) \<Rightarrow> (fs2, None))))"

definition SegmentStore_Flush :: "io \<Rightarrow> SegmentStore \<Rightarrow> go_error option" where
  "SegmentStore_Flush io s =
     map_option (\<lambda>e. Wrapf ''sync segment: '' e []) (file_op ''sync'' (io_sync io) s)"

text \<open>The loop of \<^verbatim>\<open>Read\<close>: one iteration reads a header and a payload.\<close>

function read_loop :: "reader \<Rightarrow> Offset \<Rightarrow> go_error + Record" where
  "read_loop rd offset =
     (case ReadFull rd recordHeaderSize of
        Inl err \<Rightarrow>
          if err = EOF then Inl ErrOffsetNotFound else Inl (Wrapf ''read record header: '' err [])
      | Inr (header, rd1) \<Rightarrow>
          (case ReadFull rd1 (unat (Uint32 (take 4 header))) of
             Inl err \<Rightarrow> Inl (Wrapf ''read record payload: '' err [])
           | Inr (payload, rd2) \<Rightarrow>
               if Uint64 (drop 4 header) \<noteq> offset then read_loop rd2 offset
               else (case decodeMessage payload of
                       Inl err \<Rightarrow> Inl (Wrapf ''decode record: '' err [])
                     | Inr m \<Rightarrow> Inr \<lparr>rec_Offset = Uint64 (drop 4 header), rec_Message = m\<rparr>)))"
  by pat_completeness auto
termination
  by (relation "measure (\<lambda>(rd, _). length (fst rd))")
    (auto simp: recordHeaderSize_def split: if_splits elim!: ReadFull.elims)

definition SegmentStore_Read :: "io \<Rightarrow> filesystem \<Rightarrow> SegmentStore \<Rightarrow> Offset \<Rightarrow> go_error + Record" where
  "SegmentStore_Read io fs s offset =
     (case file_op ''seek'' (io_seek io) s of
        Some e \<Rightarrow> Inl (Wrapf ''seek segment: '' e [])
      | None \<Rightarrow> read_loop (file_reader io fs s) offset)"

text \<open>
  The loop of \<^verbatim>\<open>Recover\<close> with its two variables \<^verbatim>\<open>nextOffset\<close> and \<^verbatim>\<open>validBytes\<close>: it stops at
  the first header or payload it cannot read and at the first payload it cannot decode.
\<close>

function recover_loop :: "reader \<Rightarrow> Offset \<Rightarrow> nat \<Rightarrow> Offset \<times> nat" where
  "recover_loop rd nextOffset validBytes =
     (case ReadFull rd recordHeaderSize of
        Inl _ \<Rightarrow> (nextOffset, validBytes)
      | Inr (header, rd1) \<Rightarrow>
          (case ReadFull rd1 (unat (Uint32 (take 4 header))) of
             Inl _ \<Rightarrow> (nextOffset, validBytes)
           | Inr (payload, rd2) \<Rightarrow>
               (case decodeMessage payload of
                  Inl _ \<Rightarrow> (nextOffset, validBytes)
                | Inr _ \<Rightarrow>
                    (let recordOffset = Uint64 (drop 4 header) in
                     recover_loop rd2
                       (if recordOffset \<ge> nextOffset then recordOffset + 1 else nextOffset)
                       (validBytes + recordHeaderSize + unat (Uint32 (take 4 header)))))))"
  by pat_completeness auto
termination
  by (relation "measure (\<lambda>(rd, _). length (fst rd))")
    (auto simp: recordHeaderSize_def split: if_splits elim!: ReadFull.elims)

definition SegmentStore_Recover ::
  "io \<Rightarrow> filesystem \<Rightarrow> SegmentStore \<Rightarrow> filesystem \<times> (go_error + Offset)" where
  "SegmentStore_Recover io fs s =
     (case file_op ''seek'' (io_seek io) s of
        Some e \<Rightarrow> (fs, Inl (Wrapf ''seek segment: '' e []))
      | None \<Rightarrow>
          (case recover_loop (file_reader io fs s) 0 0 of (nextOffset, validBytes) \<Rightarrow>
             (case io_truncate io of
                Some e \<Rightarrow> (fs, Inl (Wrapf ''truncate invalid segment tail: '' e []))
              | None \<Rightarrow>
                  (let fs1 = fs(seg_path s \<mapsto> take validBytes (contents fs s)) in
                   case io_seek_end io of
                     Some e \<Rightarrow> (fs1, Inl (Wrapf ''seek segment end: '' e []))
                   | None \<Rightarrow> (fs1, Inr nextOffset)))))"

definition SegmentStore_Close :: "io \<Rightarrow> SegmentStore \<Rightarrow> SegmentStore \<times> go_error option" where
  "SegmentStore_Close io s =
     (s\<lparr>seg_open := False\<rparr>,
      map_option (\<lambda>e. Wrapf ''close segment: '' e []) (file_op ''close'' (io_close io) s))"

declare read_loop.simps [simp del] recover_loop.simps [simp del]

section \<open>The log of a segment\<close>

text \<open>The bytes of one record: the twelve-byte header and the encoded message.\<close>

definition record_bytes :: "Record \<Rightarrow> bytes" where
  "record_bytes r =
     (PutUint32 (of_nat (length (message_bytes (rec_Message r)))) @ PutUint64 (rec_Offset r)) @
     message_bytes (rec_Message r)"

definition log_bytes :: "Record list \<Rightarrow> bytes" where
  "log_bytes rs = concat (map record_bytes rs)"

text \<open>
  A message the store can write and read back: every field fits a 32-bit length, so does the whole
  encoding, and the payload is not empty.
\<close>

definition storable :: "Message \<Rightarrow> bool" where
  "storable m \<longleftrightarrow> encodable m \<and> length (message_bytes m) < 2 ^ 32 \<and> msg_Payload m \<noteq> []"

text \<open>How one record moves the next offset that \<open>Recover\<close> computes.\<close>

definition bump :: "Offset \<Rightarrow> Record \<Rightarrow> Offset" where
  "bump n r = (if rec_Offset r \<ge> n then rec_Offset r + 1 else n)"

lemma storable_encodable [simp, intro]: "storable m \<Longrightarrow> encodable m"
  by (simp add: storable_def)

lemma length_record_bytes: "length (record_bytes r) = 12 + length (message_bytes (rec_Message r))"
  by (simp add: record_bytes_def)

lemma record_bytes_not_Nil [simp]: "record_bytes r \<noteq> []"
  using length_record_bytes [of r] by auto

lemma log_bytes_simps [simp]:
  "log_bytes [] = []"
  "log_bytes (r # rs) = record_bytes r @ log_bytes rs"
  "log_bytes (rs @ rs') = log_bytes rs @ log_bytes rs'"
  by (simp_all add: log_bytes_def)

lemma header_fields [codec_simps]:
  "Uint32 (take 4 (PutUint32 v @ PutUint64 w)) = v"
  "Uint64 (drop 4 (PutUint32 v @ PutUint64 w)) = w"
  by (simp_all add: codec_simps)

text \<open>
  One iteration of each loop, on raw bytes: \<open>payload_size\<close> and \<open>record_offset\<close> are the header
  fields, \<open>payload_at\<close> the payload that follows, \<open>complete\<close> says both are there.
\<close>

definition payload_size :: "bytes \<Rightarrow> nat" where
  "payload_size bs = unat (Uint32 (take 4 bs))"

definition record_offset :: "bytes \<Rightarrow> Offset" where
  "record_offset bs = Uint64 (drop 4 (take 12 bs))"

definition payload_at :: "bytes \<Rightarrow> bytes" where
  "payload_at bs = take (payload_size bs) (drop 12 bs)"

definition complete :: "bytes \<Rightarrow> bool" where
  "complete bs \<longleftrightarrow> 12 \<le> length bs \<and> 12 + payload_size bs \<le> length bs"

definition valid_head :: "bytes \<Rightarrow> bool" where
  "valid_head bs \<longleftrightarrow> complete bs \<and> (\<exists>m. decodeMessage (payload_at bs) = Inr m)"

lemma read_loop_step:
  assumes "complete bs"
  shows "read_loop (bs, e) off =
    (if record_offset bs \<noteq> off then read_loop (drop (12 + payload_size bs) bs, e) off
     else (case decodeMessage (payload_at bs) of
             Inl err \<Rightarrow> Inl (Wrapf ''decode record: '' err [])
           | Inr m \<Rightarrow> Inr \<lparr>rec_Offset = record_offset bs, rec_Message = m\<rparr>))"
proof -
  from assms have "12 \<le> length bs" "unat (Uint32 (take 4 bs)) \<le> length bs - 12"
    by (auto simp: complete_def payload_size_def)
  then show ?thesis
    unfolding record_offset_def payload_at_def payload_size_def
    by (subst read_loop.simps)
      (simp add: recordHeaderSize_def add.commute [of "unat (Uint32 (take 4 bs))" 12])
qed

lemma recover_loop_step:
  assumes "valid_head bs"
  shows "recover_loop (bs, e) n v =
    recover_loop (drop (12 + payload_size bs) bs, e)
      (if record_offset bs \<ge> n then record_offset bs + 1 else n) (v + (12 + payload_size bs))"
proof -
  from assms obtain m where "12 \<le> length bs" "unat (Uint32 (take 4 bs)) \<le> length bs - 12"
    "decodeMessage (take (unat (Uint32 (take 4 bs))) (drop 12 bs)) = Inr m"
    by (auto simp: valid_head_def complete_def payload_size_def payload_at_def)
  then show ?thesis
    unfolding record_offset_def payload_size_def
    by (subst recover_loop.simps)
      (simp add: recordHeaderSize_def Let_def add.assoc add.commute [of "unat (Uint32 (take 4 bs))" 12])
qed

lemma recover_loop_stop:
  assumes "\<not> valid_head bs"
  shows "recover_loop (bs, e) n v = (n, v)"
  using assms
  by (subst recover_loop.simps)
    (auto simp: recordHeaderSize_def valid_head_def complete_def payload_at_def payload_size_def
      split: sum.splits)

lemma record_bytes_head [codec_simps]:
  assumes "storable (rec_Message r)"
  shows "payload_size (record_bytes r @ rest) = length (message_bytes (rec_Message r))"
    and "record_offset (record_bytes r @ rest) = rec_Offset r"
    and "payload_at (record_bytes r @ rest) = message_bytes (rec_Message r)"
    and "drop (12 + length (message_bytes (rec_Message r))) (record_bytes r @ rest) = rest"
    and "complete (record_bytes r @ rest)"
  using assms
  by (simp_all add: payload_size_def record_offset_def payload_at_def complete_def record_bytes_def
      storable_def codec_simps unat_of_nat_small)

lemma valid_head_record [codec_simps]:
  "storable (rec_Message r) \<Longrightarrow> valid_head (record_bytes r @ rest)"
  by (auto simp: valid_head_def codec_simps storable_def)

lemma read_loop_record [store_simps]:
  assumes "storable (rec_Message r)"
  shows "read_loop (record_bytes r @ rest, e) off =
    (if rec_Offset r = off then Inr r else read_loop (rest, e) off)"
  using assms by (subst read_loop_step) (simp_all add: codec_simps storable_def length_record_bytes)

lemma recover_loop_record [store_simps]:
  assumes "storable (rec_Message r)"
  shows "recover_loop (record_bytes r @ rest, e) n v =
    recover_loop (rest, e) (bump n r) (v + length (record_bytes r))"
  using assms
  by (subst recover_loop_step) (simp_all add: codec_simps bump_def length_record_bytes)

lemma read_loop_Nil [store_simps]:
  "read_loop ([], EOF) off = Inl ErrOffsetNotFound"
  by (subst read_loop.simps) (simp add: recordHeaderSize_def)

lemma recover_loop_Nil [store_simps]: "recover_loop ([], e) n v = (n, v)"
  by (subst recover_loop.simps) (simp add: recordHeaderSize_def)

lemma read_loop_log [store_simps]:
  "\<forall>r \<in> set rs. storable (rec_Message r) \<Longrightarrow>
   read_loop (log_bytes rs @ rest, e) off =
     (case find (\<lambda>r. rec_Offset r = off) rs of
        Some r \<Rightarrow> Inr r | None \<Rightarrow> read_loop (rest, e) off)"
  by (induction rs) (auto simp: store_simps)

lemma recover_loop_log [store_simps]:
  "\<forall>r \<in> set rs. storable (rec_Message r) \<Longrightarrow>
   recover_loop (log_bytes rs @ rest, e) n v =
     recover_loop (rest, e) (foldl bump n rs) (v + length (log_bytes rs))"
  by (induction rs arbitrary: n v) (auto simp: store_simps add.assoc)

text \<open>A proper prefix of a record, as a crash in the middle of a write leaves it, ends the scan.\<close>

lemma torn_not_complete:
  assumes "storable (rec_Message r)" and "k < length (record_bytes r)"
  shows "\<not> complete (take k (record_bytes r))"
proof
  assume c: "complete (take k (record_bytes r))"
  then have "12 \<le> k" by (simp add: complete_def)
  then have "take 4 (take k (record_bytes r)) = take 4 (record_bytes r)" by simp
  then have "payload_size (take k (record_bytes r)) = length (message_bytes (rec_Message r))"
    using record_bytes_head(1) [OF assms(1), of "[]"] by (simp add: payload_size_def)
  with c assms(2) show False
    by (simp add: complete_def length_record_bytes)
qed

lemma recover_loop_torn [store_simps]:
  "storable (rec_Message r) \<Longrightarrow> k < length (record_bytes r) \<Longrightarrow>
     recover_loop (take k (record_bytes r), e) n v = (n, v)"
  by (rule recover_loop_stop) (auto simp: valid_head_def dest: torn_not_complete)

section \<open>Recovery on arbitrary bytes\<close>

text \<open>Cutting a file after a complete record does not change what its head says.\<close>

lemma head_take:
  assumes "complete bs" and "12 + payload_size bs \<le> k"
  shows "payload_size (take k bs) = payload_size bs" and "record_offset (take k bs) = record_offset bs"
    and "payload_at (take k bs) = payload_at bs" and "complete (take k bs)"
proof -
  from assms(2) show size: "payload_size (take k bs) = payload_size bs"
    by (simp add: payload_size_def min_absorb1)
  from assms(2) show "record_offset (take k bs) = record_offset bs"
    by (simp add: record_offset_def min_absorb1)
  from assms show "payload_at (take k bs) = payload_at bs"
    by (simp add: payload_at_def size drop_take min_absorb1)
  from assms show "complete (take k bs)"
    by (simp add: complete_def size)
qed

text \<open>
  The number of valid bytes is the length \<open>k\<close> of a prefix of the file, scanning that prefix alone
  gives the same result, and every read of that prefix ends at a record or at \<open>ErrOffsetNotFound\<close>.
\<close>

definition scannable :: "bytes \<Rightarrow> bool" where
  "scannable bs \<longleftrightarrow> (\<forall>off. read_loop (bs, EOF) off = Inl ErrOffsetNotFound \<or>
     (\<exists>r. read_loop (bs, EOF) off = Inr r \<and> rec_Offset r = off))"

lemma scannable_step:
  assumes "valid_head bs" and "scannable (drop (12 + payload_size bs) bs)"
  shows "scannable bs"
  using assms unfolding scannable_def valid_head_def
  by (auto simp: read_loop_step)

lemma head_take_valid:
  assumes "valid_head bs"
  shows "payload_size (take (12 + payload_size bs + k) bs) = payload_size bs"
    and "record_offset (take (12 + payload_size bs + k) bs) = record_offset bs"
    and "valid_head (take (12 + payload_size bs + k) bs)"
  using assms head_take [of bs "12 + payload_size bs + k"] by (simp_all add: valid_head_def)

lemma recover_loop_step_take:
  assumes "valid_head bs"
  shows "recover_loop (take (12 + payload_size bs + k) bs, e) n v =
    recover_loop (take k (drop (12 + payload_size bs) bs), e)
      (if record_offset bs \<ge> n then record_offset bs + 1 else n) (v + (12 + payload_size bs))"
  using recover_loop_step [OF head_take_valid(3) [OF assms], of k e n v]
  by (simp add: head_take_valid [OF assms] drop_take)

lemma scannable_step_take:
  assumes "valid_head bs" and "scannable (take k (drop (12 + payload_size bs) bs))"
  shows "scannable (take (12 + payload_size bs + k) bs)"
  by (rule scannable_step) (use assms in \<open>simp_all add: head_take_valid drop_take\<close>)

lemma recover_loop_prefix:
  "\<exists>k n'. k \<le> length bs \<and> recover_loop (bs, e) n v = (n', v + k) \<and>
     recover_loop (take k bs, EOF) n v = (n', v + k) \<and> scannable (take k bs)"
proof (induction "length bs" arbitrary: bs n v rule: less_induct)
  case less
  let ?s = "12 + payload_size bs" and ?n = "if record_offset bs \<ge> n then record_offset bs + 1 else n"
  show ?case
  proof (cases "valid_head bs")
    case False
    then show ?thesis
      by (intro exI [of _ 0] exI [of _ n])
        (simp add: recover_loop_stop recover_loop_Nil scannable_def read_loop_Nil)
  next
    case True
    then have len: "?s \<le> length bs" by (simp add: valid_head_def complete_def)
    then have "length (drop ?s bs) < length bs" by simp
    from less [OF this, of ?n "v + ?s"] obtain k n' where k: "k \<le> length (drop ?s bs)"
      and r1: "recover_loop (drop ?s bs, e) ?n (v + ?s) = (n', v + ?s + k)"
      and r2: "recover_loop (take k (drop ?s bs), EOF) ?n (v + ?s) = (n', v + ?s + k)"
      and sc: "scannable (take k (drop ?s bs))"
      by blast
    have "?s + k \<le> length bs" using k len by simp
    moreover have "recover_loop (bs, e) n v = (n', v + (?s + k))"
      unfolding recover_loop_step [OF True] r1 by simp
    moreover have "recover_loop (take (?s + k) bs, EOF) n v = (n', v + (?s + k))"
      unfolding recover_loop_step_take [OF True] r2 by simp
    moreover have "scannable (take (?s + k) bs)"
      using True sc by (rule scannable_step_take)
    ultimately show ?thesis by blast
  qed
qed

section \<open>Behaviour of the operations\<close>

lemma contents_upd [simp]:
  "contents (fs(seg_path s \<mapsto> b)) s = b"
  "seg_path t \<noteq> seg_path s \<Longrightarrow> contents (fs(seg_path s \<mapsto> b)) t = contents fs t"
  by (simp_all add: contents_def)

text \<open>
  Whatever fails, an append adds a prefix of the record's bytes to the end of the file, the whole
  record when it reports success, and touches no other file.
\<close>

lemma SegmentStore_Append_prefix:
  assumes "SegmentStore_Append io fs s r = (fs', err)"
  obtains k where "k \<le> length (record_bytes r)"
    and "contents fs' s = contents fs s @ take k (record_bytes r)"
    and "err = None \<longrightarrow> k = length (record_bytes r) \<and> seg_open s \<and> encodable (rec_Message r)"
    and "\<forall>p. p \<noteq> seg_path s \<longrightarrow> fs' p = fs p"
proof (cases "encodable (rec_Message r) \<and> seg_open s")
  case False
  have "\<not> encodable (rec_Message r) \<Longrightarrow> \<exists>e. encodeMessage (rec_Message r) = Inl e"
    by (cases "encodeMessage (rec_Message r)") (auto simp: encodeMessage_Inr_iff)
  with False assms have "fs' = fs" "err \<noteq> None"
    by (auto simp: SegmentStore_Append_def file_write_def Let_def split: sum.splits)
  then show ?thesis by (intro that [of 0]) auto
next
  case True
  let ?m = "message_bytes (rec_Message r)"
  let ?h = "PutUint32 (of_nat (length ?m)) @ PutUint64 (rec_Offset r)"
  have rb: "record_bytes r = ?h @ ?m" by (simp add: record_bytes_def)
  have h: "length ?h = 12" by simp
  show ?thesis
  proof (cases "io_write_header io")
    case (Some f)
    then obtain n e where "io_write_header io = Some (n, e)" by (cases f) auto
    with True assms have "contents fs' s = contents fs s @ take n ?h" "err \<noteq> None"
      "\<forall>p. p \<noteq> seg_path s \<longrightarrow> fs' p = fs p"
      by (auto simp: SegmentStore_Append_def file_write_def Let_def codec_simps)
    then show ?thesis by (intro that [of "min n 12"]) (auto simp: rb min_def)
  next
    case None
    note hdr = this
    show ?thesis
    proof (cases "io_write_payload io")
      case (Some f)
      then obtain n e where "io_write_payload io = Some (n, e)" by (cases f) auto
      with True assms hdr have "contents fs' s = contents fs s @ ?h @ take n ?m" "err \<noteq> None"
        "\<forall>p. p \<noteq> seg_path s \<longrightarrow> fs' p = fs p"
        by (auto simp: SegmentStore_Append_def file_write_def Let_def codec_simps)
      then show ?thesis by (intro that [of "12 + min n (length ?m)"]) (auto simp: rb min_def)
    next
      case None
      with True assms hdr have "contents fs' s = contents fs s @ record_bytes r" "err = None"
        "\<forall>p. p \<noteq> seg_path s \<longrightarrow> fs' p = fs p"
        by (auto simp: SegmentStore_Append_def file_write_def Let_def codec_simps rb)
      with True show ?thesis by (intro that [of "length (record_bytes r)"]) auto
    qed
  qed
qed

lemma SegmentStore_Append_ok [store_simps]:
  assumes "seg_open s" and "encodable (rec_Message r)"
    and "io_write_header io = None" and "io_write_payload io = None"
  shows "SegmentStore_Append io fs s r = (fs(seg_path s \<mapsto> contents fs s @ record_bytes r), None)"
  using assms
  by (simp add: SegmentStore_Append_def codec_simps file_write_def Let_def record_bytes_def)

lemma SegmentStore_Flush_ok [store_simps]:
  "seg_open s \<Longrightarrow> io_sync io = None \<Longrightarrow> SegmentStore_Flush io s = None"
  by (simp add: SegmentStore_Flush_def file_op_def)

lemma SegmentStore_Read_log [store_simps]:
  assumes "seg_open s" and "io_seek io = None" and "io_read io = None"
    and "contents fs s = log_bytes rs" and "\<forall>r \<in> set rs. storable (rec_Message r)"
  shows "SegmentStore_Read io fs s off =
    (case find (\<lambda>r. rec_Offset r = off) rs of Some r \<Rightarrow> Inr r | None \<Rightarrow> Inl ErrOffsetNotFound)"
  using assms read_loop_log [of rs "[]" EOF off]
  by (simp add: SegmentStore_Read_def file_op_def file_reader_def read_loop_Nil split: option.split)

lemma SegmentStore_Recover_ok:
  assumes "seg_open s" and "io_seek io = None" and "io_truncate io = None" and "io_seek_end io = None"
    and "recover_loop (file_reader io fs s) 0 0 = (n, v)"
  shows "SegmentStore_Recover io fs s = (fs(seg_path s \<mapsto> take v (contents fs s)), Inr n)"
  using assms by (simp add: SegmentStore_Recover_def file_op_def Let_def)

text \<open>A complete log followed by a torn record: recovery keeps the complete records.\<close>

lemma SegmentStore_Recover_torn:
  assumes "seg_open s" and "\<forall>r \<in> set rs. storable (rec_Message r)" and "storable (rec_Message r)"
    and "contents fs s = log_bytes rs @ take k (record_bytes r)" and "k < length (record_bytes r)"
  shows "SegmentStore_Recover io_ok fs s =
    (fs(seg_path s \<mapsto> log_bytes rs), Inr (foldl bump 0 rs))"
proof -
  have "recover_loop (file_reader io_ok fs s) 0 0 = (foldl bump 0 rs, length (log_bytes rs))"
    using assms by (simp add: file_reader_def store_simps)
  from SegmentStore_Recover_ok [OF assms(1) _ _ _ this] show ?thesis
    by (simp add: assms)
qed

lemma SegmentStore_Recover_log [store_simps]:
  assumes "seg_open s" and "\<forall>r \<in> set rs. storable (rec_Message r)" and "contents fs s = log_bytes rs"
  shows "SegmentStore_Recover io_ok fs s =
    (fs(seg_path s \<mapsto> log_bytes rs), Inr (foldl bump 0 rs))"
proof -
  have "recover_loop (file_reader io_ok fs s) 0 0 = (foldl bump 0 rs, length (log_bytes rs))"
    using assms recover_loop_log [of rs "[]" EOF 0 0]
    by (simp add: file_reader_def recover_loop_Nil)
  from SegmentStore_Recover_ok [OF assms(1) _ _ _ this] show ?thesis
    by (simp add: assms)
qed

section \<open>Properties of the segment store\<close>

text \<open>
  C6: An append is all or nothing across a crash. Whatever of the file system's calls fail, and
  after however many bytes, opening the segment again and recovering it gives either the old log or
  the old log with the new record, and the latter when the append reported success.
\<close>

theorem append_crash_atomic:
  assumes "seg_open s" and "contents fs s = log_bytes rs"
    and "\<forall>r' \<in> set rs. storable (rec_Message r')" and "storable (rec_Message r)"
    and "SegmentStore_Append io fs s r = (fs', err)"
  shows "\<exists>rs' \<in> {rs, rs @ [r]}. (err = None \<longrightarrow> rs' = rs @ [r]) \<and>
    SegmentStore_Recover io_ok fs' s = (fs'(seg_path s \<mapsto> log_bytes rs'), Inr (foldl bump 0 rs'))"
proof -
  from assms(5) obtain k where k: "k \<le> length (record_bytes r)"
    and c: "contents fs' s = log_bytes rs @ take k (record_bytes r)"
    and e: "err = None \<longrightarrow> k = length (record_bytes r)"
    by (rule SegmentStore_Append_prefix) (auto simp: assms(2))
  show ?thesis
  proof (cases "k = length (record_bytes r)")
    case True
    with c have "contents fs' s = log_bytes (rs @ [r])" by simp
    from SegmentStore_Recover_log [OF assms(1) _ this] assms(3,4)
    show ?thesis by (intro bexI [of _ "rs @ [r]"]) auto
  next
    case False
    with k have "k < length (record_bytes r)" by simp
    from SegmentStore_Recover_torn [OF assms(1,3,4) c this] e False
    show ?thesis by auto
  qed
qed

definition sample_segment :: SegmentStore where
  "sample_segment = \<lparr>seg_path = ''p'', seg_open = True\<rparr>"

definition sample_record :: Record where
  "sample_record = \<lparr>rec_Offset = 0, rec_Message = sample_message\<rparr>"

lemma sample_record_storable [simp]: "storable (rec_Message sample_record)" "storable sample_message"
  by (simp_all add: sample_record_def storable_def length_message_bytes, simp_all add: sample_message_def)

theorem append_crash_atomic_witness:
  "\<exists>rs' \<in> {[], [] @ [sample_record]}.
    (snd (SegmentStore_Append io_ok Map.empty sample_segment sample_record) = None \<longrightarrow>
       rs' = [] @ [sample_record]) \<and>
    SegmentStore_Recover io_ok (fst (SegmentStore_Append io_ok Map.empty sample_segment sample_record))
      sample_segment =
      ((fst (SegmentStore_Append io_ok Map.empty sample_segment sample_record))
         (seg_path sample_segment \<mapsto> log_bytes rs'), Inr (foldl bump 0 rs'))"
  by (rule append_crash_atomic) (simp_all add: sample_segment_def contents_def)

text \<open>
  C15: On arbitrary file contents, recovery with a working file system succeeds, keeps a prefix of the
  file, is idempotent (a second recovery changes nothing and returns the same next offset), and
  leaves a file in which every read ends at a record with the wanted offset or at
  \<open>ErrOffsetNotFound\<close>.
\<close>

theorem recover_idempotent_and_readable:
  assumes "seg_open s"
  shows "\<exists>n fs'. SegmentStore_Recover io_ok fs s = (fs', Inr n) \<and>
    (\<exists>k. contents fs' s = take k (contents fs s)) \<and>
    SegmentStore_Recover io_ok fs' s = (fs', Inr n) \<and>
    (\<forall>off. SegmentStore_Read io_ok fs' s off = Inl ErrOffsetNotFound \<or>
       (\<exists>r. SegmentStore_Read io_ok fs' s off = Inr r \<and> rec_Offset r = off))"
proof -
  from recover_loop_prefix [of "contents fs s" EOF 0 0] obtain k n
    where k: "k \<le> length (contents fs s)"
      and r1: "recover_loop (contents fs s, EOF) 0 0 = (n, k)"
      and r2: "recover_loop (take k (contents fs s), EOF) 0 0 = (n, k)"
      and sc: "scannable (take k (contents fs s))"
    by auto
  let ?fs = "fs(seg_path s \<mapsto> take k (contents fs s))"
  have rd: "file_reader io_ok g s = (contents g s, EOF)" for g
    by (simp add: file_reader_def)
  have first: "SegmentStore_Recover io_ok fs s = (?fs, Inr n)"
    using SegmentStore_Recover_ok [OF assms _ _ _ r1 [folded rd]] by simp
  have "recover_loop (file_reader io_ok ?fs s) 0 0 = (n, k)"
    by (simp add: rd r2)
  from SegmentStore_Recover_ok [OF assms _ _ _ this] k
  have second: "SegmentStore_Recover io_ok ?fs s = (?fs, Inr n)"
    by simp
  have "SegmentStore_Read io_ok ?fs s off = read_loop (take k (contents fs s), EOF) off" for off
    using assms by (simp add: SegmentStore_Read_def rd file_op_def)
  with first second sc show ?thesis
    unfolding scannable_def by (metis contents_upd(1))
qed

theorem recover_idempotent_and_readable_witness:
  "\<exists>n fs'. SegmentStore_Recover io_ok [''p'' \<mapsto> [1, 2, 3]] sample_segment = (fs', Inr n) \<and>
    (\<exists>k. contents fs' sample_segment = take k (contents [''p'' \<mapsto> [1, 2, 3]] sample_segment)) \<and>
    SegmentStore_Recover io_ok fs' sample_segment = (fs', Inr n) \<and>
    (\<forall>off. SegmentStore_Read io_ok fs' sample_segment off = Inl ErrOffsetNotFound \<or>
       (\<exists>r. SegmentStore_Read io_ok fs' sample_segment off = Inr r \<and> rec_Offset r = off))"
  by (rule recover_idempotent_and_readable) (simp add: sample_segment_def)

text \<open>
  C28: Recovery cannot tell a failing device from a torn tail. When reading fails inside a record
  with an error of the operating system, recovery reports success and cuts the file there, so that
  this record and all records after it are gone from the segment.
\<close>

theorem recover_read_error_drops_records:
  assumes "seg_open s" and "\<forall>r' \<in> set (rs @ r # rs'). storable (rec_Message r')"
    and "contents fs s = log_bytes (rs @ r # rs')" and "k < length (record_bytes r)"
  shows "SegmentStore_Recover (io_ok\<lparr>io_read := Some (length (log_bytes rs) + k, e)\<rparr>) fs s =
    (fs(seg_path s \<mapsto> log_bytes rs), Inr (foldl bump 0 rs))"
proof -
  let ?io = "io_ok\<lparr>io_read := Some (length (log_bytes rs) + k, e)\<rparr>"
  have "file_reader ?io fs s = (log_bytes rs @ take k (record_bytes r), e)"
    using assms by (simp add: file_reader_def)
  then have "recover_loop (file_reader ?io fs s) 0 0 = (foldl bump 0 rs, length (log_bytes rs))"
    using assms by (simp add: store_simps)
  from SegmentStore_Recover_ok [OF assms(1) _ _ _ this] show ?thesis
    by (simp add: assms(3))
qed

theorem recover_read_error_drops_records_witness:
  "SegmentStore_Recover (io_ok\<lparr>io_read := Some (length (log_bytes []) + 3, OSError ''input/output error'')\<rparr>)
     [''p'' \<mapsto> log_bytes ([] @ sample_record # [])] sample_segment =
   ([''p'' \<mapsto> log_bytes ([] @ sample_record # [])](seg_path sample_segment \<mapsto> log_bytes []), Inr (foldl bump 0 []))"
  by (rule recover_read_error_drops_records [where rs' = "[]" and r = sample_record])
    (simp_all add: sample_segment_def contents_def length_record_bytes)

text \<open>
  The encoding of a message read as if a header stood in front of it: the header's first four bytes
  are taken for the length of the message ID, which swallows the rest.
\<close>

lemma decode_header_as_message:
  assumes "storable m" and "n = length (message_bytes m)"
  shows "decodeMessage (take n (record_bytes \<lparr>rec_Offset = off, rec_Message = m\<rparr>)) =
    Inl (Wrapf ''decode topic: '' EOF [])"
proof -
  let ?rest = "PutUint64 off @ take (n - 12) (message_bytes m)"
  from assms have n: "16 < n" "n < 2 ^ 32"
    by (auto simp: storable_def length_message_bytes)
  have cut: "take n (record_bytes \<lparr>rec_Offset = off, rec_Message = m\<rparr>) = PutUint32 (of_nat n) @ ?rest"
    using n by (simp add: record_bytes_def assms(2))
  have "length ?rest < n" using n by (simp add: assms(2))
  with n have "readBytes (PutUint32 (of_nat n) @ ?rest) = Inr (?rest @ replicate (n - length ?rest) 0, [])"
    by (intro readBytes_short) (auto simp: PutUint64_def)
  then have "readString (PutUint32 (of_nat n) @ ?rest) =
      Inr (string_of_bytes (?rest @ replicate (n - length ?rest) 0), [])"
    by (simp add: readString_def)
  moreover have "readString [] = Inl EOF"
    by (simp add: readString_def readBytes_def)
  ultimately show ?thesis
    unfolding cut by (simp add: decodeMessage_def)
qed

text \<open>
  C24: A failed append poisons the log. When the header of a record reaches the file and its payload
  does not (a full disk), the append fails; the store does not remove the stray header, and the
  same record written again with the same offset, this time without an error, cannot be read: the
  scan takes the stray header for its own and fails in the decoder. Recovery then cuts the
  acknowledged record off.
\<close>

theorem failed_append_poisons_retry:
  assumes "seg_open s" and "contents fs s = log_bytes rs" and "storable (rec_Message r)"
    and "\<forall>r' \<in> set rs. storable (rec_Message r') \<and> rec_Offset r' \<noteq> rec_Offset r"
    and "SegmentStore_Append (io_ok\<lparr>io_write_payload := Some (0, e)\<rparr>) fs s r = (fs1, err1)"
    and "SegmentStore_Append io_ok fs1 s r = (fs2, err2)"
  shows "err1 = Some (Wrapf ''write record payload: '' e []) \<and> err2 = None \<and>
    SegmentStore_Read io_ok fs2 s (rec_Offset r) =
      Inl (Wrapf ''decode record: '' (Wrapf ''decode topic: '' EOF []) []) \<and>
    contents (fst (SegmentStore_Recover io_ok fs2 s)) s = log_bytes rs"
proof -
  let ?m = "message_bytes (rec_Message r)"
  let ?h = "PutUint32 (of_nat (length ?m)) @ PutUint64 (rec_Offset r)"
  have enc: "encodable (rec_Message r)" using assms(3) by simp
  have fs1: "fs1 = fs(seg_path s \<mapsto> log_bytes rs @ ?h)"
    and err1: "err1 = Some (Wrapf ''write record payload: '' e [])"
    using assms(1,2,5) enc by (auto simp: SegmentStore_Append_def codec_simps file_write_def Let_def)
  have c2: "contents fs2 s = log_bytes rs @ PutUint32 (of_nat (length ?m)) @ PutUint64 (rec_Offset r) @ record_bytes r" and err2: "err2 = None"
    using assms(1,6) enc by (auto simp: store_simps fs1)
  let ?t = "PutUint32 (of_nat (length ?m)) @ PutUint64 (rec_Offset r) @ record_bytes r"
  have hd: "payload_size ?t = length ?m" "record_offset ?t = rec_Offset r"
    "payload_at ?t = take (length ?m) (record_bytes r)" "complete ?t"
    using assms(3) by (simp_all add: payload_size_def record_offset_def payload_at_def complete_def
        storable_def codec_simps unat_of_nat_small length_record_bytes)
  have dec: "decodeMessage (take (length ?m) (record_bytes r)) = Inl (Wrapf ''decode topic: '' EOF [])"
    using decode_header_as_message [OF assms(3) refl, of "rec_Offset r"] by (cases r) simp
  have "find (\<lambda>r'. rec_Offset r' = rec_Offset r) rs = None"
    using assms(4) by (simp add: find_None_iff)
  then have "SegmentStore_Read io_ok fs2 s (rec_Offset r) = read_loop (?t, EOF) (rec_Offset r)"
    using assms(1,4) by (simp add: SegmentStore_Read_def file_op_def file_reader_def c2 store_simps)
  also have "\<dots> = Inl (Wrapf ''decode record: '' (Wrapf ''decode topic: '' EOF []) [])"
    by (subst read_loop_step) (simp_all add: hd dec)
  finally have read: "SegmentStore_Read io_ok fs2 s (rec_Offset r) = \<dots>" .
  have "recover_loop (?t, EOF) n v = (n, v)" for n v
    by (rule recover_loop_stop) (simp add: valid_head_def hd dec)
  then have "recover_loop (file_reader io_ok fs2 s) 0 0 = (foldl bump 0 rs, length (log_bytes rs))"
    using assms(4) by (simp add: file_reader_def c2 store_simps)
  from SegmentStore_Recover_ok [OF assms(1) _ _ _ this] c2 err1 err2 read show ?thesis by simp
qed

theorem failed_append_poisons_retry_witness:
  "\<exists>fs1 err1 fs2 err2.
    SegmentStore_Append (io_ok\<lparr>io_write_payload := Some (0, OSError ''no space left on device'')\<rparr>)
      Map.empty sample_segment sample_record = (fs1, err1) \<and>
    SegmentStore_Append io_ok fs1 sample_segment sample_record = (fs2, err2) \<and>
    err1 = Some (Wrapf ''write record payload: '' (OSError ''no space left on device'') []) \<and> err2 = None \<and>
    SegmentStore_Read io_ok fs2 sample_segment (rec_Offset sample_record) =
      Inl (Wrapf ''decode record: '' (Wrapf ''decode topic: '' EOF []) []) \<and>
    contents (fst (SegmentStore_Recover io_ok fs2 sample_segment)) sample_segment = log_bytes []"
proof -
  let ?e = "OSError ''no space left on device''"
  obtain fs1 err1 where a: "SegmentStore_Append (io_ok\<lparr>io_write_payload := Some (0, ?e)\<rparr>)
      Map.empty sample_segment sample_record = (fs1, err1)" by fastforce
  obtain fs2 err2 where b: "SegmentStore_Append io_ok fs1 sample_segment sample_record = (fs2, err2)"
    by fastforce
  have o: "seg_open sample_segment" by (simp add: sample_segment_def)
  have c: "contents Map.empty sample_segment = log_bytes []" by (simp add: contents_def)
  from failed_append_poisons_retry [OF o c sample_record_storable(1) _ a b] a b show ?thesis by simp
qed

end
