(* ===== verification/Partition_Store.thy ===== *)
theory Partition_Store
  imports Segment_Store
begin

text \<open>
  The partition store of \<^verbatim>\<open>partition_store.go\<close>: for every open partition a list of segments and
  the next offset. Each operation takes the context's error (\<open>ctx\<close>, \<open>None\<close> for a live context), the faults
  of the file system (\<open>io\<close>), the file system and the store. Every operation of the source holds
  the store's lock from its first to its last line, so it is one step here.

  The specification of a partition is the list of its messages: \<open>partition_holds\<close> says that the
  segment file is exactly the log of these messages with offsets 0, 1, 2, \<dots> and that the next
  offset is their number. The interface the queue runtime relies on, a list of messages per
  partition with an append at the end and reads by offset, is the locale \<open>message_storage\<close>,
  interpreted at the end on the store's operations.
\<close>

section \<open>State\<close>

record partitionState =
  ps_currentSegmentID :: uint64
  ps_nextOffset :: Offset

record QueueConfig =
  qc_SegmentSizeBytes :: int
  qc_ReplicationFactor :: int
  qc_RequiredFollowerAcks :: int

record PartitionStore =
  st_dataDir :: string
  st_config :: QueueConfig
  st_segments :: "int \<rightharpoonup> SegmentStore list"
  st_states :: "int \<rightharpoonup> partitionState"

record partitionStoreStateSnapshot =
  snap_ID :: int
  snap_NextOffset :: Offset

section \<open>Operations\<close>

definition NewPartitionStore :: "string \<Rightarrow> QueueConfig \<Rightarrow> PartitionStore" where
  "NewPartitionStore dataDir config =
     \<lparr>st_dataDir = dataDir, st_config = config, st_segments = Map.empty, st_states = Map.empty\<rparr>"

definition segmentPath :: "PartitionStore \<Rightarrow> int \<Rightarrow> uint64 \<Rightarrow> string" where
  "segmentPath st pid seg =
     filepath_Join (st_dataDir st)
       (''partition-'' @ itoa06 pid @ ''-'' @ itoa06 (uint seg) @ ''.log'')"

definition OpenPartition ::
  "io \<Rightarrow> filesystem \<Rightarrow> PartitionStore \<Rightarrow> int \<Rightarrow> filesystem \<times> PartitionStore \<times> go_error option" where
  "OpenPartition io fs st pid =
     (if st_states st pid \<noteq> None then (fs, st, None)
      else case io_mkdir io of
        Some e \<Rightarrow> (fs, st, Some (Wrapf ''create data directory: '' e []))
      | None \<Rightarrow>
          (case OpenSegmentStore io fs (segmentPath st pid 0) of
             (fs1, Inl e) \<Rightarrow> (fs1, st, Some (Wrapf ''open partition segment: '' e []))
           | (fs1, Inr segment) \<Rightarrow>
               (case SegmentStore_Recover io fs1 segment of
                  (fs2, Inl e) \<Rightarrow> (fs2, st, Some (Wrapf ''recover partition segment: '' e []))
                | (fs2, Inr nextOffset) \<Rightarrow>
                    (fs2,
                     st\<lparr>st_segments := (st_segments st)(pid \<mapsto> [segment]),
                        st_states := (st_states st)
                          (pid \<mapsto> \<lparr>ps_currentSegmentID = 0, ps_nextOffset = nextOffset\<rparr>)\<rparr>,
                     None))))"

definition not_open :: "int \<Rightarrow> go_error" where
  "not_open pid = Errorf (''partition '' @ itoa pid @ '' is not open'')"

text \<open>\<^verbatim>\<open>s.segments[partitionID][state.currentSegmentID]\<close>, a panic when the index is out of range.\<close>

definition current_segment :: "PartitionStore \<Rightarrow> int \<Rightarrow> partitionState \<Rightarrow> go_error + SegmentStore" where
  "current_segment st pid state =
     (let segs = (case st_segments st pid of None \<Rightarrow> [] | Some l \<Rightarrow> l);
          i = unat (ps_currentSegmentID state)
      in if i < length segs then Inr (segs ! i) else Inl (GoPanic ''index out of range''))"

definition advance :: "PartitionStore \<Rightarrow> int \<Rightarrow> partitionState \<Rightarrow> PartitionStore" where
  "advance st pid state =
     st\<lparr>st_states := (st_states st)(pid \<mapsto> state\<lparr>ps_nextOffset := ps_nextOffset state + 1\<rparr>)\<rparr>"

definition PartitionStore_Append ::
  "go_error option \<Rightarrow> io \<Rightarrow> filesystem \<Rightarrow> PartitionStore \<Rightarrow> int \<Rightarrow> Message \<Rightarrow>
     filesystem \<times> PartitionStore \<times> (go_error + Offset)" where
  "PartitionStore_Append ctx io fs st pid m =
     (case ctx of
        Some e \<Rightarrow> (fs, st, Inl e)
      | None \<Rightarrow>
     (case st_states st pid of
        None \<Rightarrow> (fs, st, Inl (not_open pid))
      | Some state \<Rightarrow>
     (case current_segment st pid state of
        Inl e \<Rightarrow> (fs, st, Inl e)
      | Inr segment \<Rightarrow>
          (let offset = ps_nextOffset state in
           case SegmentStore_Append io fs segment \<lparr>rec_Offset = offset, rec_Message = m\<rparr> of
             (fs1, Some e) \<Rightarrow> (fs1, st, Inl (Wrapf (''append partition '' @ itoa pid @ '': '') e []))
           | (fs1, None) \<Rightarrow>
               (case SegmentStore_Flush io segment of
                  Some e \<Rightarrow> (fs1, st, Inl (Wrapf (''flush partition '' @ itoa pid @ '': '') e []))
                | None \<Rightarrow> (fs1, advance st pid state, Inr offset))))))"

fun read_segments :: "io \<Rightarrow> filesystem \<Rightarrow> int \<Rightarrow> Offset \<Rightarrow> SegmentStore list \<Rightarrow> go_error + Message" where
  "read_segments io fs pid offset [] =
     Inl (Wrapf (''partition '' @ itoa pid @ '' offset '' @ itoa (uint offset) @ '': '') ErrOffsetNotFound [])"
| "read_segments io fs pid offset (segment # segs) =
     (case SegmentStore_Read io fs segment offset of
        Inr r \<Rightarrow> Inr (rec_Message r)
      | Inl e \<Rightarrow>
          if e = ErrOffsetNotFound then read_segments io fs pid offset segs
          else Inl (Wrapf (''read partition '' @ itoa pid @ '' offset '' @ itoa (uint offset) @ '': '') e []))"

definition PartitionStore_Read ::
  "go_error option \<Rightarrow> io \<Rightarrow> filesystem \<Rightarrow> PartitionStore \<Rightarrow> int \<Rightarrow> Offset \<Rightarrow> go_error + Message" where
  "PartitionStore_Read ctx io fs st pid offset =
     (case ctx of
        Some e \<Rightarrow> Inl e
      | None \<Rightarrow>
     (case st_segments st pid of
        None \<Rightarrow> Inl (not_open pid)
      | Some segs \<Rightarrow> read_segments io fs pid offset segs))"

fun flush_segments :: "io \<Rightarrow> int \<Rightarrow> SegmentStore list \<Rightarrow> go_error option" where
  "flush_segments io pid [] = None"
| "flush_segments io pid (segment # segs) =
     (case SegmentStore_Flush io segment of
        Some e \<Rightarrow> Some (Wrapf (''flush partition '' @ itoa pid @ '': '') e [])
      | None \<Rightarrow> flush_segments io pid segs)"

definition PartitionStore_Flush ::
  "go_error option \<Rightarrow> io \<Rightarrow> PartitionStore \<Rightarrow> int \<Rightarrow> go_error option" where
  "PartitionStore_Flush ctx io st pid =
     (case ctx of
        Some e \<Rightarrow> Some e
      | None \<Rightarrow>
     (case st_segments st pid of
        None \<Rightarrow> Some (not_open pid)
      | Some segs \<Rightarrow> flush_segments io pid segs))"

text \<open>
  \<^verbatim>\<open>Close\<close> and \<^verbatim>\<open>Snapshot\<close> range over a Go map, whose order is not specified: \<open>ids\<close> is the
  order of one run, an enumeration of the open partitions.
\<close>

definition close_errors :: "io \<Rightarrow> PartitionStore \<Rightarrow> int list \<Rightarrow> go_error list" where
  "close_errors io st ids =
     concat (map (\<lambda>pid. case st_segments st pid of
          None \<Rightarrow> []
        | Some segs \<Rightarrow>
            concat (map (\<lambda>segment. case snd (SegmentStore_Close io segment) of
                None \<Rightarrow> [] | Some e \<Rightarrow> [Wrapf (''close partition '' @ itoa pid @ '': '') e []]) segs)) ids)"

definition PartitionStore_Close :: "io \<Rightarrow> PartitionStore \<Rightarrow> int list \<Rightarrow> PartitionStore \<times> go_error option" where
  "PartitionStore_Close io st ids =
     (st\<lparr>st_segments := Map.empty, st_states := Map.empty\<rparr>,
      (case close_errors io st ids of [] \<Rightarrow> None | e # _ \<Rightarrow> Some e))"

definition PartitionStore_Snapshot :: "PartitionStore \<Rightarrow> int list \<Rightarrow> partitionStoreStateSnapshot list" where
  "PartitionStore_Snapshot st ids =
     concat (map (\<lambda>pid. case st_states st pid of
          None \<Rightarrow> []
        | Some state \<Rightarrow> [\<lparr>snap_ID = pid, snap_NextOffset = ps_nextOffset state\<rparr>]) ids)"

definition PartitionStore_AppendRecord ::
  "go_error option \<Rightarrow> io \<Rightarrow> filesystem \<Rightarrow> PartitionStore \<Rightarrow> int \<Rightarrow> Record \<Rightarrow>
     filesystem \<times> PartitionStore \<times> go_error option" where
  "PartitionStore_AppendRecord ctx io fs st pid r =
     (case ctx of
        Some e \<Rightarrow> (fs, st, Some e)
      | None \<Rightarrow>
     (case st_states st pid of
        None \<Rightarrow> (fs, st, Some (not_open pid))
      | Some state \<Rightarrow>
          if rec_Offset r \<noteq> ps_nextOffset state then
            (fs, st, Some (Wrapf [] ErrUnexpectedOffset
               ('' for partition '' @ itoa pid @ '': expected '' @ itoa (uint (ps_nextOffset state)) @
                '', got '' @ itoa (uint (rec_Offset r)))))
          else
            (case current_segment st pid state of
               Inl e \<Rightarrow> (fs, st, Some e)
             | Inr segment \<Rightarrow>
                 (case SegmentStore_Append io fs segment r of
                    (fs1, Some e) \<Rightarrow>
                      (fs1, st, Some (Wrapf (''append record to partition '' @ itoa pid @ '': '') e []))
                  | (fs1, None) \<Rightarrow>
                      (case SegmentStore_Flush io segment of
                         Some e \<Rightarrow> (fs1, st, Some (Wrapf (''flush partition '' @ itoa pid @ '': '') e []))
                       | None \<Rightarrow> (fs1, advance st pid state, None))))))"

section \<open>The log of a partition\<close>

definition index_records :: "Message list \<Rightarrow> Record list" where
  "index_records ms = map (\<lambda>(i, m). \<lparr>rec_Offset = of_nat i, rec_Message = m\<rparr>) (enumerate 0 ms)"

definition partition_holds :: "filesystem \<Rightarrow> PartitionStore \<Rightarrow> int \<Rightarrow> Message list \<Rightarrow> bool" where
  "partition_holds fs st pid ms \<longleftrightarrow>
     (\<exists>segment. st_segments st pid = Some [segment] \<and> seg_open segment \<and>
        seg_path segment = segmentPath st pid 0 \<and>
        contents fs segment = log_bytes (index_records ms)) \<and>
     st_states st pid = Some \<lparr>ps_currentSegmentID = 0, ps_nextOffset = of_nat (length ms)\<rparr> \<and>
     (\<forall>m \<in> set ms. storable m) \<and> length ms < 2 ^ 64"

lemma index_records_snoc [simp]:
  "index_records (ms @ [m]) = index_records ms @ [\<lparr>rec_Offset = of_nat (length ms), rec_Message = m\<rparr>]"
  by (simp add: index_records_def enumerate_append_eq)

lemma index_records_Nil [simp]: "index_records [] = []"
  by (simp add: index_records_def)

lemma length_index_records [simp]: "length (index_records ms) = length ms"
  by (simp add: index_records_def)

lemma nth_index_records:
  "i < length ms \<Longrightarrow> index_records ms ! i = \<lparr>rec_Offset = of_nat i, rec_Message = ms ! i\<rparr>"
  by (simp add: index_records_def nth_enumerate_eq)

lemma index_records_messages: "map rec_Message (index_records ms) = ms"
  by (rule nth_equalityI) (simp_all add: nth_index_records)

lemma index_records_storable:
  "\<forall>m \<in> set ms. storable m \<Longrightarrow> \<forall>r \<in> set (index_records ms). storable (rec_Message r)"
  using index_records_messages [of ms] by (metis imageI set_map)

lemma find_index_records:
  assumes "length ms < 2 ^ 64"
  shows "find (\<lambda>r. rec_Offset r = off) (index_records ms) =
    (if unat off < length ms then Some \<lparr>rec_Offset = off, rec_Message = ms ! unat off\<rparr> else None)"
  using assms
proof (induction ms rule: rev_induct)
  case Nil
  then show ?case by simp
next
  case (snoc m ms)
  have "off = of_nat (length ms) \<longleftrightarrow> unat off = length ms"
    using snoc.prems by (simp add: word_unat_eq_iff unat_of_nat_small)
  with snoc show ?case
    by (auto simp: find_append nth_append split: option.splits)
qed

text \<open>Recovery of an indexed log returns the number of its records.\<close>

lemma foldl_bump_index_records:
  "length ms < 2 ^ 64 \<Longrightarrow> foldl bump 0 (index_records ms) = of_nat (length ms)"
  by (induction ms rule: rev_induct) (simp_all add: bump_def add.commute)

section \<open>Paths of different partitions\<close>

lemma itoa06_no_slash: "CHR ''/'' \<notin> set (itoa06 i)"
proof -
  have "\<not> is_digit (CHR ''/'')" by (simp add: is_digit_def)
  then have "CHR ''/'' \<notin> set (pad_left w (dec_nat n))" for w n
    using pad_left_digits [OF dec_nat_digits] by (auto simp: list_all_iff)
  then show ?thesis by (simp add: itoa06_def)
qed

lemma plain_segment_name:
  "plain_name (''partition-'' @ itoa06 pid @ ''-'' @ itoa06 (uint seg) @ ''.log'')"
  using itoa06_no_slash by (simp add: plain_name_def)

lemma segmentPath_inject [simp]:
  assumes "st_dataDir st = st_dataDir st'"
  shows "segmentPath st pid seg = segmentPath st' pid' seg \<longleftrightarrow> pid = pid'"
  unfolding segmentPath_def assms
  by (subst filepath_Join_inject [OF plain_segment_name plain_segment_name]) simp

section \<open>Behaviour on a partition in order\<close>

lemma partition_holdsE:
  assumes "partition_holds fs st pid ms"
  obtains segment where "st_segments st pid = Some [segment]" and "seg_open segment"
    and "seg_path segment = segmentPath st pid 0"
    and "contents fs segment = log_bytes (index_records ms)"
    and "st_states st pid = Some \<lparr>ps_currentSegmentID = 0, ps_nextOffset = of_nat (length ms)\<rparr>"
    and "\<forall>m \<in> set ms. storable m" and "length ms < 2 ^ 64"
  using assms by (auto simp: partition_holds_def)

lemma partition_holds_current_segment:
  assumes "st_segments st pid = Some [segment]"
  shows "current_segment st pid \<lparr>ps_currentSegmentID = 0, ps_nextOffset = n\<rparr> = Inr segment"
  using assms by (simp add: current_segment_def)

text \<open>A state change of one partition and a write to its file leave the other partitions alone.\<close>

lemma partition_holds_frame:
  assumes "partition_holds fs st pid' ms" and "pid' \<noteq> pid"
    and "st_segments st' pid' = st_segments st pid'" and "st_states st' pid' = st_states st pid'"
    and "st_dataDir st' = st_dataDir st" and "\<forall>p. p \<noteq> segmentPath st pid 0 \<longrightarrow> fs' p = fs p"
  shows "partition_holds fs' st' pid' ms"
proof -
  have "segmentPath st pid' 0 \<noteq> segmentPath st pid 0"
    using assms(2) by simp
  moreover have "segmentPath st' pid' 0 = segmentPath st pid' 0"
    using assms(5) by (simp add: segmentPath_def)
  ultimately show ?thesis
    using assms(1,3,4,6) by (auto simp: partition_holds_def contents_def)
qed

lemma advance_simps [simp]:
  "st_segments (advance st pid state) = st_segments st"
  "st_dataDir (advance st pid state) = st_dataDir st"
  "st_states (advance st pid state) =
     (st_states st)(pid \<mapsto> state\<lparr>ps_nextOffset := ps_nextOffset state + 1\<rparr>)"
  "segmentPath (advance st pid state) = segmentPath st"
  by (simp_all add: advance_def segmentPath_def fun_eq_iff)

text \<open>No append opens or closes a partition.\<close>

lemma PartitionStore_Append_dom:
  "PartitionStore_Append ctx io fs st pid m = (fs', st', r) \<Longrightarrow> dom (st_states st') = dom (st_states st) \<and> st_dataDir st' = st_dataDir st"
  by (auto simp: PartitionStore_Append_def Let_def split: option.splits sum.splits prod.splits if_splits)

lemma PartitionStore_AppendRecord_dom:
  "PartitionStore_AppendRecord ctx io fs st pid r = (fs', st', e) \<Longrightarrow> dom (st_states st') = dom (st_states st) \<and> st_dataDir st' = st_dataDir st"
  by (auto simp: PartitionStore_AppendRecord_def split: option.splits sum.splits prod.splits if_splits)

text \<open>Writing the next record of a partition extends its log by one message.\<close>

lemma partition_holds_extend:
  assumes "partition_holds fs st pid ms" and "st_segments st pid = Some [segment]"
    and "st_states st pid = Some state" and "storable m" and "length ms + 1 < 2 ^ 64"
    and "fs' = fs(seg_path segment \<mapsto>
      contents fs segment @ record_bytes \<lparr>rec_Offset = of_nat (length ms), rec_Message = m\<rparr>)"
  shows "partition_holds fs' (advance st pid state) pid (ms @ [m])"
  using assms by (auto simp: partition_holds_def add.commute contents_def)

lemma PartitionStore_Append_holds:
  assumes "partition_holds fs st pid ms" and "storable m" and "length ms + 1 < 2 ^ 64"
    and "io_write_header io = None" and "io_write_payload io = None" and "io_sync io = None"
  shows "\<exists>fs' st'. PartitionStore_Append None io fs st pid m = (fs', st', Inr (of_nat (length ms))) \<and>
    partition_holds fs' st' pid (ms @ [m]) \<and> st_dataDir st' = st_dataDir st \<and>
    (\<forall>pid' ms'. pid' \<noteq> pid \<longrightarrow> partition_holds fs st pid' ms' \<longrightarrow> partition_holds fs' st' pid' ms')"
proof -
  obtain segment where seg: "st_segments st pid = Some [segment]" "seg_open segment"
      "seg_path segment = segmentPath st pid 0"
    and state: "st_states st pid = Some \<lparr>ps_currentSegmentID = 0, ps_nextOffset = of_nat (length ms)\<rparr>"
    using assms(1) by (rule partition_holdsE)
  let ?state = "\<lparr>ps_currentSegmentID = 0, ps_nextOffset = of_nat (length ms)\<rparr>"
  let ?fs = "fs(seg_path segment \<mapsto>
      contents fs segment @ record_bytes \<lparr>rec_Offset = of_nat (length ms), rec_Message = m\<rparr>)"
  let ?st = "advance st pid ?state"
  have "PartitionStore_Append None io fs st pid m = (?fs, ?st, Inr (of_nat (length ms)))"
    using seg state assms(2,4-6)
    by (simp add: PartitionStore_Append_def partition_holds_current_segment store_simps Let_def)
  moreover have "partition_holds ?fs ?st pid (ms @ [m])"
    by (rule partition_holds_extend [OF assms(1) seg(1) state assms(2,3) refl])
  moreover have "partition_holds ?fs ?st pid' ms'" if "pid' \<noteq> pid" "partition_holds fs st pid' ms'" for pid' ms'
    using that by (intro partition_holds_frame [OF that(2,1)]) (simp_all add: seg)
  ultimately show ?thesis by (intro exI [of _ ?fs] exI [of _ ?st]) simp
qed

lemma PartitionStore_Read_holds [store_simps]:
  assumes "partition_holds fs st pid ms" and "io_seek io = None" and "io_read io = None"
  shows "PartitionStore_Read None io fs st pid off =
    (if unat off < length ms then Inr (ms ! unat off)
     else Inl (Wrapf (''partition '' @ itoa pid @ '' offset '' @ itoa (uint off) @ '': '') ErrOffsetNotFound []))"
proof -
  obtain segment where seg: "st_segments st pid = Some [segment]" "seg_open segment"
      "contents fs segment = log_bytes (index_records ms)" "\<forall>m \<in> set ms. storable m" "length ms < 2 ^ 64"
    using assms(1) by (rule partition_holdsE)
  have "SegmentStore_Read io fs segment off =
    (if unat off < length ms then Inr \<lparr>rec_Offset = off, rec_Message = ms ! unat off\<rparr> else Inl ErrOffsetNotFound)"
    using seg assms(2,3) index_records_storable [of ms]
    by (simp add: SegmentStore_Read_log [where rs = "index_records ms"] find_index_records)
  with seg(1) show ?thesis by (simp add: PartitionStore_Read_def)
qed

lemma PartitionStore_AppendRecord_holds:
  assumes "partition_holds fs st pid ms" and "storable (rec_Message r)" and "length ms + 1 < 2 ^ 64"
    and "io_write_header io = None" and "io_write_payload io = None" and "io_sync io = None"
    and "rec_Offset r = of_nat (length ms)"
  shows "\<exists>fs' st'. PartitionStore_AppendRecord None io fs st pid r = (fs', st', None) \<and>
    partition_holds fs' st' pid (ms @ [rec_Message r]) \<and> st_dataDir st' = st_dataDir st \<and>
    (\<forall>pid' ms'. pid' \<noteq> pid \<longrightarrow> partition_holds fs st pid' ms' \<longrightarrow> partition_holds fs' st' pid' ms')"
proof -
  obtain segment where seg: "st_segments st pid = Some [segment]" "seg_open segment"
      "seg_path segment = segmentPath st pid 0"
    and state: "st_states st pid = Some \<lparr>ps_currentSegmentID = 0, ps_nextOffset = of_nat (length ms)\<rparr>"
    using assms(1) by (rule partition_holdsE)
  let ?state = "\<lparr>ps_currentSegmentID = 0, ps_nextOffset = of_nat (length ms)\<rparr>"
  let ?fs = "fs(seg_path segment \<mapsto> contents fs segment @ record_bytes r)"
  let ?st = "advance st pid ?state"
  have r: "r = \<lparr>rec_Offset = of_nat (length ms), rec_Message = rec_Message r\<rparr>"
    using assms(7) by (cases r) simp
  have "PartitionStore_AppendRecord None io fs st pid r = (?fs, ?st, None)"
    using seg state assms(2,4-7)
    by (simp add: PartitionStore_AppendRecord_def partition_holds_current_segment store_simps)
  moreover have "partition_holds ?fs ?st pid (ms @ [rec_Message r])"
    by (rule partition_holds_extend [OF assms(1) seg(1) state assms(2,3)]) (simp flip: r)
  moreover have "partition_holds ?fs ?st pid' ms'" if "pid' \<noteq> pid" "partition_holds fs st pid' ms'" for pid' ms'
    using that by (intro partition_holds_frame [OF that(2,1)]) (simp_all add: seg)
  ultimately show ?thesis by (intro exI [of _ ?fs] exI [of _ ?st]) simp
qed

lemma PartitionStore_AppendRecord_reject [store_simps]:
  assumes "st_states st pid = Some state" and "rec_Offset r \<noteq> ps_nextOffset state"
  shows "PartitionStore_AppendRecord None io fs st pid r =
    (fs, st, Some (Wrapf [] ErrUnexpectedOffset
       ('' for partition '' @ itoa pid @ '': expected '' @ itoa (uint (ps_nextOffset state)) @
        '', got '' @ itoa (uint (rec_Offset r)))))"
  using assms by (simp add: PartitionStore_AppendRecord_def)

text \<open>Opening a partition whose file is a log, possibly with a torn record at its end.\<close>

lemma OpenPartition_holds:
  assumes "st_states st pid = None" and "\<forall>m \<in> set ms. storable m" and "length ms < 2 ^ 64"
    and "fs (segmentPath st pid 0) = None \<and> ms = [] \<or> fs (segmentPath st pid 0) = Some (log_bytes (index_records ms) @ tail)"
    and "tail = [] \<or> (\<exists>r k. storable (rec_Message r) \<and> k < length (record_bytes r) \<and> tail = take k (record_bytes r))"
  shows "\<exists>fs' st'. OpenPartition io_ok fs st pid = (fs', st', None) \<and> partition_holds fs' st' pid ms \<and>
    st_dataDir st' = st_dataDir st \<and> (\<forall>q. q \<noteq> pid \<longrightarrow> st_states st' q = st_states st q) \<and>
    (\<forall>path. path \<noteq> segmentPath st pid 0 \<longrightarrow> fs' path = fs path) \<and>
    (\<forall>pid' ms'. pid' \<noteq> pid \<longrightarrow> partition_holds fs st pid' ms' \<longrightarrow> partition_holds fs' st' pid' ms')"
proof -
  let ?path = "segmentPath st pid 0"
  let ?seg = "\<lparr>seg_path = ?path, seg_open = True\<rparr>"
  let ?fs1 = "case fs ?path of None \<Rightarrow> fs(?path \<mapsto> []) | Some _ \<Rightarrow> fs"
  let ?fs = "?fs1(?path \<mapsto> log_bytes (index_records ms))"
  let ?st = "st\<lparr>st_segments := (st_segments st)(pid \<mapsto> [?seg]),
    st_states := (st_states st)(pid \<mapsto> \<lparr>ps_currentSegmentID = 0, ps_nextOffset = of_nat (length ms)\<rparr>)\<rparr>"
  note storable = index_records_storable [OF assms(2)]
  have c: "contents ?fs1 ?seg = log_bytes (index_records ms) @ (if fs ?path = None then [] else tail)"
    using assms(4) by (auto simp: contents_def)
  have "SegmentStore_Recover io_ok ?fs1 ?seg = (?fs, Inr (of_nat (length ms)))"
  proof (cases "fs ?path = None \<or> tail = []")
    case True
    with c have "contents ?fs1 ?seg = log_bytes (index_records ms)" by auto
    from SegmentStore_Recover_log [OF _ storable this] foldl_bump_index_records [OF assms(3)]
    show ?thesis by simp
  next
    case False
    with assms(5) obtain r k where "storable (rec_Message r)" "k < length (record_bytes r)"
      "tail = take k (record_bytes r)" by blast
    with c False SegmentStore_Recover_torn [of ?seg "index_records ms" r ?fs1 k] storable
      foldl_bump_index_records [OF assms(3)]
    show ?thesis by simp
  qed
  then have "OpenPartition io_ok fs st pid = (?fs, ?st, None)"
    using assms(1) by (simp add: OpenPartition_def OpenSegmentStore_def)
  moreover have "partition_holds ?fs ?st pid ms"
    using assms(2,3) by (simp add: partition_holds_def segmentPath_def contents_def)
  moreover have "partition_holds ?fs ?st pid' ms'" if "pid' \<noteq> pid" "partition_holds fs st pid' ms'" for pid' ms'
    using that by (intro partition_holds_frame [OF that(2,1)]) (auto split: option.splits)
  ultimately show ?thesis by (intro exI [of _ ?fs] exI [of _ ?st]) (simp split: option.splits)
qed

text \<open>
  What a node may find in the file of a partition: nothing, or the log of some messages with the beginning of one more
  record that a crash cut off.
\<close>

definition on_disk :: "filesystem \<Rightarrow> string \<Rightarrow> Message list \<Rightarrow> bool" where
  "on_disk fs path ms \<longleftrightarrow> (\<forall>m \<in> set ms. storable m) \<and> length ms < 2 ^ 64 \<and>
     (fs path = None \<and> ms = [] \<or>
      (\<exists>tail. fs path = Some (log_bytes (index_records ms) @ tail) \<and>
         (tail = [] \<or> (\<exists>r k. storable (rec_Message r) \<and> k < length (record_bytes r) \<and> tail = take k (record_bytes r)))))"

lemma on_disk_cong: "fs' path = fs path \<Longrightarrow> on_disk fs' path ms = on_disk fs path ms"
  unfolding on_disk_def by (rule arg_cong [where f = "\<lambda>file. _ \<and> _ \<and> (file = None \<and> _ \<or> (\<exists>tail. file = Some (_ tail) \<and> _ tail))"])

lemma log_bytes_Nil: "log_bytes (index_records ms) = [] \<longleftrightarrow> ms = []"
proof (cases ms)
  case (Cons m ms')
  have "record_bytes r \<noteq> []" for r using length_record_bytes [of r] by auto
  then have "log_bytes (index_records (m # ms')) \<noteq> []" by (simp add: log_bytes_def index_records_def)
  with Cons show ?thesis by simp
qed (simp add: log_bytes_def)

lemma OpenPartition_on_disk:
  assumes "st_states st pid = None" and "on_disk fs (segmentPath st pid 0) ms"
  obtains fs' st' where "OpenPartition io_ok fs st pid = (fs', st', None)"
      "partition_holds fs' st' pid ms" "st_dataDir st' = st_dataDir st" "\<forall>q. q \<noteq> pid \<longrightarrow> st_states st' q = st_states st q"
      "\<forall>path. path \<noteq> segmentPath st pid 0 \<longrightarrow> fs' path = fs path"
      "\<forall>q ms. q \<noteq> pid \<longrightarrow> partition_holds fs st q ms \<longrightarrow> partition_holds fs' st' q ms"
proof -
  obtain tail where tail: "fs (segmentPath st pid 0) = None \<and> ms = [] \<or> fs (segmentPath st pid 0) = Some (log_bytes (index_records ms) @ tail)"
      "tail = [] \<or> (\<exists>r k. storable (rec_Message r) \<and> k < length (record_bytes r) \<and> tail = take k (record_bytes r))"
    using assms(2) by (auto simp: on_disk_def)
  have ok: "\<forall>m \<in> set ms. storable m" "length ms < 2 ^ 64" using assms(2) by (auto simp: on_disk_def)
  from OpenPartition_holds [where fs = fs and tail = tail, OF assms(1) ok tail]
  obtain fs' where "\<exists>st'. OpenPartition io_ok fs st pid = (fs', st', None) \<and> partition_holds fs' st' pid ms \<and>
    st_dataDir st' = st_dataDir st \<and> (\<forall>q. q \<noteq> pid \<longrightarrow> st_states st' q = st_states st q) \<and>
    (\<forall>path. path \<noteq> segmentPath st pid 0 \<longrightarrow> fs' path = fs path) \<and>
    (\<forall>pid' ms'. pid' \<noteq> pid \<longrightarrow> partition_holds fs st pid' ms' \<longrightarrow> partition_holds fs' st' pid' ms')" ..
  then obtain st' where "OpenPartition io_ok fs st pid = (fs', st', None) \<and> partition_holds fs' st' pid ms \<and>
    st_dataDir st' = st_dataDir st \<and> (\<forall>q. q \<noteq> pid \<longrightarrow> st_states st' q = st_states st q) \<and>
    (\<forall>path. path \<noteq> segmentPath st pid 0 \<longrightarrow> fs' path = fs path) \<and>
    (\<forall>pid' ms'. pid' \<noteq> pid \<longrightarrow> partition_holds fs st pid' ms' \<longrightarrow> partition_holds fs' st' pid' ms')" ..
  then show thesis by (intro that [of fs' st']) simp_all
qed

text \<open>
  A file that a store has written holds its records and nothing else, until the process dies in the middle of an append: \<open>torn\<close> relates a file
  system to what a crash may leave of it.
\<close>

definition intact :: "filesystem \<Rightarrow> string \<Rightarrow> Message list \<Rightarrow> bool" where
  "intact fs path ms \<longleftrightarrow> (\<forall>m \<in> set ms. storable m) \<and> length ms < 2 ^ 64 \<and>
     (fs path = None \<and> ms = [] \<or> fs path = Some (log_bytes (index_records ms)))"

definition torn :: "filesystem \<Rightarrow> filesystem \<Rightarrow> bool" where
  "torn fs fs' \<longleftrightarrow> (\<forall>path. fs' path = fs path \<or>
     (\<exists>bytes r k. fs path = Some bytes \<and> storable (rec_Message r) \<and> k < length (record_bytes r) \<and> fs' path = Some (bytes @ take k (record_bytes r))))"

lemma torn_on_disk:
  assumes "intact fs path ms" and "torn fs fs'"
  shows "on_disk fs' path ms"
proof -
  from assms(2) consider "fs' path = fs path"
    | bytes r k where "fs path = Some bytes" "storable (rec_Message r)" "k < length (record_bytes r)" "fs' path = Some (bytes @ take k (record_bytes r))"
    unfolding torn_def by blast
  then show ?thesis
    using assms(1) by cases (auto simp: intact_def on_disk_def)
qed

lemma partition_holds_intact:
  assumes "partition_holds fs st pid ms"
  shows "intact fs (segmentPath st pid 0) ms"
  using assms log_bytes_Nil [of ms]
  by (cases "fs (segmentPath st pid 0)") (auto simp: partition_holds_def intact_def contents_def)

section \<open>The storage interface\<close>

text \<open>
  What the runtime and the replication handler rely on (\<^verbatim>\<open>storage.go\<close>): a partition is a list of
  messages, an append extends it at the end and returns the old length as the offset, a record is
  accepted exactly at that offset, a read returns the message at its offset or an error that is
  \<open>ErrOffsetNotFound\<close>, and no operation touches another partition.
\<close>

locale message_storage =
  fixes append :: "'s \<Rightarrow> int \<Rightarrow> Message \<Rightarrow> 's \<times> (go_error + Offset)"
    and append_record :: "'s \<Rightarrow> int \<Rightarrow> Record \<Rightarrow> 's \<times> go_error option"
    and read :: "'s \<Rightarrow> int \<Rightarrow> Offset \<Rightarrow> go_error + Message"
    and holds :: "'s \<Rightarrow> int \<Rightarrow> Message list \<Rightarrow> bool"
  assumes append_law: "holds s p ms \<Longrightarrow> storable m \<Longrightarrow> length ms + 1 < 2 ^ 64 \<Longrightarrow>
      \<exists>s'. append s p m = (s', Inr (of_nat (length ms))) \<and> holds s' p (ms @ [m]) \<and>
        (\<forall>q ms'. q \<noteq> p \<longrightarrow> holds s q ms' \<longrightarrow> holds s' q ms')"
    and accept_law: "holds s p ms \<Longrightarrow> storable (rec_Message r) \<Longrightarrow> length ms + 1 < 2 ^ 64 \<Longrightarrow>
      rec_Offset r = of_nat (length ms) \<Longrightarrow>
      \<exists>s'. append_record s p r = (s', None) \<and> holds s' p (ms @ [rec_Message r]) \<and>
        (\<forall>q ms'. q \<noteq> p \<longrightarrow> holds s q ms' \<longrightarrow> holds s' q ms')"
    and reject_law: "holds s p ms \<Longrightarrow> rec_Offset r \<noteq> of_nat (length ms) \<Longrightarrow>
      \<exists>e. append_record s p r = (s, Some e) \<and> errors_Is e ErrUnexpectedOffset"
    and read_law: "holds s p ms \<Longrightarrow> unat off < length ms \<Longrightarrow> read s p off = Inr (ms ! unat off)"
    and read_end_law: "holds s p ms \<Longrightarrow> length ms \<le> unat off \<Longrightarrow>
      \<exists>e. read s p off = Inl e \<and> errors_Is e ErrOffsetNotFound"
    and bound_law: "holds s p ms \<Longrightarrow> length ms < 2 ^ 64"
begin

lemma appends_hold:
  assumes "holds s p ms0" and "\<forall>m \<in> set ms. storable m" and "length ms0 + length ms < 2 ^ 64"
  shows "holds (foldl (\<lambda>s m. fst (append s p m)) s ms) p (ms0 @ ms) \<and>
    (\<forall>q ms'. q \<noteq> p \<longrightarrow> holds s q ms' \<longrightarrow> holds (foldl (\<lambda>s m. fst (append s p m)) s ms) q ms')"
  using assms
proof (induction ms arbitrary: s ms0)
  case Nil
  then show ?case by simp
next
  case (Cons m ms)
  then obtain s' where s': "append s p m = (s', Inr (of_nat (length ms0)))" "holds s' p (ms0 @ [m])"
    "\<forall>q ms'. q \<noteq> p \<longrightarrow> holds s q ms' \<longrightarrow> holds s' q ms'"
    using append_law [of s p ms0 m] by auto
  with Cons.IH [of s' "ms0 @ [m]"] Cons.prems show ?case by simp
qed

lemma read_after_appends:
  assumes "holds s p ms0" and "\<forall>m \<in> set ms. storable m" and "length ms0 + length ms < 2 ^ 64"
    and "i < length ms0 + length ms"
  shows "read (foldl (\<lambda>s m. fst (append s p m)) s ms) p (of_nat i) = Inr ((ms0 @ ms) ! i)"
proof -
  have "unat (of_nat i :: Offset) = i"
    using assms(3,4) by (intro unat_of_nat_small) simp
  with read_law [OF conjunct1 [OF appends_hold [OF assms(1-3)]], of "of_nat i"] assms(4)
  show ?thesis by simp
qed

text \<open>A leader and a follower that agree on a partition agree after a replicated append.\<close>

lemma replicas_in_step:
  assumes "holds s p ms" and "holds t p ms" and "storable m" and "length ms + 1 < 2 ^ 64"
  shows "\<exists>s' t' off. append s p m = (s', Inr off) \<and>
    append_record t p \<lparr>rec_Offset = off, rec_Message = m\<rparr> = (t', None) \<and>
    holds s' p (ms @ [m]) \<and> holds t' p (ms @ [m])"
  using append_law [OF assms(1,3,4)]
    accept_law [OF assms(2), of "\<lparr>rec_Offset = of_nat (length ms), rec_Message = m\<rparr>"] assms(3,4)
  by auto

end

text \<open>The store on a working file system, with the file system and the store as one state.\<close>

type_synonym disk_store = "filesystem \<times> PartitionStore"

definition disk_append :: "disk_store \<Rightarrow> int \<Rightarrow> Message \<Rightarrow> disk_store \<times> (go_error + Offset)" where
  "disk_append s p m =
     (case PartitionStore_Append None io_ok (fst s) (snd s) p m of (fs, st, r) \<Rightarrow> ((fs, st), r))"

definition disk_append_record :: "disk_store \<Rightarrow> int \<Rightarrow> Record \<Rightarrow> disk_store \<times> go_error option" where
  "disk_append_record s p r =
     (case PartitionStore_AppendRecord None io_ok (fst s) (snd s) p r of (fs, st, e) \<Rightarrow> ((fs, st), e))"

definition disk_read :: "disk_store \<Rightarrow> int \<Rightarrow> Offset \<Rightarrow> go_error + Message" where
  "disk_read s p off = PartitionStore_Read None io_ok (fst s) (snd s) p off"

definition disk_holds :: "disk_store \<Rightarrow> int \<Rightarrow> Message list \<Rightarrow> bool" where
  "disk_holds s p ms = partition_holds (fst s) (snd s) p ms"

interpretation ps: message_storage disk_append disk_append_record disk_read disk_holds
proof
  fix s :: disk_store and p ms m
  assume "disk_holds s p ms" "storable m" "length ms + 1 < 2 ^ 64"
  from PartitionStore_Append_holds [OF this [unfolded disk_holds_def], of io_ok]
  show "\<exists>s'. disk_append s p m = (s', Inr (of_nat (length ms))) \<and> disk_holds s' p (ms @ [m]) \<and>
      (\<forall>q ms'. q \<noteq> p \<longrightarrow> disk_holds s q ms' \<longrightarrow> disk_holds s' q ms')"
    by (auto simp: disk_append_def disk_holds_def)
next
  fix s :: disk_store and p ms and r :: Record
  assume "disk_holds s p ms" "storable (rec_Message r)" "length ms + 1 < 2 ^ 64"
    and off: "rec_Offset r = of_nat (length ms)"
  from PartitionStore_AppendRecord_holds [OF this(1-3) [unfolded disk_holds_def], of io_ok] off
  show "\<exists>s'. disk_append_record s p r = (s', None) \<and> disk_holds s' p (ms @ [rec_Message r]) \<and>
      (\<forall>q ms'. q \<noteq> p \<longrightarrow> disk_holds s q ms' \<longrightarrow> disk_holds s' q ms')"
    by (auto simp: disk_append_record_def disk_holds_def)
next
  fix s :: disk_store and p ms and r :: Record
  assume "disk_holds s p ms" "rec_Offset r \<noteq> of_nat (length ms)"
  then show "\<exists>e. disk_append_record s p r = (s, Some e) \<and> errors_Is e ErrUnexpectedOffset"
    unfolding disk_holds_def
    by (auto simp: disk_append_record_def PartitionStore_AppendRecord_reject elim!: partition_holdsE)
next
  fix s :: disk_store and p ms and off :: Offset
  assume "disk_holds s p ms" "unat off < length ms"
  then show "disk_read s p off = Inr (ms ! unat off)"
    by (simp add: disk_read_def disk_holds_def store_simps)
next
  fix s :: disk_store and p ms and off :: Offset
  assume "disk_holds s p ms" "length ms \<le> unat off"
  then show "\<exists>e. disk_read s p off = Inl e \<and> errors_Is e ErrOffsetNotFound"
    by (simp add: disk_read_def disk_holds_def store_simps)
next
  fix s :: disk_store and p ms
  assume "disk_holds s p ms"
  then show "length ms < 2 ^ 64"
    by (simp add: disk_holds_def partition_holds_def)
qed

section \<open>Properties of the partition store\<close>

definition sample_store :: PartitionStore where
  "sample_store = NewPartitionStore ''data''
     \<lparr>qc_SegmentSizeBytes = 1024, qc_ReplicationFactor = 1, qc_RequiredFollowerAcks = 0\<rparr>"

text \<open>The disk after opening partition \<open>p\<close> in an empty directory.\<close>

definition opened_disk :: "int \<Rightarrow> disk_store" where
  "opened_disk p = (case OpenPartition io_ok Map.empty sample_store p of (fs, st, _) \<Rightarrow> (fs, st))"

lemma sample_store_states [simp]: "st_states sample_store pid = None"
  by (simp add: sample_store_def NewPartitionStore_def)

lemma opened_disk_holds [simp]: "disk_holds (opened_disk p) p []"
  using OpenPartition_holds [of sample_store p "[]" Map.empty "[]"]
  by (auto simp: opened_disk_def disk_holds_def)

lemma opened_disk_partition_holds: "partition_holds (fst (opened_disk p)) (snd (opened_disk p)) p []"
  using opened_disk_holds [of p] by (simp add: disk_holds_def)

text \<open>
  C13: A partition is a list: after appending the messages \<open>ms\<close> one by one to a partition that
  holds \<open>ms0\<close>, reading offset \<open>i\<close> returns element \<open>i\<close> of \<open>ms0 @ ms\<close>, and reading the offset behind the end returns an
  error that is \<open>ErrOffsetNotFound\<close>.
\<close>

theorem store_reads_what_was_appended:
  assumes "disk_holds s p ms0" and "\<forall>m \<in> set ms. storable m" and "length ms0 + length ms < 2 ^ 64"
  shows "(\<forall>i < length ms0 + length ms.
      disk_read (foldl (\<lambda>s m. fst (disk_append s p m)) s ms) p (of_nat i) = Inr ((ms0 @ ms) ! i)) \<and>
    (\<exists>e. disk_read (foldl (\<lambda>s m. fst (disk_append s p m)) s ms) p (of_nat (length ms0 + length ms)) = Inl e \<and>
      errors_Is e ErrOffsetNotFound)"
proof (intro conjI allI impI)
  fix i assume "i < length ms0 + length ms"
  then show "disk_read (foldl (\<lambda>s m. fst (disk_append s p m)) s ms) p (of_nat i) = Inr ((ms0 @ ms) ! i)"
    by (rule ps.read_after_appends [OF assms])
next
  have "unat (of_nat (length ms0 + length ms) :: Offset) = length ms0 + length ms"
    using assms(3) by (intro unat_of_nat_small) simp
  then show "\<exists>e. disk_read (foldl (\<lambda>s m. fst (disk_append s p m)) s ms) p
      (of_nat (length ms0 + length ms)) = Inl e \<and> errors_Is e ErrOffsetNotFound"
    by (intro ps.read_end_law [OF conjunct1 [OF ps.appends_hold [OF assms]]]) simp
qed

theorem store_reads_what_was_appended_witness:
  "disk_read (foldl (\<lambda>s m. fst (disk_append s 3 m)) (opened_disk 3) [sample_message]) 3 (of_nat 0) =
     Inr (([] @ [sample_message]) ! 0)"
  using store_reads_what_was_appended [OF opened_disk_holds [of 3], of "[sample_message]"]
  by (simp del: foldl_Cons foldl_Nil)

text \<open>
  C8: Durability. If the process stops at any point of an append (whatever the context, the
  faults and the bytes written), a new store that opens the partition from the same directory holds
  either the old messages or the old messages and the new one, and the latter whenever the append
  had returned an offset; that offset is the new message's position.
\<close>

theorem append_durable_across_restart:
  assumes "partition_holds fs st pid ms" and "storable m" and "length ms + 1 < 2 ^ 64"
    and "PartitionStore_Append ctx io fs st pid m = (fs1, st1, res)"
  shows "\<exists>ms' \<in> {ms, ms @ [m]}.
    (\<forall>off. res = Inr off \<longrightarrow> ms' = ms @ [m] \<and> off = of_nat (length ms)) \<and>
    (\<exists>fs2 st2. OpenPartition io_ok fs1 (NewPartitionStore (st_dataDir st) cfg) pid = (fs2, st2, None) \<and>
       partition_holds fs2 st2 pid ms')"
proof -
  obtain segment where seg: "st_segments st pid = Some [segment]" "seg_open segment"
      "seg_path segment = segmentPath st pid 0" "contents fs segment = log_bytes (index_records ms)"
      "st_states st pid = Some \<lparr>ps_currentSegmentID = 0, ps_nextOffset = of_nat (length ms)\<rparr>"
      "\<forall>m \<in> set ms. storable m" "length ms < 2 ^ 64"
    using assms(1) by (rule partition_holdsE)
  let ?r = "\<lparr>rec_Offset = of_nat (length ms), rec_Message = m\<rparr>"
  let ?new = "NewPartitionStore (st_dataDir st) cfg"
  have path: "segmentPath ?new pid 0 = segmentPath st pid 0" "st_states ?new pid = None"
    by (simp_all add: NewPartitionStore_def segmentPath_def)
  obtain k where k: "k \<le> length (record_bytes ?r)"
    and c: "contents fs1 segment = log_bytes (index_records ms) @ take k (record_bytes ?r)"
    and res: "\<forall>off. res = Inr off \<longrightarrow> k = length (record_bytes ?r) \<and> off = of_nat (length ms)"
  proof (cases ctx)
    case (Some e)
    with assms(4) seg(4) show ?thesis by (intro that [of 0]) (auto simp: PartitionStore_Append_def)
  next
    case None
    obtain fs' err where a: "SegmentStore_Append io fs segment ?r = (fs', err)" by fastforce
    with assms(4) None seg have "fs1 = fs'" and "\<forall>off. res = Inr off \<longrightarrow> err = None \<and> off = of_nat (length ms)"
      by (auto simp: PartitionStore_Append_def partition_holds_current_segment Let_def split: option.splits)
    with a show ?thesis
      by (elim SegmentStore_Append_prefix) (auto simp: seg(4) intro: that)
  qed
  show ?thesis
  proof (cases "k = length (record_bytes ?r)")
    case True
    with c have "contents fs1 segment = log_bytes (index_records (ms @ [m]))" by simp
    then have "fs1 (segmentPath st pid 0) = None \<and> ms @ [m] = [] \<or>
        fs1 (segmentPath st pid 0) = Some (log_bytes (index_records (ms @ [m])) @ [])"
      using length_record_bytes [of ?r] by (auto simp: contents_def seg(3) split: option.splits)
    with OpenPartition_holds [of ?new pid "ms @ [m]" fs1 "[]"] path seg(6) assms(2,3) res
    show ?thesis by (intro bexI [of _ "ms @ [m]"]) auto
  next
    case False
    with k have "k < length (record_bytes ?r)" by simp
    with assms(2) have tail: "take k (record_bytes ?r) = [] \<or> (\<exists>r j. storable (rec_Message r) \<and>
        j < length (record_bytes r) \<and> take k (record_bytes ?r) = take j (record_bytes r))"
      by (intro disjI2 exI [of _ ?r] exI [of _ k]) simp
    have disk: "fs1 (segmentPath st pid 0) = None \<and> ms = [] \<or>
        fs1 (segmentPath st pid 0) = Some (log_bytes (index_records ms) @ take k (record_bytes ?r))"
      using c by (cases ms rule: rev_cases)
        (auto simp: contents_def seg(3) split: option.splits)
    from OpenPartition_holds [where fs = fs1, OF path(2) seg(6,7) disk [folded path(1)] tail] res False
    show ?thesis by auto
  qed
qed

theorem append_durable_across_restart_witness:
  "\<exists>ms' \<in> {[], [] @ [sample_message]}.
    (\<forall>off. snd (snd (PartitionStore_Append None io_ok (fst (opened_disk 3)) (snd (opened_disk 3)) 3 sample_message)) = Inr off \<longrightarrow>
       ms' = [] @ [sample_message] \<and> off = of_nat (length ([] :: Message list))) \<and>
    (\<exists>fs2 st2. OpenPartition io_ok
        (fst (PartitionStore_Append None io_ok (fst (opened_disk 3)) (snd (opened_disk 3)) 3 sample_message))
        (NewPartitionStore (st_dataDir (snd (opened_disk 3))) (st_config sample_store)) 3 = (fs2, st2, None) \<and>
       partition_holds fs2 st2 3 ms')"
  by (rule append_durable_across_restart [OF opened_disk_partition_holds, where io = io_ok and ctx = None
        and ?st1.0 = "fst (snd (PartitionStore_Append None io_ok (fst (opened_disk 3)) (snd (opened_disk 3)) 3 sample_message))"])
    simp_all

text \<open>
  C25: A failed sync hides a later message. When the bytes of \<open>m1\<close> are written but the sync fails,
  the append returns an error and the next offset stays where it was; the next append, of \<open>m2\<close>,
  succeeds and returns that same offset, and reading it returns \<open>m1\<close>: the acknowledged \<open>m2\<close> is never read.
\<close>

theorem failed_sync_shadows_next_message:
  assumes "partition_holds fs st pid ms" and "storable m1" and "storable m2" and "length ms + 1 < 2 ^ 64"
  shows "\<exists>fs1 fs2 st2 err. PartitionStore_Append None (io_ok\<lparr>io_sync := Some e\<rparr>) fs st pid m1 = (fs1, st, Inl err) \<and>
    PartitionStore_Append None io_ok fs1 st pid m2 = (fs2, st2, Inr (of_nat (length ms))) \<and>
    PartitionStore_Read None io_ok fs2 st2 pid (of_nat (length ms)) = Inr m1"
proof -
  obtain segment where seg: "st_segments st pid = Some [segment]" "seg_open segment"
      "seg_path segment = segmentPath st pid 0" "contents fs segment = log_bytes (index_records ms)"
      "st_states st pid = Some \<lparr>ps_currentSegmentID = 0, ps_nextOffset = of_nat (length ms)\<rparr>"
      "\<forall>m \<in> set ms. storable m" "length ms < 2 ^ 64"
    using assms(1) by (rule partition_holdsE)
  let ?r1 = "\<lparr>rec_Offset = of_nat (length ms), rec_Message = m1\<rparr>"
  let ?r2 = "\<lparr>rec_Offset = of_nat (length ms), rec_Message = m2\<rparr>"
  let ?fs1 = "fs(seg_path segment \<mapsto> contents fs segment @ record_bytes ?r1)"
  let ?fs2 = "?fs1(seg_path segment \<mapsto> contents ?fs1 segment @ record_bytes ?r2)"
  let ?st2 = "advance st pid \<lparr>ps_currentSegmentID = 0, ps_nextOffset = of_nat (length ms)\<rparr>"
  have a1: "\<exists>err. PartitionStore_Append None (io_ok\<lparr>io_sync := Some e\<rparr>) fs st pid m1 = (?fs1, st, Inl err)"
    using seg assms(2)
    by (simp add: PartitionStore_Append_def partition_holds_current_segment SegmentStore_Append_ok Let_def
        SegmentStore_Flush_def file_op_def)
  have a2: "PartitionStore_Append None io_ok ?fs1 st pid m2 = (?fs2, ?st2, Inr (of_nat (length ms)))"
    using seg assms(3)
    by (simp add: PartitionStore_Append_def partition_holds_current_segment store_simps Let_def)
  have c2: "contents ?fs2 segment = log_bytes (index_records (ms @ [m1]) @ [?r2])"
    by (simp add: seg(4))
  have ok: "\<forall>r \<in> set (index_records (ms @ [m1]) @ [?r2]). storable (rec_Message r)"
    using index_records_storable [of "ms @ [m1]"] seg(6) assms(2,3) by simp
  have "find (\<lambda>r. rec_Offset r = of_nat (length ms)) (index_records (ms @ [m1]) @ [?r2]) = Some ?r1"
    using find_index_records [of ms "of_nat (length ms)"] seg(7)
    by (simp add: find_append unat_of_nat_small)
  with SegmentStore_Read_log [OF seg(2) _ _ c2 ok, of io_ok]
  have "SegmentStore_Read io_ok ?fs2 segment (of_nat (length ms)) = Inr ?r1" by simp
  then have "PartitionStore_Read None io_ok ?fs2 ?st2 pid (of_nat (length ms)) = Inr m1"
    by (simp add: PartitionStore_Read_def seg(1))
  with a1 a2 show ?thesis by blast
qed

theorem failed_sync_shadows_next_message_witness:
  "\<exists>fs1 fs2 st2 err. PartitionStore_Append None (io_ok\<lparr>io_sync := Some (OSError ''input/output error'')\<rparr>)
      (fst (opened_disk 3)) (snd (opened_disk 3)) 3 sample_message = (fs1, snd (opened_disk 3), Inl err) \<and>
    PartitionStore_Append None io_ok fs1 (snd (opened_disk 3)) 3 (sample_message\<lparr>msg_ID := ''8-1''\<rparr>) =
      (fs2, st2, Inr (of_nat (length ([] :: Message list)))) \<and>
    PartitionStore_Read None io_ok fs2 st2 3 (of_nat (length ([] :: Message list))) = Inr sample_message"
  by (rule failed_sync_shadows_next_message [OF opened_disk_partition_holds])
    (simp_all add: storable_def length_message_bytes encodable_def, simp_all add: sample_message_def)

text \<open>The bytes of a partition's log.\<close>

definition log_size :: "Message list \<Rightarrow> nat" where
  "log_size ms = sum_list (map (\<lambda>m. 12 + length (message_bytes m)) ms)"

lemma length_log_bytes: "length (log_bytes (index_records ms)) = log_size ms"
proof (induction ms rule: rev_induct)
  case (snoc m ms)
  then show ?case by (simp add: log_size_def log_bytes_def length_record_bytes)
qed (simp add: log_size_def log_bytes_def)

lemma log_size_lower: "list_all storable ms \<Longrightarrow> 29 * length ms \<le> log_size ms"
proof (induction ms)
  case (Cons m ms)
  then obtain b bs where "msg_Payload m = b # bs" by (cases "msg_Payload m") (simp_all add: storable_def)
  with Cons show ?case by (simp add: log_size_def length_message_bytes)
qed (simp add: log_size_def)

text \<open>
  C27: A segment is not bounded by its configured size. Whatever messages are appended to a partition, it keeps one segment, and its file is as long as all records
  ever appended, each 12 bytes longer than its message's encoding: with \<open>n\<close> messages it has at least 29 \<open>n\<close> bytes, for every value of \<^verbatim>\<open>SegmentSizeBytes\<close>.
\<close>

theorem segment_outgrows_limit:
  assumes "disk_holds s p ms0" and "list_all storable ms" and "length ms0 + length ms < 2 ^ 64"
  shows "\<exists>fs st segment. foldl (\<lambda>s m. fst (disk_append s p m)) s ms = (fs, st) \<and> st_segments st p = Some [segment] \<and>
    length (contents fs segment) = log_size (ms0 @ ms) \<and> 29 * length (ms0 @ ms) \<le> length (contents fs segment)"
proof -
  obtain fs st where run: "foldl (\<lambda>s m. fst (disk_append s p m)) s ms = (fs, st)" by fastforce
  have "\<forall>m \<in> set ms. storable m" using assms(2) by (simp add: list_all_iff)
  from ps.appends_hold [OF assms(1) this assms(3)] have "partition_holds fs st p (ms0 @ ms)" by (simp add: run disk_holds_def)
  then obtain segment where segment: "st_segments st p = Some [segment]" "contents fs segment = log_bytes (index_records (ms0 @ ms))"
    by (auto simp: partition_holds_def)
  have "list_all storable ms0" using assms(1) by (simp add: disk_holds_def partition_holds_def list_all_iff)
  with assms(2) have "29 * length (ms0 @ ms) \<le> log_size (ms0 @ ms)" by (intro log_size_lower) simp
  then show ?thesis using run segment by (simp add: length_log_bytes)
qed

theorem segment_outgrows_limit_witness:
  "\<exists>fs st segment. foldl (\<lambda>s m. fst (disk_append s 3 m)) (opened_disk 3) (replicate 40 sample_message) = (fs, st) \<and>
     st_segments st 3 = Some [segment] \<and> 1160 \<le> length (contents fs segment)"
proof -
  have storables: "list_all storable (replicate 40 sample_message)" by (simp add: list_all_iff)
  have "length ([] :: Message list) + length (replicate 40 sample_message) < 2 ^ 64" by simp
  from segment_outgrows_limit [OF opened_disk_holds storables this] obtain fs st segment where
    w: "foldl (\<lambda>s m. fst (disk_append s 3 m)) (opened_disk 3) (replicate 40 sample_message) = (fs, st)" "st_segments st 3 = Some [segment]"
      "29 * length ([] @ replicate 40 sample_message) \<le> length (contents fs segment)" by blast
  then show ?thesis by (intro exI [of _ fs] exI [of _ st] exI [of _ segment]) simp
qed

end
