(* ===== verification/Cluster_Layout.thy ===== *)
theory Cluster_Layout
  imports Go_Std "HOL-Library.Char_ord" "HOL-Library.List_Lexorder" "HOL-Library.Multiset"
begin

text \<open>
  Nodes, replicas and partitions: how the cluster's members are found (\<^verbatim>\<open>static_nodes.go\<close>,
  \<^verbatim>\<open>static_cluster.go\<close>, \<^verbatim>\<open>kubernetes_cluster.go\<close>, \<^verbatim>\<open>findLocalNode\<close> of \<^verbatim>\<open>cmd/queue/main.go\<close>), how
  partitions are assigned to them (\<^verbatim>\<open>assignment.go\<close>) and what a node concludes about leadership
  (\<^verbatim>\<open>partition_manager.go\<close>). The lemmas show that the assignment is complete, balanced and gives every
  partition one leader that all nodes agree on, provided they start from the same node list, and
  that Kubernetes discovery yields the same list whatever order the API returns.
\<close>

section \<open>Data\<close>

record Node =
  node_ID :: string
  node_Address :: string

datatype ReplicaRole = ReplicaLeader | ReplicaFollower

fun role_string :: "ReplicaRole \<Rightarrow> string" where
  "role_string ReplicaLeader = ''leader''"
| "role_string ReplicaFollower = ''follower''"

record Replica =
  rep_NodeID :: string
  rep_Role :: ReplicaRole

record Partition =
  part_ID :: int
  part_Replicas :: "Replica list"

section \<open>Assignment\<close>

definition assign_replica :: "Node list \<Rightarrow> nat \<Rightarrow> nat \<Rightarrow> Replica" where
  "assign_replica nodes partitionID replicaIndex =
     (let nodeIndex = (partitionID + replicaIndex) mod length nodes in
      \<lparr>rep_NodeID = node_ID (nodes ! nodeIndex),
       rep_Role = (if replicaIndex = 0 then ReplicaLeader else ReplicaFollower)\<rparr>)"

definition AssignPartitions :: "Node list \<Rightarrow> int \<Rightarrow> int \<Rightarrow> Partition list" where
  "AssignPartitions nodes partitionCount replicationFactor =
     (if partitionCount \<le> 0 \<or> replicationFactor \<le> 0 \<or> length nodes = 0 then []
      else (let rf = (if replicationFactor > int (length nodes) then int (length nodes) else replicationFactor) in
        map (\<lambda>partitionID.
            \<lparr>part_ID = int partitionID,
             part_Replicas = map (assign_replica nodes partitionID) [0..<nat rf]\<rparr>)
          [0..<nat partitionCount]))"

section \<open>Partition manager\<close>

record PartitionManager =
  pm_node :: Node
  pm_partitions :: "Partition list"

definition NewPartitionManager :: "Node \<Rightarrow> Partition list \<Rightarrow> PartitionManager" where
  "NewPartitionManager node partitions = \<lparr>pm_node = node, pm_partitions = partitions\<rparr>"

definition PartitionManager_Partitions :: "PartitionManager \<Rightarrow> Partition list" where
  "PartitionManager_Partitions m = pm_partitions m"

definition LocalNode :: "PartitionManager \<Rightarrow> Node" where
  "LocalNode m = pm_node m"

definition PartitionManager_Partition :: "PartitionManager \<Rightarrow> int \<Rightarrow> Partition option" where
  "PartitionManager_Partition m pid = find (\<lambda>p. part_ID p = pid) (pm_partitions m)"

definition LeaderNodeID :: "PartitionManager \<Rightarrow> int \<Rightarrow> string option" where
  "LeaderNodeID m pid =
     (case PartitionManager_Partition m pid of
        None \<Rightarrow> None
      | Some p \<Rightarrow> map_option rep_NodeID (find (\<lambda>r. rep_Role r = ReplicaLeader) (part_Replicas p)))"

definition IsLeader :: "PartitionManager \<Rightarrow> int \<Rightarrow> bool" where
  "IsLeader m pid =
     (case find (\<lambda>p. part_ID p = pid) (pm_partitions m) of
        None \<Rightarrow> False
      | Some p \<Rightarrow>
          (case find (\<lambda>r. rep_NodeID r = node_ID (pm_node m)) (part_Replicas p) of
             None \<Rightarrow> False
           | Some r \<Rightarrow> rep_Role r = ReplicaLeader))"

section \<open>Cluster membership\<close>

text \<open>\<^verbatim>\<open>ParseNodes\<close>: one entry of the comma-separated list; \<open>None\<close> for a blank one.\<close>

definition parse_entry :: "string \<Rightarrow> go_error + Node option" where
  "parse_entry raw =
     (let entry = TrimSpace raw in
      if entry = [] then Inr None
      else (case SplitN2 entry (CHR ''='') of
          [a, b] \<Rightarrow>
            (let id = TrimSpace a; address = TrimSpace b in
             if id = [] \<or> address = []
             then Inl (Errorf (''invalid node '' @ Quote entry @ '': id and address are required''))
             else Inr (Some \<lparr>node_ID = id, node_Address = address\<rparr>))
        | _ \<Rightarrow> Inl (Errorf (''invalid node '' @ Quote entry @ '': expected id=address''))))"

fun parse_entries :: "string list \<Rightarrow> go_error + Node list" where
  "parse_entries [] = Inr []"
| "parse_entries (e # es) =
     (case parse_entry e of
        Inl err \<Rightarrow> Inl err
      | Inr None \<Rightarrow> parse_entries es
      | Inr (Some n) \<Rightarrow> (case parse_entries es of Inl err \<Rightarrow> Inl err | Inr ns \<Rightarrow> Inr (n # ns)))"

definition ParseNodes :: "string \<Rightarrow> go_error + Node list" where
  "ParseNodes v =
     (if TrimSpace v = [] then Inl (Errorf ''node list is empty'')
      else (case parse_entries (Split v (CHR '','')) of
          Inl err \<Rightarrow> Inl err
        | Inr nodes \<Rightarrow> if nodes = [] then Inl (Errorf ''node list is empty'') else Inr nodes))"

definition StaticCluster_Nodes :: "Node list \<Rightarrow> go_error + Node list" where
  "StaticCluster_Nodes nodes = Inr nodes"

text \<open>\<^verbatim>\<open>os.Getenv("HOSTNAME")\<close> is the argument.\<close>

definition LocalNodeID :: "string \<Rightarrow> go_error + string" where
  "LocalNodeID hostname = (if hostname = [] then Inl (Errorf ''HOSTNAME is not set'') else Inr hostname)"

definition findLocalNode :: "Node list \<Rightarrow> string \<Rightarrow> go_error + Node" where
  "findLocalNode nodes nodeID =
     (case find (\<lambda>n. node_ID n = nodeID) nodes of
        Some n \<Rightarrow> Inr n
      | None \<Rightarrow> Inl (Errorf (''local node '' @ Quote nodeID @ '' not found in cluster'')))"

text \<open>
  The fields of a Kubernetes pod the code reads. The pod list itself comes from the Kubernetes API:
  it is an argument.
\<close>

record Pod =
  pod_Name :: string
  pod_Deleting :: bool
  pod_Phase :: string

record KubernetesCluster =
  kc_namespace :: string
  kc_selector :: string
  kc_service :: string
  kc_port :: int

definition podDiscoverable :: "Pod \<Rightarrow> bool" where
  "podDiscoverable pod \<longleftrightarrow> pod_Phase pod = ''Running''"

definition pod_node :: "KubernetesCluster \<Rightarrow> Pod \<Rightarrow> Node" where
  "pod_node c pod =
     \<lparr>node_ID = pod_Name pod,
      node_Address = ''http://'' @ pod_Name pod @ ''.'' @ kc_service c @ ''.'' @ kc_namespace c @
        ''.svc:'' @ itoa (kc_port c)\<rparr>"

definition KubernetesCluster_Nodes :: "KubernetesCluster \<Rightarrow> go_error + Pod list \<Rightarrow> go_error + Node list" where
  "KubernetesCluster_Nodes c listed =
     (case listed of
        Inl e \<Rightarrow> Inl (Wrapf ''list queue pods: '' e [])
      | Inr pods \<Rightarrow>
          Inr (sort_key node_ID
            (map (pod_node c) (filter (\<lambda>pod. \<not> pod_Deleting pod \<and> podDiscoverable pod) pods))))"

text \<open>The client is made from the pod's service account: \<open>config\<close> and \<open>clientset\<close> are the errors of its two steps, if any.\<close>

definition NewInClusterKubernetesCluster ::
  "go_error option \<times> go_error option \<Rightarrow> string \<Rightarrow> string \<Rightarrow> string \<Rightarrow> int \<Rightarrow> go_error + KubernetesCluster" where
  "NewInClusterKubernetesCluster connect namespace selector service port =
     (case connect of
        (Some e, _) \<Rightarrow> Inl (Wrapf ''create in-cluster config: '' e [])
      | (None, Some e) \<Rightarrow> Inl (Wrapf ''create kubernetes client: '' e [])
      | (None, None) \<Rightarrow> Inr \<lparr>kc_namespace = namespace, kc_selector = selector, kc_service = service, kc_port = port\<rparr>)"

text \<open>
  The members of a cluster when they are asked for; \<open>listed\<close> is the answer of the Kubernetes API.
\<close>

datatype Cluster = StaticCluster "Node list" | KubernetesClusterOf KubernetesCluster

definition Cluster_Nodes :: "Cluster \<Rightarrow> go_error + Pod list \<Rightarrow> go_error + Node list" where
  "Cluster_Nodes cluster listed =
     (case cluster of StaticCluster nodes \<Rightarrow> StaticCluster_Nodes nodes | KubernetesClusterOf c \<Rightarrow> KubernetesCluster_Nodes c listed)"

text \<open>
  Discovery at start-up. The environment is the function \<^verbatim>\<open>os.Getenv\<close>; \<open>connect\<close> has the errors of
  building the in-cluster client; \<open>polls\<close> are the successive answers of the Kubernetes API,
  one per tick, after which the context is cancelled.
\<close>

fun await_nodes :: "KubernetesCluster \<Rightarrow> int \<Rightarrow> (go_error + Pod list) list \<Rightarrow> go_error + Node list" where
  "await_nodes c factor [] = Inl ContextCanceled"
| "await_nodes c factor (poll # polls) =
     (case KubernetesCluster_Nodes c poll of
        Inl e \<Rightarrow> Inl e
      | Inr nodes \<Rightarrow> if factor \<le> int (length nodes) then Inr nodes else await_nodes c factor polls)"

definition env_or :: "(string \<Rightarrow> string) \<Rightarrow> string \<Rightarrow> string \<Rightarrow> string" where
  "env_or env key fallback = (if env key = [] then fallback else env key)"

definition discoverCluster ::
  "(string \<Rightarrow> string) \<Rightarrow> int \<Rightarrow> int \<Rightarrow> go_error option \<times> go_error option \<Rightarrow> (go_error + Pod list) list \<Rightarrow>
     go_error + Cluster \<times> Node list" where
  "discoverCluster env port factor connect polls =
     (if env ''KUBERNETES_SERVICE_HOST'' \<noteq> [] then
        sum_bind (NewInClusterKubernetesCluster connect (env_or env ''QUEUE_NAMESPACE'' ''default'')
            (env_or env ''QUEUE_POD_SELECTOR'' ''app=gpu-telemetry-queue'') (env_or env ''QUEUE_SERVICE'' ''gpu-telemetry-queue'') port)
          (\<lambda>cluster. sum_bind (await_nodes cluster factor polls) (\<lambda>nodes. Inr (KubernetesClusterOf cluster, nodes)))
      else (let v = TrimSpace (env ''QUEUE_NODES'') in
        if v = [] then Inl (Errorf ''QUEUE_NODES is required outside Kubernetes'')
        else (case ParseNodes v of
            Inl e \<Rightarrow> Inl e
          | Inr nodes \<Rightarrow> Inr (StaticCluster nodes, nodes))))"

section \<open>The assignment\<close>

lemma assign_replica_simps [simp]:
  "rep_NodeID (assign_replica nodes p i) = node_ID (nodes ! ((p + i) mod length nodes))"
  "rep_Role (assign_replica nodes p i) = (if i = 0 then ReplicaLeader else ReplicaFollower)"
  by (simp_all add: assign_replica_def Let_def)

definition effective_factor :: "Node list \<Rightarrow> int \<Rightarrow> nat" where
  "effective_factor nodes rf = min (nat rf) (length nodes)"

lemma AssignPartitions_eq:
  assumes "0 < pc" and "0 < rf" and "nodes \<noteq> []"
  shows "AssignPartitions nodes pc rf =
    map (\<lambda>p. \<lparr>part_ID = int p, part_Replicas = map (assign_replica nodes p) [0..<effective_factor nodes rf]\<rparr>)
      [0..<nat pc]"
proof -
  have "nat (if rf > int (length nodes) then int (length nodes) else rf) = effective_factor nodes rf"
    by (auto simp: effective_factor_def min_def)
  with assms show ?thesis by (simp add: AssignPartitions_def Let_def)
qed

lemma find_map_upt:
  "q < n \<Longrightarrow> (\<And>p. part_ID (f p) = int p) \<Longrightarrow> find (\<lambda>x. part_ID x = int q) (map f [0..<n]) = Some (f q)"
proof (induction n)
  case 0
  then show ?case by simp
next
  case (Suc n)
  have "find (\<lambda>x. part_ID x = int n) (map f [0..<n]) = None"
    using Suc.prems(2) by (auto simp: find_None_iff)
  with Suc show ?case by (auto simp: find_append less_Suc_eq)
qed

lemma find_AssignPartitions:
  assumes "0 \<le> p" and "p < pc" and "0 < rf" and "nodes \<noteq> []"
  shows "find (\<lambda>x. part_ID x = p) (AssignPartitions nodes pc rf) =
    Some \<lparr>part_ID = p, part_Replicas = map (assign_replica nodes (nat p)) [0..<effective_factor nodes rf]\<rparr>"
proof -
  have "nat p < nat pc" using assms by simp
  from find_map_upt [OF this, of "\<lambda>p. \<lparr>part_ID = int p,
      part_Replicas = map (assign_replica nodes p) [0..<effective_factor nodes rf]\<rparr>"] assms
  show ?thesis by (simp add: AssignPartitions_eq)
qed

text \<open>Within the effective factor the replicas of a partition are on different nodes.\<close>

lemma rotated_index_inject:
  assumes "i < n" and "j < n" and "(p + i) mod n = (p + j) mod (n :: nat)"
  shows "i = j"
proof -
  from assms(3) have "i mod n = j mod n"
    by (simp add: nat_mod_eq_iff)
  with assms(1,2) show ?thesis by simp
qed

lemma replicas_Cons:
  "0 < f \<Longrightarrow> map (assign_replica nodes p) [0..<f] =
     assign_replica nodes p 0 # map (assign_replica nodes p) [Suc 0..<f]"
  by (simp add: upt_conv_Cons)

lemma effective_factor_pos [simp]: "0 < rf \<Longrightarrow> nodes \<noteq> [] \<Longrightarrow> 0 < effective_factor nodes rf"
  by (simp add: effective_factor_def)

lemma find_follower_tail:
  "find P (map (assign_replica nodes p) [Suc 0..<f]) = Some r \<Longrightarrow> rep_Role r = ReplicaFollower"
  by (auto simp: find_Some_iff)

lemma LeaderNodeID_assigned:
  assumes "0 \<le> p" and "p < pc" and "0 < rf" and "nodes \<noteq> []"
  shows "LeaderNodeID (NewPartitionManager n (AssignPartitions nodes pc rf)) p =
    Some (node_ID (nodes ! (nat p mod length nodes)))"
  using find_AssignPartitions [OF assms] assms
  by (simp add: LeaderNodeID_def PartitionManager_Partition_def NewPartitionManager_def replicas_Cons)

lemma IsLeader_assigned:
  assumes "0 \<le> p" and "p < pc" and "0 < rf" and "nodes \<noteq> []"
  shows "IsLeader (NewPartitionManager n (AssignPartitions nodes pc rf)) p \<longleftrightarrow>
    node_ID n = node_ID (nodes ! (nat p mod length nodes))"
proof -
  let ?tail = "map (assign_replica nodes (nat p)) [Suc 0..<effective_factor nodes rf]"
  have "find (\<lambda>r. rep_NodeID r = node_ID n) ?tail = Some r \<Longrightarrow> rep_Role r \<noteq> ReplicaLeader" for r
    by (drule find_follower_tail) simp
  then show ?thesis
    using find_AssignPartitions [OF assms] assms
    by (cases "find (\<lambda>r. rep_NodeID r = node_ID n) ?tail")
       (auto simp: IsLeader_def NewPartitionManager_def replicas_Cons)
qed

section \<open>Properties of the layout\<close>

text \<open>
  C16: On nodes with different IDs, assignment creates the partitions 0 to \<open>pc - 1\<close> in this order,
  and every partition has as many replicas as the replication factor asks for, or as there are
  nodes, all on different nodes of the cluster, the first one leader and the others followers.
\<close>

theorem assignment_well_formed:
  assumes "distinct (map node_ID nodes)" and "nodes \<noteq> []" and "0 < pc" and "0 < rf"
  shows "map part_ID (AssignPartitions nodes pc rf) = map int [0..<nat pc] \<and>
    (\<forall>part \<in> set (AssignPartitions nodes pc rf).
       length (part_Replicas part) = min (nat rf) (length nodes) \<and>
       distinct (map rep_NodeID (part_Replicas part)) \<and>
       set (map rep_NodeID (part_Replicas part)) \<subseteq> set (map node_ID nodes) \<and>
       map rep_Role (part_Replicas part) =
         ReplicaLeader # replicate (min (nat rf) (length nodes) - 1) ReplicaFollower)"
proof -
  let ?f = "effective_factor nodes rf"
  have f: "?f \<le> length nodes" "?f = min (nat rf) (length nodes)" "0 < ?f"
    using assms by (simp_all add: effective_factor_def)
  have "distinct (map rep_NodeID (map (assign_replica nodes p) [0..<?f]))" for p
  proof -
    have "inj_on (\<lambda>i. node_ID (nodes ! ((p + i) mod length nodes))) (set [0..<?f])"
    proof (rule inj_onI)
      fix i j assume ij: "i \<in> set [0..<?f]" "j \<in> set [0..<?f]"
        and "node_ID (nodes ! ((p + i) mod length nodes)) = node_ID (nodes ! ((p + j) mod length nodes))"
      then have "(p + i) mod length nodes = (p + j) mod length nodes"
        using assms(2) by (intro distinct_map_nth_eq [OF assms(1)]) simp_all
      with ij f(1) show "i = j" by (intro rotated_index_inject [of i "length nodes" j p]) auto
    qed
    then show ?thesis by (simp add: distinct_map comp_def)
  qed
  moreover have "set (map rep_NodeID (map (assign_replica nodes p) [0..<?f])) \<subseteq> set (map node_ID nodes)" for p
    using assms(2) by (auto intro!: imageI nth_mem)
  moreover have "map rep_Role (map (assign_replica nodes p) [0..<?f]) =
      ReplicaLeader # replicate (?f - 1) ReplicaFollower" for p
    using f(3) by (subst replicas_Cons) (auto intro: nth_equalityI)
  ultimately show ?thesis
    using assms by (auto simp: AssignPartitions_eq f(2) [symmetric] comp_def)
qed

definition sample_nodes :: "Node list" where
  "sample_nodes = [\<lparr>node_ID = ''q0'', node_Address = ''http://q0''\<rparr>, \<lparr>node_ID = ''q1'', node_Address = ''http://q1''\<rparr>,
     \<lparr>node_ID = ''q2'', node_Address = ''http://q2''\<rparr>]"

lemma sample_nodes_ok [simp]: "distinct (map node_ID sample_nodes)" "sample_nodes \<noteq> []"
  by (simp_all add: sample_nodes_def)

theorem assignment_well_formed_witness:
  "map part_ID (AssignPartitions sample_nodes 4 2) = [0, 1, 2, 3] \<and>
    list_all (\<lambda>part. length (part_Replicas part) = 2 \<and> distinct (map rep_NodeID (part_Replicas part)) \<and>
       set (map rep_NodeID (part_Replicas part)) \<subseteq> set (map node_ID sample_nodes) \<and>
       map rep_Role (part_Replicas part) = [ReplicaLeader, ReplicaFollower]) (AssignPartitions sample_nodes 4 2)"
  using assignment_well_formed [of sample_nodes 4 2]
  by (simp add: list_all_iff upt_rec) (simp add: sample_nodes_def)



text \<open>
  Leadership is balanced: of any \<open>k\<close> times as many partitions as nodes, every node leads exactly \<open>k\<close>.
\<close>

lemma residues_card:
  assumes "i < n"
  shows "card {p. p < k * n \<and> p mod n = i} = k"
proof -
  have "{p. p < k * n \<and> p mod n = i} = (\<lambda>j. j * n + i) ` {..<k}" (is "?A = ?B")
  proof
    show "?A \<subseteq> ?B"
    proof
      fix p assume "p \<in> ?A"
      then have "p = (p div n) * n + i" "p div n < k"
        using div_mult_mod_eq [of p n] by (auto simp: less_mult_imp_div_less)
      then show "p \<in> ?B" by blast
    qed
    have "j * n + i < k * n" if "j < k" for j
    proof -
      have "Suc j * n \<le> k * n" using that by (intro mult_le_mono1) simp
      with assms show ?thesis by simp
    qed
    then show "?B \<subseteq> ?A" using assms by auto
  qed
  moreover have "inj_on (\<lambda>j. j * n + i) {..<k}"
    using assms by (intro inj_onI) simp
  ultimately show ?thesis by (simp add: card_image)
qed

lemma leadership_balanced:
  assumes "distinct (map node_ID nodes)" and "i < length nodes" and "0 < k" and "0 < rf"
    and "pc = int (k * length nodes)"
  shows "card {p. p < nat pc \<and> IsLeader (NewPartitionManager (nodes ! i) (AssignPartitions nodes pc rf)) (int p)} = k"
proof -
  have ne: "nodes \<noteq> []" using assms(2) by auto
  have pc: "nat pc = k * length nodes" using assms(5) by (simp only: nat_int)
  have "IsLeader (NewPartitionManager (nodes ! i) (AssignPartitions nodes pc rf)) (int p) \<longleftrightarrow>
      p mod length nodes = i" if "p < nat pc" for p
    using that ne assms(2) distinct_map_nth_eq [OF assms(1), of i "p mod length nodes"]
    by (auto simp: IsLeader_assigned [OF _ _ assms(4) ne])
  then have "{p. p < nat pc \<and> IsLeader (NewPartitionManager (nodes ! i) (AssignPartitions nodes pc rf)) (int p)} =
      {p. p < k * length nodes \<and> p mod length nodes = i}"
    by (auto simp: pc)
  with residues_card [OF assms(2)] show ?thesis by simp
qed

section \<open>Properties of membership\<close>

lemma pod_node_ID [simp]: "node_ID (pod_node c pod) = pod_Name pod"
  by (simp add: pod_node_def)

lemma sort_key_mset_eq:
  assumes "mset xs = mset ys" and "distinct (map f xs)"
  shows "sort_key f xs = sort_key f ys"
proof (rule properties_for_sort_key [symmetric])
  show "mset (sort_key f xs) = mset ys" using assms(1) by simp
  show "sorted (map f (sort_key f xs))" by simp
  have eq: "filter (\<lambda>x. f k = f x) zs = [k]" if "distinct (map f zs)" "k \<in> set zs" for k zs
    using that by (induction zs) (auto simp: filter_empty_conv image_iff)
  fix k assume k: "k \<in> set (sort_key f xs)"
  have "mset (map f xs) = mset (map f ys)" using assms(1) by simp
  then have dys: "distinct (map f ys)" using assms(2) mset_eq_imp_distinct_iff by blast
  have "mset (map f (sort_key f xs)) = mset (map f xs)" by simp
  then have "distinct (map f (sort_key f xs))" using assms(2) mset_eq_imp_distinct_iff by blast
  moreover have "k \<in> set ys" using k mset_eq_setD [OF assms(1)] by simp
  ultimately show "filter (\<lambda>x. f k = f x) (sort_key f xs) = filter (\<lambda>x. f k = f x) ys"
    using k dys by (simp add: eq)
qed

text \<open>
  C22: Kubernetes discovery does not depend on the order in which the API lists the pods: pod
  names being unique, two answers with the same pods give the same node list, sorted by ID, and it
  holds exactly the running pods that are not being deleted.
\<close>

theorem discovery_order_independent:
  assumes "mset pods = mset pods'" and "distinct (map pod_Name pods)"
  shows "KubernetesCluster_Nodes c (Inr pods) = KubernetesCluster_Nodes c (Inr pods') \<and>
    (\<exists>nodes. KubernetesCluster_Nodes c (Inr pods) = Inr nodes \<and> sorted (map node_ID nodes) \<and>
       distinct (map node_ID nodes) \<and>
       set (map node_ID nodes) =
         {pod_Name pod |pod. pod \<in> set pods \<and> pod_Phase pod = ''Running'' \<and> \<not> pod_Deleting pod})"
proof -
  let ?up = "\<lambda>pod. \<not> pod_Deleting pod \<and> podDiscoverable pod"
  let ?sel = "\<lambda>pods. map (pod_node c) (filter ?up pods)"
  have id: "map node_ID (?sel ps) = map pod_Name (filter ?up ps)" for ps
    by (simp add: pod_node_def)
  have d: "distinct (map node_ID (?sel pods))"
    unfolding id using assms(2) by (rule distinct_map_filter)
  have "mset (?sel pods) = mset (?sel pods')"
    using assms(1) by (simp only: mset_map mset_filter)
  from sort_key_mset_eq [OF this d]
  have "KubernetesCluster_Nodes c (Inr pods) = KubernetesCluster_Nodes c (Inr pods')"
    by (simp add: KubernetesCluster_Nodes_def)
  moreover have "KubernetesCluster_Nodes c (Inr pods) = Inr (sort_key node_ID (?sel pods))"
    by (simp add: KubernetesCluster_Nodes_def)
  moreover have "mset (map node_ID (sort_key node_ID (?sel pods))) = mset (map node_ID (?sel pods))"
    by (simp only: mset_map mset_sort)
  then have "distinct (map node_ID (sort_key node_ID (?sel pods)))"
    using d mset_eq_imp_distinct_iff by blast
  moreover have "set (map node_ID (sort_key node_ID (?sel pods))) =
      {pod_Name pod |pod. pod \<in> set pods \<and> pod_Phase pod = ''Running'' \<and> \<not> pod_Deleting pod}"
    by (auto simp: podDiscoverable_def image_image)
  ultimately show ?thesis by (metis sorted_sort_key)
qed

definition sample_pod :: "string \<Rightarrow> Pod" where
  "sample_pod name = \<lparr>pod_Name = name, pod_Deleting = False, pod_Phase = ''Running''\<rparr>"

definition sample_kubernetes :: KubernetesCluster where
  "sample_kubernetes = \<lparr>kc_namespace = ''default'', kc_selector = ''app=gpu-telemetry-queue'',
     kc_service = ''gpu-telemetry-queue'', kc_port = 8080\<rparr>"

theorem discovery_order_independent_witness:
  "KubernetesCluster_Nodes sample_kubernetes (Inr [sample_pod ''q-1'', sample_pod ''q-0'']) =
     KubernetesCluster_Nodes sample_kubernetes (Inr [sample_pod ''q-0'', sample_pod ''q-1'']) \<and>
    (\<exists>nodes. KubernetesCluster_Nodes sample_kubernetes (Inr [sample_pod ''q-1'', sample_pod ''q-0'']) = Inr nodes \<and>
       sorted (map node_ID nodes) \<and> distinct (map node_ID nodes) \<and>
       set (map node_ID nodes) =
         {pod_Name pod |pod. pod \<in> set [sample_pod ''q-1'', sample_pod ''q-0''] \<and>
            pod_Phase pod = ''Running'' \<and> \<not> pod_Deleting pod})"
  by (rule discovery_order_independent) (simp_all add: sample_pod_def)

definition sample_pod_env :: "string \<Rightarrow> string" where
  "sample_pod_env key = (if key = ''KUBERNETES_SERVICE_HOST'' then ''10.0.0.1'' else [])"


section \<open>The static node list\<close>

text \<open>A token survives trimming when it neither begins nor ends with white space.\<close>

definition trimmed :: "string \<Rightarrow> bool" where
  "trimmed s \<longleftrightarrow> s \<noteq> [] \<and> \<not> is_space (hd s) \<and> \<not> is_space (last s)"

lemma dropWhile_hd: "s \<noteq> [] \<Longrightarrow> \<not> P (hd s) \<Longrightarrow> dropWhile P s = s"
  by (cases s) auto

lemma TrimSpace_trimmed: "trimmed s \<Longrightarrow> TrimSpace s = s"
  by (simp add: trimmed_def TrimSpace_def TrimLeftP_def TrimRightP_def dropWhile_hd hd_rev)

definition format_node :: "Node \<Rightarrow> string" where
  "format_node n = node_ID n @ ''='' @ node_Address n"

definition listable :: "Node \<Rightarrow> bool" where
  "listable n \<longleftrightarrow> trimmed (node_ID n) \<and> trimmed (node_Address n) \<and> CHR ''='' \<notin> set (node_ID n) \<and>
     CHR '','' \<notin> set (node_ID n) \<and> CHR '','' \<notin> set (node_Address n)"

lemma trimmed_format_node: "listable n \<Longrightarrow> trimmed (format_node n)"
  by (auto simp: listable_def trimmed_def format_node_def)

lemma parse_entry_format: "listable (n :: Node) \<Longrightarrow> parse_entry (format_node n) = Inr (Some n)"
  using trimmed_format_node [of n]
  by (auto simp: parse_entry_def TrimSpace_trimmed SplitN2_def format_node_def listable_def takeWhile_append
      dropWhile_append trimmed_def Let_def)

lemma parse_entries_format: "\<forall>n \<in> set ns. listable n \<Longrightarrow> parse_entries (map format_node ns) = Inr ns"
  by (induction ns) (auto simp: parse_entry_format)

lemma ParseNodes_format:
  assumes "\<forall>n \<in> set ns. listable n" and "ns \<noteq> []"
  shows "ParseNodes (Join (map format_node ns) '','') = Inr ns"
proof -
  have "Split (Join (map format_node ns) '','') (CHR '','') = map format_node ns"
    using assms by (intro Split_Join) (auto simp: listable_def format_node_def)
  moreover have "TrimSpace (Join (map format_node ns) '','') \<noteq> []"
  proof -
    obtain n ms where ns: "ns = n # ms" using assms(2) by (cases ns) auto
    then have "trimmed (format_node n)" using assms(1) by (simp add: trimmed_format_node)
    then obtain c t where c: "Join (map format_node ns) '','' = c # t" "\<not> is_space c"
      by (cases ms; cases "format_node n") (auto simp: ns trimmed_def)
    then show ?thesis by (auto simp: TrimSpace_def TrimLeftP_def TrimRightP_def)
  qed
  ultimately show ?thesis using assms by (simp add: ParseNodes_def parse_entries_format)
qed

end
