(* ===== verification/Step_Systems.thy ===== *)
theory Step_Systems
  imports Main
begin

text \<open>
  The contract of a step relation: the interface through which the concurrent parts of the queue
  are verified. \<open>step_system\<close> carries an invariant along every run, \<open>terminating_system\<close> adds
  a measure that bounds the length of every run, and \<open>deadlock_free_system\<close> a goal that
  every state without a successor has reached. The replication coordinator interprets the last one, the
  consumer protocol the first.
\<close>

locale step_system =
  fixes init :: "'s \<Rightarrow> bool" and step :: "'s \<Rightarrow> 's \<Rightarrow> bool" and inv :: "'s \<Rightarrow> bool"
  assumes init_inv: "init s \<Longrightarrow> inv s"
    and step_inv: "inv s \<Longrightarrow> step s t \<Longrightarrow> inv t"
begin

lemma run_inv:
  assumes "step\<^sup>*\<^sup>* s t" and "inv s"
  shows "inv t"
  using assms by (induction rule: rtranclp_induct) (auto intro: step_inv)

lemma reachable_inv: "init s \<Longrightarrow> step\<^sup>*\<^sup>* s t \<Longrightarrow> inv t"
  by (blast intro: run_inv init_inv)

end

locale terminating_system = step_system +
  fixes size_of :: "'s \<Rightarrow> nat"
  assumes step_size: "inv s \<Longrightarrow> step s t \<Longrightarrow> size_of t < size_of s"
begin

lemma run_length:
  assumes "(step ^^ k) s t" and "inv s"
  shows "k + size_of t \<le> size_of s"
  using assms
proof (induction k arbitrary: t)
  case 0
  then show ?case by simp
next
  case (Suc k)
  then obtain u where u: "(step ^^ k) s u" "step u t" by auto
  have "inv u" by (rule run_inv [OF relpowp_imp_rtranclp [OF u(1)] Suc.prems(2)])
  from step_size [OF this u(2)] Suc.IH [OF u(1) Suc.prems(2)] show ?case by simp
qed

end

locale deadlock_free_system = terminating_system +
  fixes finished :: "'s \<Rightarrow> bool"
  assumes progress: "inv s \<Longrightarrow> \<not> finished s \<Longrightarrow> \<exists>t. step s t"
    and finished_step: "inv s \<Longrightarrow> finished s \<Longrightarrow> step s t \<Longrightarrow> finished t"
begin

lemma can_finish:
  assumes "inv s"
  shows "\<exists>t. step\<^sup>*\<^sup>* s t \<and> finished t"
  using assms
proof (induction "size_of s" arbitrary: s rule: less_induct)
  case less
  show ?case
  proof (cases "finished s")
    case False
    then obtain t where t: "step s t" using progress less.prems by blast
    then obtain u where "step\<^sup>*\<^sup>* t u" "finished u"
      using less.hyps [of t] step_size step_inv less.prems by blast
    then show ?thesis using t by (meson converse_rtranclp_into_rtranclp)
  qed auto
qed

lemma stuck_finished: "inv s \<Longrightarrow> (\<And>t. \<not> step s t) \<Longrightarrow> finished s"
  using progress by blast

end

section \<open>Simulation\<close>

text \<open>
  A service takes requests one after the other; \<open>None\<close> is a request that is never answered. A run of an
  abstract system is a list of events.
\<close>

fun serve :: "('c \<Rightarrow> 'i \<Rightarrow> ('c \<times> 'o) option) \<Rightarrow> 'c \<Rightarrow> 'i list \<Rightarrow> ('c \<times> 'o list) option" where
  "serve exec c [] = Some (c, [])"
| "serve exec c (i # is) =
     (case exec c i of
        None \<Rightarrow> None
      | Some (c1, y) \<Rightarrow> (case serve exec c1 is of None \<Rightarrow> None | Some (c2, ys) \<Rightarrow> Some (c2, y # ys)))"

lemma serve_invariant:
  assumes "serve exec c is = Some (c', ys)" and "P c" and "\<And>c i c' y. exec c i = Some (c', y) \<Longrightarrow> P c \<Longrightarrow> P c'"
  shows "P c'"
  using assms(1,2) by (induction "is" arbitrary: c ys) (auto split: option.splits, blast intro: assms(3))

inductive spec_run :: "('a \<Rightarrow> 'e \<Rightarrow> 'a \<Rightarrow> bool) \<Rightarrow> 'a \<Rightarrow> 'e list \<Rightarrow> 'a \<Rightarrow> bool" for step where
  spec_run_Nil: "spec_run step a [] a"
| spec_run_Cons: "step a e b \<Longrightarrow> spec_run step b es c \<Longrightarrow> spec_run step a (e # es) c"

inductive_cases spec_run_ConsE: "spec_run step a (e # es) c"
inductive_cases spec_run_NilE: "spec_run step a [] c"

text \<open>
  A service simulates an abstract system when every request it admits is answered and its effect is
  an abstract step that explains the answer. The relation has a budget, the number of requests that can still be served.
\<close>

locale simulation =
  fixes rel :: "nat \<Rightarrow> 'a \<Rightarrow> 'c \<Rightarrow> bool"
    and step :: "'a \<Rightarrow> 'e \<Rightarrow> 'a \<Rightarrow> bool"
    and exec :: "'c \<Rightarrow> 'i \<Rightarrow> ('c \<times> 'o) option"
    and admits :: "'i \<Rightarrow> bool"
    and explains :: "'i \<Rightarrow> 'o \<Rightarrow> 'e \<Rightarrow> bool"
  assumes simulates: "rel (Suc k) a c \<Longrightarrow> admits i \<Longrightarrow>
    \<exists>c' y e a'. exec c i = Some (c', y) \<and> step a e a' \<and> rel k a' c' \<and> explains i y e"
begin

lemma serve_simulates:
  assumes "rel (length is) a c" and "list_all admits is"
  shows "\<exists>c' ys es a'. serve exec c is = Some (c', ys) \<and> spec_run step a es a' \<and> rel 0 a' c' \<and>
    length ys = length is \<and> list_all2 (\<lambda>(i, y) e. explains i y e) (zip is ys) es"
  using assms
proof (induction "is" arbitrary: a c)
  case Nil
  then show ?case by (auto intro: spec_run_Nil)
next
  case (Cons i "is")
  from Cons.prems obtain c1 y e a1 where one: "exec c i = Some (c1, y)" "step a e a1" "rel (length is) a1 c1" "explains i y e"
    using simulates [of "length is" a c i] by auto
  from Cons.IH [OF one(3)] Cons.prems(2) obtain c' ys es a' where rest: "serve exec c1 is = Some (c', ys)" "spec_run step a1 es a'" "rel 0 a' c'"
      "length ys = length is" "list_all2 (\<lambda>(i, y) e. explains i y e) (zip is ys) es"
    by auto
  have "serve exec c (i # is) = Some (c', y # ys)" using one(1) rest(1) by simp
  moreover have "spec_run step a (e # es) a'" by (rule spec_run_Cons [OF one(2) rest(2)])
  moreover have "list_all2 (\<lambda>(i, y) e. explains i y e) (zip (i # is) (y # ys)) (e # es)" using one(4) rest(5) by simp
  ultimately show ?case using rest(3,4) by (metis length_Cons)
qed

end

end
