(* ===== verification/Replication.thy ===== *)
theory Replication
  imports Go_Http Partition_Store Cluster_Layout Step_Systems
begin

text \<open>
  Replication of a record to the followers of its partition: the replicators
  (\<^verbatim>\<open>local_replicator.go\<close>, \<^verbatim>\<open>remote_replicator.go\<close>, \<^verbatim>\<open>replicator_factory.go\<close>), the HTTP
  transport between nodes (\<^verbatim>\<open>http_replication_transport.go\<close>), the counters
  (\<^verbatim>\<open>replication_metrics.go\<close>) and the coordinator (\<^verbatim>\<open>replication_coordinator.go\<close>), which starts one
  goroutine per follower and returns as soon as enough of them have succeeded.

  The coordinator is given twice. \<open>coordinator_step\<close> is the step relation of its goroutines, the
  result channel and the collecting loop, each atomic action a step.
  \<open>ReplicationCoordinator_Replicate\<close> is the value it returns for the
  replicators' answers in the order in which they arrive. The lemmas show that every interleaving ends, never blocks
  and returns the same value.
\<close>

section \<open>Replicators and transport\<close>

definition LocalReplicator_Replicate ::
  "go_error option \<Rightarrow> io \<Rightarrow> filesystem \<Rightarrow> PartitionStore \<Rightarrow> int \<Rightarrow> Record \<Rightarrow>
     filesystem \<times> PartitionStore \<times> go_error option" where
  "LocalReplicator_Replicate ctx io fs st pid r = PartitionStore_AppendRecord ctx io fs st pid r"

text \<open>The JSON encoder is an argument: \<open>marshal\<close> encodes the request's fields.\<close>

definition replication_url :: "string \<Rightarrow> Node \<Rightarrow> string" where
  "replication_url path node = TrimRight (node_Address node) (CHR ''/'') @ ''/'' @ TrimLeft path (CHR ''/'')"

definition HTTPReplicationTransport_Replicate ::
  "(int \<Rightarrow> Record \<Rightarrow> go_error + string) \<Rightarrow> network \<Rightarrow> string \<Rightarrow> Node \<Rightarrow> int \<Rightarrow> Record \<Rightarrow> go_error option" where
  "HTTPReplicationTransport_Replicate marshal net path node pid r =
     (case marshal pid r of
        Inl e \<Rightarrow> Some (Wrapf ''encode replication request: '' e [])
      | Inr payload \<Rightarrow>
          (let url = replication_url path node in
           case net_url_error net url of
             Some e \<Rightarrow> Some (Wrapf ''create replication request: '' e [])
           | None \<Rightarrow>
               (case net_do net (post_json url payload) of
                  Inl e \<Rightarrow> Some (Wrapf (''send replication request to '' @ url @ '': '') e [])
                | Inr resp \<Rightarrow>
                    if resp_StatusCode resp < 200 \<or> resp_StatusCode resp \<ge> 300 then
                      (let body = TrimSpace (limit_body 4096 (resp_Body resp));
                           message = (if body = [] then StatusText (resp_StatusCode resp) else body)
                       in Some (Errorf (''replication request to '' @ url @ '' failed: '' @ resp_Status resp @ '': '' @ message)))
                    else None)))"

record RemoteReplicator =
  rr_node :: Node

definition RemoteReplicator_Replicate ::
  "(Node \<Rightarrow> int \<Rightarrow> Record \<Rightarrow> go_error option) \<Rightarrow> RemoteReplicator \<Rightarrow> int \<Rightarrow> Record \<Rightarrow> go_error option" where
  "RemoteReplicator_Replicate transport rr pid r =
     (case transport (rr_node rr) pid r of
        Some e \<Rightarrow> Some (Wrapf (''replicate to node '' @ node_ID (rr_node rr) @ '': '') e [])
      | None \<Rightarrow> None)"

text \<open>\<^verbatim>\<open>nodeByID\<close>: a later node with the same ID overwrites an earlier one.\<close>

definition nodeByID :: "Node list \<Rightarrow> string \<rightharpoonup> Node" where
  "nodeByID nodes = foldl (\<lambda>m n. m(node_ID n \<mapsto> n)) Map.empty nodes"

definition ForPartition :: "Partition \<Rightarrow> Node list \<Rightarrow> RemoteReplicator list" where
  "ForPartition part nodes =
     concat (map (\<lambda>replica.
         if rep_Role replica \<noteq> ReplicaFollower then []
         else (case nodeByID nodes (rep_NodeID replica) of
             None \<Rightarrow> []
           | Some node \<Rightarrow> [\<lparr>rr_node = node\<rparr>])) (part_Replicas part))"

section \<open>The coordinator\<close>

record ReplicationMetrics =
  rm_Attempts :: uint64
  rm_Successes :: uint64
  rm_Failures :: uint64
  rm_QuorumFailures :: uint64

definition ReplicationMetrics_Snapshot :: "ReplicationMetrics \<Rightarrow> ReplicationMetrics" where
  "ReplicationMetrics_Snapshot m = m"

text \<open>The collecting loop over the results in the order they are received.\<close>

fun collect :: "int \<Rightarrow> nat \<Rightarrow> bool list \<Rightarrow> go_error option" where
  "collect required succeeded [] = Some ErrReplicationQuorum"
| "collect required succeeded (ok # results) =
     (if \<not> ok then collect required succeeded results
      else if required \<le> int (succeeded + 1) then None
      else collect required (succeeded + 1) results)"

definition ReplicationCoordinator_Replicate :: "int \<Rightarrow> bool list \<Rightarrow> go_error option" where
  "ReplicationCoordinator_Replicate required results =
     (if required \<le> 0 then None
      else if required > int (length results) then Some ErrReplicationQuorum
      else collect required 0 results)"

text \<open>
  One goroutine: started, its attempt counted and the call under way, answered, the answer counted,
  the answer sent to the channel.
\<close>

datatype replica_task = Started | Calling | Answered bool | Counted bool | Sent bool

record coordinator =
  co_tasks :: "replica_task list"
  co_metrics :: "ReplicationMetrics option"
  co_channel :: "bool list"
  co_received :: nat
  co_succeeded :: nat
  co_cancelled :: bool
  co_result :: "go_error option option"

definition add_attempt :: "ReplicationMetrics option \<Rightarrow> ReplicationMetrics option" where
  "add_attempt = map_option (\<lambda>m. m\<lparr>rm_Attempts := rm_Attempts m + 1\<rparr>)"

definition add_answer :: "bool \<Rightarrow> ReplicationMetrics option \<Rightarrow> ReplicationMetrics option" where
  "add_answer ok = map_option (\<lambda>m.
     if ok then m\<lparr>rm_Successes := rm_Successes m + 1\<rparr> else m\<lparr>rm_Failures := rm_Failures m + 1\<rparr>)"

definition add_quorum_failure :: "ReplicationMetrics option \<Rightarrow> ReplicationMetrics option" where
  "add_quorum_failure = map_option (\<lambda>m. m\<lparr>rm_QuorumFailures := rm_QuorumFailures m + 1\<rparr>)"

text \<open>
  \<open>outcome i\<close> says whether the \<open>i\<close>-th replicator succeeds when it is not cancelled. After the
  coordinator has returned it cancels the context, and a call still under way may fail instead.
  The channel's capacity is the number of replicators: a send needs room.
\<close>

inductive coordinator_step :: "(nat \<Rightarrow> bool) \<Rightarrow> int \<Rightarrow> coordinator \<Rightarrow> coordinator \<Rightarrow> bool"
  for outcome :: "nat \<Rightarrow> bool" and required :: int where
  attempt: "i < length (co_tasks s) \<Longrightarrow> co_tasks s ! i = Started \<Longrightarrow>
    coordinator_step outcome required s
      (s\<lparr>co_tasks := (co_tasks s)[i := Calling], co_metrics := add_attempt (co_metrics s)\<rparr>)"
| answer: "i < length (co_tasks s) \<Longrightarrow> co_tasks s ! i = Calling \<Longrightarrow> ok = outcome i \<or> co_cancelled s \<and> \<not> ok \<Longrightarrow>
    coordinator_step outcome required s (s\<lparr>co_tasks := (co_tasks s)[i := Answered ok]\<rparr>)"
| count: "i < length (co_tasks s) \<Longrightarrow> co_tasks s ! i = Answered ok \<Longrightarrow>
    coordinator_step outcome required s
      (s\<lparr>co_tasks := (co_tasks s)[i := Counted ok], co_metrics := add_answer ok (co_metrics s)\<rparr>)"
| send: "i < length (co_tasks s) \<Longrightarrow> co_tasks s ! i = Counted ok \<Longrightarrow> length (co_channel s) < length (co_tasks s) \<Longrightarrow>
    coordinator_step outcome required s
      (s\<lparr>co_tasks := (co_tasks s)[i := Sent ok], co_channel := co_channel s @ [ok]\<rparr>)"
| receive_failure: "co_result s = None \<Longrightarrow> co_received s < length (co_tasks s) \<Longrightarrow> co_channel s = False # rest \<Longrightarrow>
    coordinator_step outcome required s (s\<lparr>co_channel := rest, co_received := co_received s + 1\<rparr>)"
| receive_success: "co_result s = None \<Longrightarrow> co_received s < length (co_tasks s) \<Longrightarrow> co_channel s = True # rest \<Longrightarrow>
    int (co_succeeded s + 1) < required \<Longrightarrow>
    coordinator_step outcome required s
      (s\<lparr>co_channel := rest, co_received := co_received s + 1, co_succeeded := co_succeeded s + 1\<rparr>)"
| quorum: "co_result s = None \<Longrightarrow> co_received s < length (co_tasks s) \<Longrightarrow> co_channel s = True # rest \<Longrightarrow>
    required \<le> int (co_succeeded s + 1) \<Longrightarrow>
    coordinator_step outcome required s
      (s\<lparr>co_channel := rest, co_received := co_received s + 1, co_succeeded := co_succeeded s + 1,
         co_cancelled := True, co_result := Some None\<rparr>)"
| exhausted: "co_result s = None \<Longrightarrow> co_received s = length (co_tasks s) \<Longrightarrow>
    coordinator_step outcome required s
      (s\<lparr>co_metrics := add_quorum_failure (co_metrics s), co_cancelled := True,
         co_result := Some (Some ErrReplicationQuorum)\<rparr>)"

definition coordinator_start :: "nat \<Rightarrow> ReplicationMetrics option \<Rightarrow> coordinator" where
  "coordinator_start n metrics =
     \<lparr>co_tasks = replicate n Started, co_metrics = metrics, co_channel = [], co_received = 0,
      co_succeeded = 0, co_cancelled = False, co_result = None\<rparr>"

section \<open>The collecting loop\<close>

definition tally :: "('a \<Rightarrow> bool) \<Rightarrow> 'a list \<Rightarrow> nat" where
  "tally P xs = length (filter P xs)"

lemma tally_simps [simp]:
  "tally P [] = 0"
  "tally P (x # xs) = of_bool (P x) + tally P xs"
  "tally P (xs @ ys) = tally P xs + tally P ys"
  by (simp_all add: tally_def)

lemma tally_le: "tally P xs \<le> length xs"
  by (simp add: tally_def)

lemma tally_update:
  "i < length xs \<Longrightarrow> tally P (xs[i := v]) + of_bool (P (xs ! i)) = tally P xs + of_bool (P v)"
proof (induction xs arbitrary: i)
  case Nil
  then show ?case by simp
next
  case (Cons x xs)
  then show ?case by (cases i) (auto simp: algebra_simps)
qed

lemma tally_full: "tally P xs = length xs \<Longrightarrow> x \<in> set xs \<Longrightarrow> P x"
  by (metis filter_id_conv length_filter_less less_irrefl tally_def)

lemma tally_pointwise_le:
  assumes "length xs = n" and "\<And>i. i < n \<Longrightarrow> P (xs ! i) \<Longrightarrow> Q i"
  shows "tally P xs \<le> tally Q [0..<n]"
proof -
  have "tally P xs = tally (\<lambda>i. P (xs ! i)) [0..<n]"
    using assms(1) by (metis (no_types, lifting) comp_apply filter_cong filter_map length_map map_nth tally_def)
  also have "\<dots> \<le> tally Q [0..<n]"
    using assms(2) by (auto simp: tally_def distinct_length_filter intro!: card_mono)
  finally show ?thesis .
qed

lemma collect_result:
  "int k < required \<Longrightarrow> collect required k results =
    (if required \<le> int (k + tally id results) then None else Some ErrReplicationQuorum)"
proof (induction required k results rule: collect.induct)
  case (2 required k ok results)
  then show ?case by (cases "ok"; cases "required \<le> int (k + 1)") auto
qed simp

lemma Replicate_result:
  "ReplicationCoordinator_Replicate required results =
    (if required \<le> int (tally id results) then None else Some ErrReplicationQuorum)"
  using collect_result [of 0 required results] tally_le [of id results]
  by (auto simp: ReplicationCoordinator_Replicate_def)

section \<open>All interleavings\<close>

fun task_answer :: "replica_task \<Rightarrow> bool option" where
  "task_answer (Answered ok) = Some ok"
| "task_answer (Counted ok) = Some ok"
| "task_answer (Sent ok) = Some ok"
| "task_answer _ = None"

fun is_sent :: "replica_task \<Rightarrow> bool" where
  "is_sent (Sent ok) = True"
| "is_sent _ = False"

definition answers_ok :: "(nat \<Rightarrow> bool) \<Rightarrow> coordinator \<Rightarrow> bool" where
  "answers_ok outcome s \<longleftrightarrow>
     (\<forall>i < length (co_tasks s). \<forall>ok. task_answer (co_tasks s ! i) = Some ok \<longrightarrow>
        (ok \<longrightarrow> outcome i) \<and> (\<not> co_cancelled s \<longrightarrow> ok = outcome i))"

definition channel_ok :: "coordinator \<Rightarrow> bool" where
  "channel_ok s \<longleftrightarrow> co_received s + length (co_channel s) = tally is_sent (co_tasks s) \<and>
     co_succeeded s + tally id (co_channel s) = tally (\<lambda>t. t = Sent True) (co_tasks s)"

definition result_ok :: "int \<Rightarrow> coordinator \<Rightarrow> bool" where
  "result_ok required s \<longleftrightarrow>
     (case co_result s of
        None \<Rightarrow> \<not> co_cancelled s \<and> int (co_succeeded s) < required
      | Some None \<Rightarrow> required \<le> int (co_succeeded s)
      | Some (Some e) \<Rightarrow> e = ErrReplicationQuorum \<and> co_received s = length (co_tasks s) \<and> co_channel s = [] \<and>
          int (co_succeeded s) < required)"

definition complete_ok :: "(nat \<Rightarrow> bool) \<Rightarrow> coordinator \<Rightarrow> bool" where
  "complete_ok outcome s \<longleftrightarrow>
     (\<forall>e. co_result s = Some (Some e) \<longrightarrow> (\<forall>i < length (co_tasks s). co_tasks s ! i = Sent (outcome i)))"

definition coordinator_inv :: "(nat \<Rightarrow> bool) \<Rightarrow> int \<Rightarrow> nat \<Rightarrow> coordinator \<Rightarrow> bool" where
  "coordinator_inv outcome required n s \<longleftrightarrow>
     length (co_tasks s) = n \<and> answers_ok outcome s \<and> channel_ok s \<and> result_ok required s \<and> complete_ok outcome s"

inductive_cases coordinator_stepE: "coordinator_step outcome required s t"

lemma answers_ok_step: "answers_ok outcome s \<Longrightarrow> coordinator_step outcome required s t \<Longrightarrow> answers_ok outcome t"
  by (erule coordinator_stepE) (auto simp: answers_ok_def nth_list_update)

lemma channel_ok_step:
  assumes "channel_ok s" and "coordinator_step outcome required s t"
  shows "channel_ok t"
  using assms(2,1)
proof cases
  case (attempt i)
  with assms(1) tally_update [OF attempt(2), of is_sent Calling] tally_update [OF attempt(2), of "\<lambda>t. t = Sent True" Calling]
  show ?thesis by (simp add: channel_ok_def)
next
  case (answer i ok)
  with assms(1) tally_update [OF answer(2), of is_sent "Answered ok"] tally_update [OF answer(2), of "\<lambda>t. t = Sent True" "Answered ok"]
  show ?thesis by (simp add: channel_ok_def)
next
  case (count i ok)
  with assms(1) tally_update [OF count(2), of is_sent "Counted ok"] tally_update [OF count(2), of "\<lambda>t. t = Sent True" "Counted ok"]
  show ?thesis by (simp add: channel_ok_def)
next
  case (send i ok)
  with assms(1) tally_update [OF send(2), of is_sent "Sent ok"] tally_update [OF send(2), of "\<lambda>t. t = Sent True" "Sent ok"]
  show ?thesis by (simp add: channel_ok_def)
qed (use assms(1) in \<open>auto simp: channel_ok_def\<close>)

lemma channel_bound: "channel_ok s \<Longrightarrow> co_received s + length (co_channel s) \<le> length (co_tasks s)"
  using tally_le [of is_sent "co_tasks s"] by (simp add: channel_ok_def)

lemma all_sent:
  assumes "answers_ok outcome s" and "channel_ok s" and "co_received s = length (co_tasks s)"
    and "\<not> co_cancelled s" and "i < length (co_tasks s)"
  shows "co_tasks s ! i = Sent (outcome i)"
proof -
  have "tally is_sent (co_tasks s) = length (co_tasks s)"
    using assms(2,3) tally_le [of is_sent "co_tasks s"] by (simp add: channel_ok_def)
  then have "is_sent (co_tasks s ! i)" by (rule tally_full) (simp add: assms(5))
  with assms(1,4,5) show ?thesis by (cases "co_tasks s ! i") (auto simp: answers_ok_def)
qed

lemma coordinator_inv_step:
  assumes inv: "coordinator_inv outcome required n s" and step: "coordinator_step outcome required s t"
  shows "coordinator_inv outcome required n t"
proof -
  note ok = inv [unfolded coordinator_inv_def]
  have "length (co_tasks t) = n" using step ok by cases auto
  moreover have "answers_ok outcome t" using ok step by (blast intro: answers_ok_step)
  moreover have "channel_ok t" using ok step by (blast intro: channel_ok_step)
  moreover have "result_ok required t"
    using step ok channel_bound [of s]
    by cases (auto simp: result_ok_def complete_ok_def split: option.splits)
  moreover have "complete_ok outcome t"
    using step
  proof cases
    case exhausted
    then show ?thesis
      using ok by (auto simp: complete_ok_def result_ok_def intro!: all_sent)
  qed (use ok in \<open>auto simp: complete_ok_def nth_list_update\<close>)
  ultimately show ?thesis by (simp add: coordinator_inv_def)
qed

fun task_size :: "replica_task \<Rightarrow> nat" where
  "task_size Started = 5"
| "task_size Calling = 4"
| "task_size (Answered ok) = 3"
| "task_size (Counted ok) = 2"
| "task_size (Sent ok) = 0"

definition coordinator_size :: "coordinator \<Rightarrow> nat" where
  "coordinator_size s =
     sum_list (map task_size (co_tasks s)) + length (co_channel s) + of_bool (co_result s = None)"

lemma sum_list_map_update:
  fixes f :: "'a \<Rightarrow> nat"
  assumes "i < length xs"
  shows "sum_list (map f (xs[i := v])) + f (xs ! i) = sum_list (map f xs) + f v"
  using assms
proof (induction xs arbitrary: i)
  case Nil
  then show ?case by simp
next
  case (Cons x xs)
  then show ?case by (cases i) (auto simp: algebra_simps)
qed

lemma coordinator_step_size:
  assumes "coordinator_step outcome required s t"
  shows "coordinator_size t < coordinator_size s"
proof -
  note upd = sum_list_map_update [of _ "co_tasks s" task_size]
  from assms show ?thesis
  proof cases
    case (attempt i)
    then show ?thesis using upd [of i Calling] by (simp add: coordinator_size_def)
  next
    case (answer i ok)
    then show ?thesis using upd [of i "Answered ok"] by (simp add: coordinator_size_def)
  next
    case (count i ok)
    then show ?thesis using upd [of i "Counted ok"] by (simp add: coordinator_size_def)
  next
    case (send i ok)
    then show ?thesis using upd [of i "Sent ok"] by (simp add: coordinator_size_def)
  qed (simp_all add: coordinator_size_def)
qed

lemma unfinished_task:
  assumes "tally is_sent ts < length ts"
  shows "\<exists>i < length ts. \<not> is_sent (ts ! i)"
  using assms by (metis filter_True in_set_conv_nth less_irrefl tally_def)

text \<open>Until it has returned, the coordinator can make a step: nothing blocks, the send to the channel included.\<close>

lemma coordinator_progress:
  assumes inv: "coordinator_inv outcome required n s" and running: "co_result s = None"
  shows "\<exists>t. coordinator_step outcome required s t"
proof (cases "co_channel s")
  case (Cons ok rest)
  have "co_received s < length (co_tasks s)"
    using Cons inv channel_bound [of s] by (simp add: coordinator_inv_def)
  with Cons running show ?thesis
    by (cases ok; cases "required \<le> int (co_succeeded s + 1)")
       (auto simp: not_le dest: coordinator_step.receive_failure coordinator_step.receive_success
          coordinator_step.quorum)
next
  case Nil
  show ?thesis
  proof (cases "co_received s = length (co_tasks s)")
    case True
    then show ?thesis using running by (meson coordinator_step.exhausted)
  next
    case False
    then have "tally is_sent (co_tasks s) < length (co_tasks s)"
      using Nil inv tally_le [of is_sent "co_tasks s"] by (simp add: coordinator_inv_def channel_ok_def)
    then obtain i where i: "i < length (co_tasks s)" "\<not> is_sent (co_tasks s ! i)"
      using unfinished_task by blast
    have room: "length (co_channel s) < length (co_tasks s)" using Nil i(1) by auto
    from i room show ?thesis
      by (cases "co_tasks s ! i")
         (auto intro: coordinator_step.attempt coordinator_step.answer coordinator_step.count coordinator_step.send)
  qed
qed

lemma coordinator_start_inv: "0 < required \<Longrightarrow> coordinator_inv outcome required n (coordinator_start n m)"
  by (simp add: coordinator_inv_def coordinator_start_def answers_ok_def channel_ok_def result_ok_def
      complete_ok_def tally_def)

lemma coordinator_returned_step:
  "coordinator_step outcome required s t \<Longrightarrow> co_result s \<noteq> None \<Longrightarrow> co_result t = co_result s"
  by (erule coordinator_stepE) auto

interpretation rc: deadlock_free_system
  "\<lambda>s. 0 < required \<and> (\<exists>m. s = coordinator_start n m)" "coordinator_step outcome required"
  "coordinator_inv outcome required n" coordinator_size "\<lambda>s. co_result s \<noteq> None"
  for outcome required n
  by unfold_locales
     (auto simp: coordinator_start_inv coordinator_step_size coordinator_progress coordinator_returned_step
       intro: coordinator_inv_step)

lemma coordinator_start_size: "coordinator_size (coordinator_start n m) = 5 * n + 1"
  by (simp add: coordinator_size_def coordinator_start_def sum_list_replicate)

lemma coordinator_inv_result:
  assumes "coordinator_inv outcome required n s" and "co_result s = Some r"
  shows "r = (if required \<le> int (tally outcome [0..<n]) then None else Some ErrReplicationQuorum)"
proof -
  note ok = assms(1) [unfolded coordinator_inv_def]
  have le: "tally (\<lambda>t. t = Sent True) (co_tasks s) \<le> tally outcome [0..<n]"
    using ok by (intro tally_pointwise_le) (auto simp: answers_ok_def)
  show ?thesis
  proof (cases r)
    case None
    then have "required \<le> int (co_succeeded s)" using ok assms(2) by (simp add: result_ok_def)
    moreover have "co_succeeded s \<le> tally outcome [0..<n]"
      using le ok by (simp add: channel_ok_def)
    ultimately show ?thesis using None by simp
  next
    case (Some e)
    then have e: "e = ErrReplicationQuorum" "co_channel s = []" "int (co_succeeded s) < required"
      using ok assms(2) by (simp_all add: result_ok_def)
    have "co_tasks s = map (\<lambda>i. Sent (outcome i)) [0..<n]"
      using ok assms(2) Some by (intro nth_equalityI) (auto simp: complete_ok_def)
    then have "tally (\<lambda>t. t = Sent True) (co_tasks s) = tally outcome [0..<n]"
      by (simp add: tally_def filter_map comp_def)
    then show ?thesis using e Some ok by (simp add: channel_ok_def)
  qed
qed

section \<open>Properties of the coordinator\<close>

lemma tally_map: "tally id (map f xs) = tally f xs"
  by (simp add: tally_def filter_map comp_def)

text \<open>
  C12: However its goroutines interleave, the replication coordinator ends: for a valid quorum
  of \<open>n\<close> replicators no run has more than \<open>5 * n + 1\<close> steps, and every run continues until the coordinator has returned.
\<close>

theorem coordinator_terminates:
  assumes "0 < required" and "(coordinator_step outcome required ^^ k) (coordinator_start n m) s"
  shows "k \<le> 5 * n + 1 \<and> (co_result s \<noteq> None \<or> (\<exists>t. coordinator_step outcome required s t)) \<and>
    (\<exists>t. (coordinator_step outcome required)\<^sup>*\<^sup>* s t \<and> co_result t \<noteq> None)"
proof -
  have start: "coordinator_inv outcome required n (coordinator_start n m)"
    using assms(1) by (rule coordinator_start_inv)
  have inv: "coordinator_inv outcome required n s"
    by (rule rc.run_inv [OF relpowp_imp_rtranclp [OF assms(2)] start])
  from rc.run_length [OF assms(2) start] have "k \<le> 5 * n + 1"
    by (simp add: coordinator_start_size)
  moreover have "co_result s \<noteq> None \<or> (\<exists>t. coordinator_step outcome required s t)"
    using rc.progress [OF inv] by blast
  moreover have "\<exists>t. (coordinator_step outcome required)\<^sup>*\<^sup>* s t \<and> co_result t \<noteq> None"
    by (rule rc.can_finish [OF inv])
  ultimately show ?thesis by blast
qed

theorem coordinator_terminates_witness:
  "(\<exists>t. coordinator_step even 2 (coordinator_start 3 None) t) \<and>
    (\<exists>t r. (coordinator_step even 2)\<^sup>*\<^sup>* (coordinator_start 3 None) t \<and> co_result t = Some r)"
  using coordinator_terminates [of 2 0 even 3 None "coordinator_start 3 None"]
  by (auto simp: coordinator_start_def)

text \<open>
  C7: The value the coordinator returns does not depend on the interleaving. Every run that has
  returned gives nil if at least the required number of replicators succeed and
  \<^verbatim>\<open>ErrReplicationQuorum\<close> otherwise, the value that the collecting loop computes from the answers in any order of arrival.
\<close>

theorem coordinator_schedule_independent:
  assumes "0 < required" and "(coordinator_step outcome required)\<^sup>*\<^sup>* (coordinator_start n m) s"
    and "co_result s = Some r" and "mset arrivals = mset (map outcome [0..<n])"
  shows "r = ReplicationCoordinator_Replicate required arrivals \<and>
    (r = None \<longleftrightarrow> required \<le> int (card {i. i < n \<and> outcome i}))"
proof -
  have inv: "coordinator_inv outcome required n s"
    by (rule rc.reachable_inv [OF _ assms(2)]) (use assms(1) in blast)
  have "mset (filter id arrivals) = mset (filter id (map outcome [0..<n]))"
    using assms(4) by simp
  then have "tally id arrivals = tally outcome [0..<n]"
    by (metis size_mset tally_def tally_map)
  moreover have "tally outcome [0..<n] = card {i. i < n \<and> outcome i}"
    by (simp add: tally_def distinct_length_filter) (metis Collect_conj_eq Collect_mem_eq Int_commute atLeast0LessThan lessThan_def)
  ultimately show ?thesis
    using coordinator_inv_result [OF inv assms(3)] by (simp add: Replicate_result)
qed

theorem coordinator_schedule_independent_witness:
  "\<exists>s r. (coordinator_step even 2)\<^sup>*\<^sup>* (coordinator_start 3 None) s \<and> co_result s = Some r \<and>
    r = ReplicationCoordinator_Replicate 2 [False, True, True] \<and>
    (r = None \<longleftrightarrow> 2 \<le> int (card {i. i < 3 \<and> even (i :: nat)}))"
proof -
  obtain s r where s: "(coordinator_step even 2)\<^sup>*\<^sup>* (coordinator_start 3 None) s" "co_result s = Some r"
    using rc.can_finish [of even 2 3 "coordinator_start 3 None", OF coordinator_start_inv] by auto
  moreover have "mset [False, True, True] = mset (map even [0..<3 :: nat])"
    by (simp add: upt_rec numeral_3_eq_3)
  ultimately show ?thesis
    using coordinator_schedule_independent [OF _ s, of "[False, True, True]"] by auto
qed

text \<open>How the counters relate to the goroutines in every state of a run.\<close>

fun task_counted :: "bool \<Rightarrow> replica_task \<Rightarrow> bool" where
  "task_counted b (Counted ok) = (ok = b)"
| "task_counted b (Sent ok) = (ok = b)"
| "task_counted b _ = False"

definition counters_for :: "ReplicationMetrics \<Rightarrow> coordinator \<Rightarrow> ReplicationMetrics" where
  "counters_for base s =
     \<lparr>rm_Attempts = rm_Attempts base + of_nat (tally (\<lambda>t. t \<noteq> Started) (co_tasks s)),
      rm_Successes = rm_Successes base + of_nat (tally (task_counted True) (co_tasks s)),
      rm_Failures = rm_Failures base + of_nat (tally (task_counted False) (co_tasks s)),
      rm_QuorumFailures = rm_QuorumFailures base + of_bool (co_result s = Some (Some ErrReplicationQuorum))\<rparr>"

lemma counters_task_update:
  assumes "i < length (co_tasks s)"
  shows "rm_Attempts (counters_for base (s\<lparr>co_tasks := (co_tasks s)[i := v]\<rparr>)) + of_bool (co_tasks s ! i \<noteq> Started) =
      rm_Attempts (counters_for base s) + of_bool (v \<noteq> Started)"
    and "rm_Successes (counters_for base (s\<lparr>co_tasks := (co_tasks s)[i := v]\<rparr>)) + of_bool (task_counted True (co_tasks s ! i)) =
      rm_Successes (counters_for base s) + of_bool (task_counted True v)"
    and "rm_Failures (counters_for base (s\<lparr>co_tasks := (co_tasks s)[i := v]\<rparr>)) + of_bool (task_counted False (co_tasks s ! i)) =
      rm_Failures (counters_for base s) + of_bool (task_counted False v)"
    and "rm_QuorumFailures (counters_for base (s\<lparr>co_tasks := (co_tasks s)[i := v]\<rparr>)) = rm_QuorumFailures (counters_for base s)"
  using tally_update [OF assms, of "\<lambda>t. t \<noteq> Started" v, THEN arg_cong, of "of_nat :: nat \<Rightarrow> 64 word"]
    tally_update [OF assms, of "task_counted True" v, THEN arg_cong, of "of_nat :: nat \<Rightarrow> 64 word"]
    tally_update [OF assms, of "task_counted False" v, THEN arg_cong, of "of_nat :: nat \<Rightarrow> 64 word"]
  by (simp_all add: counters_for_def algebra_simps)

lemma counters_cong:
  "co_tasks s = co_tasks t \<Longrightarrow> co_result s = co_result t \<Longrightarrow> counters_for base s = counters_for base t"
  by (simp add: counters_for_def)

lemma counters_attempt:
  assumes "i < length (co_tasks s)" and "co_tasks s ! i = Started"
  shows "counters_for base (s\<lparr>co_tasks := (co_tasks s)[i := Calling]\<rparr>) =
    (counters_for base s)\<lparr>rm_Attempts := rm_Attempts (counters_for base s) + 1\<rparr>"
  by (rule ReplicationMetrics.equality)
     (use counters_task_update [OF assms(1), of base Calling] assms(2) in simp_all)

lemma counters_unchanged:
  assumes "i < length (co_tasks s)"
    and "co_tasks s ! i = Calling \<and> v = Answered ok \<or> co_tasks s ! i = Counted ok \<and> v = Sent ok"
  shows "counters_for base (s\<lparr>co_tasks := (co_tasks s)[i := v]\<rparr>) = counters_for base s"
  by (rule ReplicationMetrics.equality)
     (use counters_task_update [OF assms(1), of base v] assms(2) in auto)

lemma counters_counted:
  assumes "i < length (co_tasks s)" and "co_tasks s ! i = Answered ok"
  shows "Some (counters_for base (s\<lparr>co_tasks := (co_tasks s)[i := Counted ok]\<rparr>)) =
    add_answer ok (Some (counters_for base s))"
proof -
  note upd = counters_task_update [OF assms(1), of base "Counted ok"]
  have "counters_for base (s\<lparr>co_tasks := (co_tasks s)[i := Counted True]\<rparr>) =
      (counters_for base s)\<lparr>rm_Successes := rm_Successes (counters_for base s) + 1\<rparr>" if "ok"
    by (rule ReplicationMetrics.equality) (use upd assms(2) that in simp_all)
  moreover have "counters_for base (s\<lparr>co_tasks := (co_tasks s)[i := Counted False]\<rparr>) =
      (counters_for base s)\<lparr>rm_Failures := rm_Failures (counters_for base s) + 1\<rparr>" if "\<not> ok"
    by (rule ReplicationMetrics.equality) (use upd assms(2) that in simp_all)
  ultimately show ?thesis by (cases ok) (simp_all add: add_answer_def)
qed

lemma counters_ignore [simp]:
  "counters_for base (s\<lparr>co_metrics := m\<rparr>) = counters_for base s"
  "counters_for base (s\<lparr>co_channel := c\<rparr>) = counters_for base s"
  "counters_for base (s\<lparr>co_received := k\<rparr>) = counters_for base s"
  "counters_for base (s\<lparr>co_succeeded := k\<rparr>) = counters_for base s"
  "counters_for base (s\<lparr>co_cancelled := x\<rparr>) = counters_for base s"
  by (simp_all add: counters_for_def)

lemma counters_step:
  assumes "co_metrics s = Some (counters_for base s)" and "coordinator_step outcome required s t"
  shows "co_metrics t = Some (counters_for base t)"
  using assms(2)
proof cases
  case (attempt i)
  then show ?thesis
    using assms(1) counters_attempt [OF attempt(2,3), of base]
    by (simp add: add_attempt_def)
next
  case (answer i ok)
  then show ?thesis using assms(1) counters_unchanged [OF answer(2), of "Answered ok" ok] by simp
next
  case (count i ok)
  then show ?thesis
    using assms(1) counters_counted [OF count(2,3), of base] by (simp add: counters_for_def)
next
  case (send i ok)
  then show ?thesis
    using assms(1) counters_unchanged [OF send(2), of "Sent ok" ok base] by (simp add: counters_for_def)
qed (use assms(1) in \<open>simp_all add: counters_for_def add_quorum_failure_def\<close>)

lemma counters_run:
  assumes "(coordinator_step outcome required)\<^sup>*\<^sup>* (coordinator_start n (Some base)) s"
  shows "co_metrics s = Some (counters_for base s)"
  using assms
proof (induction rule: rtranclp_induct)
  case base
  then show ?case by (simp add: counters_for_def coordinator_start_def tally_def)
next
  case (step s t)
  then show ?case by (blast intro: counters_step)
qed


definition zero_metrics :: ReplicationMetrics where
  "zero_metrics = \<lparr>rm_Attempts = 0, rm_Successes = 0, rm_Failures = 0, rm_QuorumFailures = 0\<rparr>"

lemma failing_run:
  "\<exists>s. (coordinator_step (\<lambda>_. False) 1)\<^sup>*\<^sup>* (coordinator_start 2 (Some zero_metrics)) s \<and>
    (\<forall>t \<in> set (co_tasks s). is_sent t) \<and> co_result s = Some (Some ErrReplicationQuorum)"
proof -
  obtain s r where s: "(coordinator_step (\<lambda>_. False) 1)\<^sup>*\<^sup>* (coordinator_start 2 (Some zero_metrics)) s"
      "co_result s = Some r"
    using rc.can_finish [of "\<lambda>_. False" 1 2 "coordinator_start 2 (Some zero_metrics)", OF coordinator_start_inv] by auto
  have inv: "coordinator_inv (\<lambda>_. False) 1 2 s"
    by (rule rc.reachable_inv [OF _ s(1)]) auto
  have r: "r = Some ErrReplicationQuorum"
    using coordinator_inv_result [OF inv s(2)] by (simp add: tally_def split: if_splits)
  have "is_sent t" if "t \<in> set (co_tasks s)" for t
    using that inv s(2) by (auto simp: r coordinator_inv_def complete_ok_def in_set_conv_nth)
  with s r show ?thesis by blast
qed


section \<open>The followers of a partition\<close>

lemma nodeByID_mem:
  assumes "distinct (map node_ID nodes)" and "n \<in> set nodes"
  shows "nodeByID nodes (node_ID n) = Some n"
proof -
  have "foldl (\<lambda>m n. m(node_ID n \<mapsto> n)) m0 ns (node_ID n) =
      (if n \<in> set ns then Some n else if node_ID n \<in> node_ID ` set ns then undefined else m0 (node_ID n))"
    if "set ns \<subseteq> set nodes" "distinct (map node_ID ns)" for m0 ns
    using that assms
    by (induction ns arbitrary: m0) (auto simp: distinct_map inj_on_def split: if_splits)
  from this [of nodes Map.empty] assms show ?thesis by (simp add: nodeByID_def)
qed

text \<open>
  The leader replicates to the nodes of all other replicas of the partition, each once, in their order.
\<close>

lemma ForPartition_assigned:
  assumes "distinct (map node_ID nodes)" and "nodes \<noteq> []" and "0 \<le> p" and "p < pc" and "0 < rf"
    and "PartitionManager_Partition (NewPartitionManager n (AssignPartitions nodes pc rf)) p = Some part"
  shows "map rr_node (ForPartition part nodes) =
    map (\<lambda>i. nodes ! ((nat p + i) mod length nodes)) [Suc 0..<effective_factor nodes rf]"
proof -
  have part: "part = \<lparr>part_ID = p, part_Replicas = map (assign_replica nodes (nat p)) [0..<effective_factor nodes rf]\<rparr>"
    using assms(6) find_AssignPartitions [OF assms(3-5,2)]
    by (simp add: PartitionManager_Partition_def NewPartitionManager_def)
  have follower: "(if rep_Role (assign_replica nodes q i) \<noteq> ReplicaFollower then []
      else case nodeByID nodes (rep_NodeID (assign_replica nodes q i)) of
        None \<Rightarrow> [] | Some node \<Rightarrow> [\<lparr>rr_node = node\<rparr>]) =
      (if i = 0 then [] else [\<lparr>rr_node = nodes ! ((q + i) mod length nodes)\<rparr>])" for q i
    using nodeByID_mem [OF assms(1)] assms(2) by simp
  have "map rr_node (concat (map (\<lambda>i. if i = 0 then [] else [\<lparr>rr_node = f i\<rparr>]) [Suc 0..<k])) = map f [Suc 0..<k]" for f k
    by (induction k) auto
  moreover have "ForPartition part nodes =
      concat (map (\<lambda>i. if i = 0 then [] else [\<lparr>rr_node = nodes ! ((nat p + i) mod length nodes)\<rparr>])
        [0..<effective_factor nodes rf])"
    unfolding ForPartition_def part by (simp only: Partition.simps map_map comp_def follower)
  ultimately show ?thesis
    using effective_factor_pos [OF assms(5,2)] by (simp add: upt_conv_Cons)
qed

end
