(* ===== verification/Hash_Router.thy ===== *)
theory Hash_Router
  imports Codec Cluster_Layout
begin

text \<open>
  The partition router (\<^verbatim>\<open>hash_router.go\<close>): 32-bit FNV-1a over the topic, a zero byte and the
  routing key, reduced modulo the number of partitions. The hash is package \<^verbatim>\<open>hash/fnv\<close> of the
  standard library, modelled at its width. The lemmas show that routing succeeds exactly when there
  is a partition, stays within the list, and depends on nothing but the topic and the routing key.
\<close>

section \<open>FNV-1a\<close>

definition fnv_offset_basis :: "32 word" where
  "fnv_offset_basis = 2166136261"

definition fnv_prime :: "32 word" where
  "fnv_prime = 16777619"

definition fnv1a_byte :: "32 word \<Rightarrow> byte \<Rightarrow> 32 word" where
  "fnv1a_byte h b = (h XOR ucast b) * fnv_prime"

definition fnv1a_Write :: "32 word \<Rightarrow> bytes \<Rightarrow> 32 word" where
  "fnv1a_Write h bs = foldl fnv1a_byte h bs"

section \<open>Routing\<close>

text \<open>
  \<^verbatim>\<open>uint32(len(partitions))\<close> is zero for a list of 4294967296 partitions, and Go panics on a division by zero.
\<close>

definition Route :: "string \<Rightarrow> Message \<Rightarrow> Partition list \<Rightarrow> go_error + int" where
  "Route topic message partitions =
     (if partitions = [] then Inl ErrNoPartitions
      else (let hash = fnv1a_Write fnv_offset_basis (bytes_of_string topic);
                hash = fnv1a_Write hash [0];
                hash = fnv1a_Write hash (bytes_of_string (msg_RoutingKey message));
                n = (of_nat (length partitions) :: 32 word)
            in if n = 0 then Inl (GoPanic ''integer divide by zero'')
               else Inr (part_ID (partitions ! unat (hash mod n)))))"

text \<open>The published test vectors of FNV-1a.\<close>

lemma fnv1a_vectors:
  "fnv1a_Write fnv_offset_basis [] = 0x811c9dc5"
  "fnv1a_Write fnv_offset_basis (bytes_of_string ''a'') = 0xe40c292c"
  "fnv1a_Write fnv_offset_basis (bytes_of_string ''foobar'') = 0xbf9cf968"
  by code_simp+

lemma fnv1a_Write_append: "fnv1a_Write (fnv1a_Write h as) bs = fnv1a_Write h (as @ bs)"
  by (simp add: fnv1a_Write_def)

definition route_hash :: "string \<Rightarrow> string \<Rightarrow> 32 word" where
  "route_hash topic key = fnv1a_Write fnv_offset_basis (bytes_of_string topic @ [0] @ bytes_of_string key)"

lemma Route_eq:
  assumes "partitions \<noteq> []" and "length partitions < 2 ^ 32"
  shows "Route topic message partitions =
    Inr (part_ID (partitions ! (unat (route_hash topic (msg_RoutingKey message)) mod length partitions)))"
proof -
  have n: "unat (of_nat (length partitions) :: 32 word) = length partitions"
    using assms(2) by (simp add: unat_of_nat)
  then have "(of_nat (length partitions) :: 32 word) \<noteq> 0"
    using assms(1) by (metis length_0_conv unat_0)
  then show ?thesis
    using assms(1) by (simp add: Route_def Let_def fnv1a_Write_append route_hash_def unat_mod n)
qed

lemma Route_mem:
  assumes "partitions \<noteq> []" and "length partitions < 2 ^ 32"
  shows "\<exists>p \<in> set partitions. Route topic message partitions = Inr (part_ID p)"
  using Route_eq [OF assms] assms(1) by (metis length_greater_0_conv mod_less_divisor nth_mem)

lemma Route_Inr_mem:
  assumes "Route topic message partitions = Inr p"
  shows "p \<in> part_ID ` set partitions"
proof -
  let ?n = "of_nat (length partitions) :: 32 word"
  obtain h where h: "?n \<noteq> 0" "p = part_ID (partitions ! unat (h mod ?n))"
    using assms by (auto simp: Route_def Let_def split: if_splits)
  have "unat (h mod ?n) < unat ?n" using h(1) by (simp add: unat_mod unat_gt_0)
  also have "\<dots> \<le> length partitions" by (simp add: unat_of_nat)
  finally show ?thesis using h(2) by auto
qed

lemma Route_key: "msg_RoutingKey m = msg_RoutingKey m' \<Longrightarrow> Route topic m ps = Route topic m' ps"
  by (simp add: Route_def)

text \<open>
  C21: Routing over the layout a cluster builds always names one of its partitions, 0 to \<open>pc - 1\<close>, and the partition
  is a function of topic and routing key alone, so that a GPU's records all go to the same
  partition whatever their ID and payload are and whichever node routes them.
\<close>

theorem route_total_and_key_stable:
  assumes "0 < pc" and "pc < 2 ^ 32" and "0 < rf" and "nodes \<noteq> []"
  shows "\<exists>p. 0 \<le> p \<and> p < pc \<and>
    (\<forall>m. msg_RoutingKey m = key \<longrightarrow> Route topic m (AssignPartitions nodes pc rf) = Inr p)"
proof -
  let ?ps = "AssignPartitions nodes pc rf"
  have len: "length ?ps = nat pc" using assms by (simp add: AssignPartitions_eq)
  then have ps: "?ps \<noteq> []" "length ?ps < 2 ^ 32" using assms(1,2) by auto
  let ?i = "unat (route_hash topic key) mod length ?ps"
  have i: "?i < length ?ps" using ps(1) by simp
  then have id: "part_ID (?ps ! ?i) = int ?i" using assms len by (simp add: AssignPartitions_eq)
  have "Route topic m ?ps = Inr (int ?i)" if "msg_RoutingKey m = key" for m
    using that id by (simp add: Route_eq [OF ps])
  moreover have "int ?i < pc" using i len assms(1) by linarith
  ultimately show ?thesis by (intro exI [of _ "int ?i"]) simp
qed

theorem route_total_and_key_stable_witness:
  "\<exists>p. 0 \<le> p \<and> p < 4 \<and> Route ''gpu'' sample_message (AssignPartitions sample_nodes 4 2) = Inr p \<and>
     Route ''gpu'' (sample_message\<lparr>msg_ID := ''other''\<rparr>) (AssignPartitions sample_nodes 4 2) = Inr p"
  using route_total_and_key_stable [of 4 2 sample_nodes "msg_RoutingKey sample_message" "''gpu''"] by auto

end
