(* ===== verification/Consumers.thy ===== *)
theory Consumers
  imports Go_Std Step_Systems "HOL-Library.Mapping" "HOL-Library.Char_ord" "HOL-Library.List_Lexorder"
begin

text \<open>
  The consumer side of the queue's runtime (\<^verbatim>\<open>consumerState\<close> of \<^verbatim>\<open>runtime.go\<close>): for every consumer
  group and partition the next offset to deliver and the delivery in flight, and an index of the
  deliveries in flight by message ID. Every method holds the state's lock from its first to its last
  line, so a method is one step; \<open>consumer_step\<close> is the relation of all methods with all arguments, the
  interleavings of any number of callers.
\<close>

section \<open>State\<close>

record deliveryState =
  ds_messageID :: string
  ds_groupKey :: string
  ds_partitionID :: int
  ds_offset :: Offset

record partitionConsumerState =
  pc_nextOffset :: Offset
  pc_inflight :: "deliveryState option"

record subscriptionState =
  ss_partitions :: "(int, partitionConsumerState) mapping"

record consumerState =
  cs_subscriptions :: "(string, subscriptionState) mapping"
  cs_inflight :: "(string, deliveryState) mapping"

record RuntimeConsumerPartitionStats =
  cps_PartitionID :: int
  cps_NextOffset :: Offset
  cps_Inflight :: bool

record RuntimeConsumerStats =
  rcs_Topic :: string
  rcs_Group :: string
  rcs_Partitions :: "RuntimeConsumerPartitionStats list"

definition new_consumers :: consumerState where
  "new_consumers = \<lparr>cs_subscriptions = Mapping.empty, cs_inflight = Mapping.empty\<rparr>"

section \<open>Operations\<close>

definition consumerKey :: "string \<Rightarrow> string \<Rightarrow> string" where
  "consumerKey topic grp = topic @ [CHR 0x00] @ grp"

fun splitConsumerKey :: "string \<Rightarrow> string \<times> string" where
  "splitConsumerKey [] = ([], [])"
| "splitConsumerKey (c # key) =
     (if c = CHR 0x00 then ([], key) else (let (topic, grp) = splitConsumerKey key in (c # topic, grp)))"

definition fresh_partition :: partitionConsumerState where
  "fresh_partition = \<lparr>pc_nextOffset = 0, pc_inflight = None\<rparr>"

text \<open>A write through the pointer that \<^verbatim>\<open>ensurePartition\<close> returns.\<close>

definition set_partition :: "consumerState \<Rightarrow> string \<Rightarrow> int \<Rightarrow> partitionConsumerState \<Rightarrow> consumerState" where
  "set_partition s groupKey pid p =
     (case Mapping.lookup (cs_subscriptions s) groupKey of
        None \<Rightarrow> s
      | Some subscription \<Rightarrow>
          s\<lparr>cs_subscriptions := Mapping.update groupKey
              (subscription\<lparr>ss_partitions := Mapping.update pid p (ss_partitions subscription)\<rparr>)
              (cs_subscriptions s)\<rparr>)"

definition ensurePartition ::
  "consumerState \<Rightarrow> string \<Rightarrow> int \<Rightarrow> consumerState \<times> partitionConsumerState" where
  "ensurePartition s groupKey pid =
     (let s1 = (case Mapping.lookup (cs_subscriptions s) groupKey of
            None \<Rightarrow> s\<lparr>cs_subscriptions :=
              Mapping.update groupKey \<lparr>ss_partitions = Mapping.empty\<rparr> (cs_subscriptions s)\<rparr>
          | Some _ \<Rightarrow> s);
          subscription = the (Mapping.lookup (cs_subscriptions s1) groupKey)
      in case Mapping.lookup (ss_partitions subscription) pid of
           None \<Rightarrow> (set_partition s1 groupKey pid fresh_partition, fresh_partition)
         | Some p \<Rightarrow> (s1, p))"

definition nextOffset :: "consumerState \<Rightarrow> string \<Rightarrow> int \<Rightarrow> consumerState \<times> Offset \<times> bool" where
  "nextOffset s groupKey pid =
     (case ensurePartition s groupKey pid of (s1, p) \<Rightarrow>
        if pc_inflight p \<noteq> None then (s1, 0, True) else (s1, pc_nextOffset p, False))"

definition skip :: "consumerState \<Rightarrow> string \<Rightarrow> int \<Rightarrow> Offset \<Rightarrow> consumerState" where
  "skip s groupKey pid next =
     (case ensurePartition s groupKey pid of (s1, p) \<Rightarrow>
        if pc_inflight p \<noteq> None then s1 else set_partition s1 groupKey pid (p\<lparr>pc_nextOffset := next\<rparr>))"

definition markInflight ::
  "consumerState \<Rightarrow> string \<Rightarrow> int \<Rightarrow> Offset \<Rightarrow> string \<Rightarrow> consumerState \<times> bool" where
  "markInflight s groupKey pid offset messageID =
     (case ensurePartition s groupKey pid of (s1, p) \<Rightarrow>
        if pc_inflight p \<noteq> None then (s1, False)
        else (let delivery = \<lparr>ds_messageID = messageID, ds_groupKey = groupKey, ds_partitionID = pid, ds_offset = offset\<rparr>;
                  s2 = set_partition s1 groupKey pid (p\<lparr>pc_inflight := Some delivery\<rparr>)
              in (s2\<lparr>cs_inflight := Mapping.update messageID delivery (cs_inflight s2)\<rparr>, True)))"

definition ack :: "consumerState \<Rightarrow> string \<Rightarrow> consumerState \<times> go_error option" where
  "ack s messageID =
     (case Mapping.lookup (cs_inflight s) messageID of
        None \<Rightarrow> (s, Some ErrMessageNotInflight)
      | Some delivery \<Rightarrow>
          (case ensurePartition s (ds_groupKey delivery) (ds_partitionID delivery) of (s1, p) \<Rightarrow>
             if pc_inflight p = None \<or> ds_messageID (the (pc_inflight p)) \<noteq> messageID then
               (s1\<lparr>cs_inflight := Mapping.delete messageID (cs_inflight s1)\<rparr>, Some ErrMessageNotInflight)
             else
               (let s2 = set_partition s1 (ds_groupKey delivery) (ds_partitionID delivery)
                      (p\<lparr>pc_nextOffset := ds_offset delivery + 1, pc_inflight := None\<rparr>)
                in (s2\<lparr>cs_inflight := Mapping.delete messageID (cs_inflight s2)\<rparr>, None))))"

definition inflightCount :: "consumerState \<Rightarrow> nat" where
  "inflightCount s = Mapping.size (cs_inflight s)"

definition snapshot :: "consumerState \<Rightarrow> RuntimeConsumerStats list" where
  "snapshot s =
     map (\<lambda>key.
        let (topic, grp) = splitConsumerKey key;
            subscription = the (Mapping.lookup (cs_subscriptions s) key)
        in \<lparr>rcs_Topic = topic, rcs_Group = grp,
            rcs_Partitions = map (\<lambda>pid.
                let p = the (Mapping.lookup (ss_partitions subscription) pid)
                in \<lparr>cps_PartitionID = pid, cps_NextOffset = pc_nextOffset p, cps_Inflight = (pc_inflight p \<noteq> None)\<rparr>)
              (Mapping.ordered_keys (ss_partitions subscription))\<rparr>)
       (Mapping.ordered_keys (cs_subscriptions s))"

section \<open>The state as the groups see it\<close>

lemma lookup_delete_if: "Mapping.lookup (Mapping.delete k m) k' = (if k' = k then None else Mapping.lookup m k')"
  by (simp add: lookup_delete_neq)

text \<open>
  What a group holds of a partition; a partition that no method has touched yet is as
  \<^verbatim>\<open>ensurePartition\<close> creates it.
\<close>

definition view :: "consumerState \<Rightarrow> string \<Rightarrow> int \<Rightarrow> partitionConsumerState" where
  "view s groupKey pid =
     (case Mapping.lookup (cs_subscriptions s) groupKey of
        None \<Rightarrow> fresh_partition
      | Some subscription \<Rightarrow>
          (case Mapping.lookup (ss_partitions subscription) pid of None \<Rightarrow> fresh_partition | Some p \<Rightarrow> p))"

abbreviation in_flight :: "consumerState \<Rightarrow> string \<Rightarrow> int \<Rightarrow> deliveryState option" where
  "in_flight s groupKey pid \<equiv> pc_inflight (view s groupKey pid)"

lemma lookup_ensure_subscription:
  "\<exists>subscription. Mapping.lookup (cs_subscriptions (fst (ensurePartition s g p))) g = Some subscription"
  by (auto simp: ensurePartition_def set_partition_def Let_def lookup_update' split: option.splits)

lemma view_set_partition:
  assumes "Mapping.lookup (cs_subscriptions s) g = Some subscription"
  shows "view (set_partition s g p v) g' p' = (if g' = g \<and> p' = p then v else view s g' p')"
  using assms by (auto simp: view_def set_partition_def lookup_update' split: option.splits)

lemma cs_inflight_set_partition [consumer_simps]: "cs_inflight (set_partition s g p v) = cs_inflight s"
  by (simp add: set_partition_def split: option.splits)

lemma view_ensure [consumer_simps]: "view (fst (ensurePartition s g p)) g' p' = view s g' p'"
  by (auto simp: ensurePartition_def view_def set_partition_def Let_def lookup_update' split: option.splits)

lemma snd_ensure [consumer_simps]: "snd (ensurePartition s g p) = view s g p"
  by (auto simp: ensurePartition_def view_def set_partition_def Let_def lookup_update' split: option.splits)

lemma cs_inflight_ensure [consumer_simps]: "cs_inflight (fst (ensurePartition s g p)) = cs_inflight s"
  by (auto simp: ensurePartition_def set_partition_def Let_def split: option.splits)

lemma view_set_ensured [consumer_simps]:
  "view (set_partition (fst (ensurePartition s g p)) g p v) g' p' =
    (if g' = g \<and> p' = p then v else view s g' p')"
  using lookup_ensure_subscription [of s g p] by (auto simp: view_set_partition view_ensure)

lemma view_cs_inflight [simp]: "view (s\<lparr>cs_inflight := m\<rparr>) g p = view s g p"
  by (simp add: view_def)

lemma view_new [simp]: "view new_consumers g p = fresh_partition"
  by (simp add: view_def new_consumers_def lookup_empty)

lemma nextOffset_eq:
  "nextOffset s g p =
    (fst (ensurePartition s g p), if in_flight s g p \<noteq> None then (0, True) else (pc_nextOffset (view s g p), False))"
  by (simp add: nextOffset_def case_prod_unfold consumer_simps)

lemma view_nextOffset [consumer_simps]: "view (fst (nextOffset s g p)) g' p' = view s g' p'"
  by (simp add: nextOffset_eq consumer_simps)

lemma cs_inflight_nextOffset [consumer_simps]: "cs_inflight (fst (nextOffset s g p)) = cs_inflight s"
  by (simp add: nextOffset_eq consumer_simps)

lemma view_skip [consumer_simps]:
  "view (skip s g p next) g' p' =
    (if g' = g \<and> p' = p \<and> in_flight s g p = None then (view s g p)\<lparr>pc_nextOffset := next\<rparr> else view s g' p')"
  by (auto simp: skip_def case_prod_unfold consumer_simps)

lemma cs_inflight_skip [consumer_simps]: "cs_inflight (skip s g p next) = cs_inflight s"
  by (simp add: skip_def case_prod_unfold consumer_simps)

definition delivery :: "string \<Rightarrow> int \<Rightarrow> Offset \<Rightarrow> string \<Rightarrow> deliveryState" where
  "delivery g p offset mid = \<lparr>ds_messageID = mid, ds_groupKey = g, ds_partitionID = p, ds_offset = offset\<rparr>"

lemma delivery_simps [simp]:
  "ds_messageID (delivery g p offset mid) = mid" "ds_groupKey (delivery g p offset mid) = g"
  "ds_partitionID (delivery g p offset mid) = p" "ds_offset (delivery g p offset mid) = offset"
  by (simp_all add: delivery_def)

lemma markInflight_result [consumer_simps]: "snd (markInflight s g p offset mid) \<longleftrightarrow> in_flight s g p = None"
  by (simp add: markInflight_def case_prod_unfold Let_def consumer_simps)

lemma view_markInflight [consumer_simps]:
  "view (fst (markInflight s g p offset mid)) g' p' =
    (if g' = g \<and> p' = p \<and> in_flight s g p = None
     then (view s g p)\<lparr>pc_inflight := Some (delivery g p offset mid)\<rparr> else view s g' p')"
  by (auto simp: markInflight_def case_prod_unfold Let_def consumer_simps delivery_def)

lemma cs_inflight_markInflight [consumer_simps]:
  "cs_inflight (fst (markInflight s g p offset mid)) =
    (if in_flight s g p = None then Mapping.update mid (delivery g p offset mid) (cs_inflight s) else cs_inflight s)"
  by (simp add: markInflight_def case_prod_unfold Let_def consumer_simps delivery_def)

definition acknowledges :: "consumerState \<Rightarrow> string \<Rightarrow> deliveryState \<Rightarrow> bool" where
  "acknowledges s mid d \<longleftrightarrow> Mapping.lookup (cs_inflight s) mid = Some d \<and>
     (\<exists>d'. in_flight s (ds_groupKey d) (ds_partitionID d) = Some d' \<and> ds_messageID d' = mid)"

lemma ack_cases:
  fixes s :: consumerState
  obtains (unknown) "Mapping.lookup (cs_inflight s) mid = None" "ack s mid = (s, Some ErrMessageNotInflight)"
  | (stale) d and s' :: consumerState where "Mapping.lookup (cs_inflight s) mid = Some d" "\<not> acknowledges s mid d"
      "ack s mid = (s', Some ErrMessageNotInflight)" "\<And>g p. view s' g p = view s g p"
      "cs_inflight s' = Mapping.delete mid (cs_inflight s)"
  | (acked) d and s' :: consumerState where "acknowledges s mid d" "ack s mid = (s', None)"
      "\<And>g p. view s' g p = (if g = ds_groupKey d \<and> p = ds_partitionID d
         then \<lparr>pc_nextOffset = ds_offset d + 1, pc_inflight = None\<rparr> else view s g p)"
      "cs_inflight s' = Mapping.delete mid (cs_inflight s)"
proof (cases "Mapping.lookup (cs_inflight s) mid")
  case None
  then show ?thesis by (intro unknown) (simp_all add: ack_def)
next
  case (Some d)
  let ?s1 = "fst (ensurePartition s (ds_groupKey d) (ds_partitionID d))"
  show ?thesis
  proof (cases "acknowledges s mid d")
    case True
    let ?s2 = "set_partition ?s1 (ds_groupKey d) (ds_partitionID d)
      ((view s (ds_groupKey d) (ds_partitionID d))\<lparr>pc_nextOffset := ds_offset d + 1, pc_inflight := None\<rparr>)"
    show ?thesis
      by (rule acked [OF True, of "?s2\<lparr>cs_inflight := Mapping.delete mid (cs_inflight s)\<rparr>"])
         (use Some True in \<open>auto simp: ack_def acknowledges_def case_prod_unfold Let_def consumer_simps\<close>)
  next
    case False
    show ?thesis
      by (rule stale [OF Some False, of "?s1\<lparr>cs_inflight := Mapping.delete mid (cs_inflight s)\<rparr>"])
         (use Some False in \<open>auto simp: ack_def acknowledges_def case_prod_unfold Let_def consumer_simps\<close>)
  qed
qed

lemma ack_marked [consumer_simps]:
  assumes "in_flight s g p = None"
  shows "snd (ack (fst (markInflight s g p offset mid)) mid) = None"
    and "view (fst (ack (fst (markInflight s g p offset mid)) mid)) g' p' =
      (if g' = g \<and> p' = p then \<lparr>pc_nextOffset = offset + 1, pc_inflight = None\<rparr> else view s g' p')"
proof -
  let ?t = "fst (markInflight s g p offset mid)"
  have t: "acknowledges ?t mid (delivery g p offset mid)"
    using assms by (simp add: acknowledges_def consumer_simps lookup_update)
  then have "snd (ack ?t mid) = None \<and> view (fst (ack ?t mid)) g' p' =
      (if g' = g \<and> p' = p then \<lparr>pc_nextOffset = offset + 1, pc_inflight = None\<rparr> else view ?t g' p')"
    by (cases rule: ack_cases [where s = ?t and mid = mid]) (auto simp: acknowledges_def)
  then show "snd (ack ?t mid) = None" "view (fst (ack ?t mid)) g' p' =
      (if g' = g \<and> p' = p then \<lparr>pc_nextOffset = offset + 1, pc_inflight = None\<rparr> else view s g' p')"
    using assms by (auto simp: consumer_simps)
qed

section \<open>Interleavings\<close>

inductive consumer_step :: "consumerState \<Rightarrow> consumerState \<Rightarrow> bool" where
  next_offset: "consumer_step s (fst (nextOffset s g p))"
| skipped: "consumer_step s (skip s g p next)"
| marked: "consumer_step s (fst (markInflight s g p offset mid))"
| acked: "consumer_step s (fst (ack s mid))"

inductive_cases consumer_stepE: "consumer_step s t"

text \<open>
  The index is sound: every entry is under the ID of its delivery, and it is the delivery
  that the group holds of its partition.
\<close>

definition index_sound :: "consumerState \<Rightarrow> bool" where
  "index_sound s \<longleftrightarrow>
     (\<forall>mid d. Mapping.lookup (cs_inflight s) mid = Some d \<longrightarrow>
        ds_messageID d = mid \<and> in_flight s (ds_groupKey d) (ds_partitionID d) = Some d) \<and>
     (\<forall>g p d. in_flight s g p = Some d \<longrightarrow> ds_groupKey d = g \<and> ds_partitionID d = p)"

lemma index_sound_new: "index_sound new_consumers"
  by (simp add: index_sound_def fresh_partition_def) (simp add: new_consumers_def lookup_empty)

lemma index_sound_acknowledges:
  "index_sound s \<Longrightarrow> Mapping.lookup (cs_inflight s) mid = Some d \<Longrightarrow> acknowledges s mid d"
  by (auto simp: index_sound_def acknowledges_def)

lemma index_sound_cong:
  "(\<And>g p. in_flight t g p = in_flight s g p) \<Longrightarrow> cs_inflight t = cs_inflight s \<Longrightarrow> index_sound s \<Longrightarrow> index_sound t"
  by (simp add: index_sound_def)

lemma index_sound_mark: "index_sound s \<Longrightarrow> index_sound (fst (markInflight s g p offset mid))"
  unfolding index_sound_def by (auto simp: consumer_simps lookup_update' split: if_splits)

lemma index_sound_ack:
  assumes "index_sound s"
  shows "index_sound (fst (ack s mid))"
proof (cases rule: ack_cases [where s = s and mid = mid])
  case unknown
  with assms show ?thesis by simp
next
  case (stale d s')
  with assms show ?thesis by (blast dest: index_sound_acknowledges)
next
  case (acked d s')
  have "(ds_groupKey e, ds_partitionID e) \<noteq> (ds_groupKey d, ds_partitionID d)"
    if "Mapping.lookup (cs_inflight s) m = Some e" "m \<noteq> mid" for m e
    using that assms acked(1) unfolding index_sound_def acknowledges_def by (metis option.inject prod.inject)
  with acked assms show ?thesis
    unfolding index_sound_def by (auto simp: lookup_delete_if split: if_splits)
qed

lemma index_sound_step:
  assumes "index_sound s" and "consumer_step s t"
  shows "index_sound t"
  using assms(2)
proof cases
  case (next_offset g p)
  show ?thesis by (rule index_sound_cong [OF _ _ assms(1)]) (simp_all add: next_offset consumer_simps)
next
  case (skipped g p n)
  show ?thesis by (rule index_sound_cong [OF _ _ assms(1)]) (simp_all add: skipped consumer_simps)
qed (use assms(1) in \<open>simp_all add: index_sound_mark index_sound_ack\<close>)

interpretation cs: step_system "\<lambda>s. s = new_consumers" consumer_step index_sound
  by unfold_locales (auto simp: index_sound_new intro: index_sound_step)

text \<open>A group whose delivery has lost its index entry.\<close>

definition stranded :: "string \<Rightarrow> int \<Rightarrow> consumerState \<Rightarrow> bool" where
  "stranded g p s \<longleftrightarrow> index_sound s \<and>
     (\<exists>d. in_flight s g p = Some d \<and>
        (\<forall>mid e. Mapping.lookup (cs_inflight s) mid = Some e \<longrightarrow> ds_groupKey e \<noteq> g \<or> ds_partitionID e \<noteq> p))"

lemma stranded_step:
  assumes "stranded g p s" and "consumer_step s t"
  shows "stranded g p t"
proof -
  have t: "index_sound t" using assms index_sound_step by (auto simp: stranded_def)
  obtain d where d: "in_flight s g p = Some d"
      "\<And>mid e. Mapping.lookup (cs_inflight s) mid = Some e \<Longrightarrow> ds_groupKey e \<noteq> g \<or> ds_partitionID e \<noteq> p"
    using assms(1) by (auto simp: stranded_def)
  from assms(2) have "in_flight t g p = Some d \<and>
      (\<forall>mid e. Mapping.lookup (cs_inflight t) mid = Some e \<longrightarrow> ds_groupKey e \<noteq> g \<or> ds_partitionID e \<noteq> p)"
  proof cases
    case (acked mid)
    then show ?thesis
      by (cases rule: ack_cases [where s = s and mid = mid]) (use d in \<open>auto simp: lookup_delete_if acknowledges_def split: if_splits\<close>)
  qed (use d in \<open>auto simp: consumer_simps lookup_update' split: if_splits\<close>)
  with t show ?thesis by (auto simp: stranded_def)
qed

interpretation stuck: step_system "stranded g p" consumer_step "stranded g p" for g p
  by unfold_locales (auto intro: stranded_step)

section \<open>Properties of the consumer state\<close>

text \<open>
  C9: In every state that any interleaving of the consumer methods reaches, an acknowledgement
  succeeds exactly for the message IDs in the in-flight index, and it then frees exactly the partition of
  that delivery, in its group, at the offset after the delivered one, and removes the ID from the index, so that a second
  acknowledgement fails. Every other group and partition is as before.
\<close>

theorem ack_exact:
  assumes "consumer_step\<^sup>*\<^sup>* new_consumers s"
  shows "case Mapping.lookup (cs_inflight s) mid of
      None \<Rightarrow> ack s mid = (s, Some ErrMessageNotInflight)
    | Some d \<Rightarrow> (\<exists>t. ack s mid = (t, None) \<and>
        in_flight s (ds_groupKey d) (ds_partitionID d) = Some d \<and>
        (\<forall>g p. view t g p = (if g = ds_groupKey d \<and> p = ds_partitionID d
           then \<lparr>pc_nextOffset = ds_offset d + 1, pc_inflight = None\<rparr> else view s g p)) \<and>
        Mapping.lookup (cs_inflight t) mid = None \<and> ack t mid = (t, Some ErrMessageNotInflight))"
proof -
  have inv: "index_sound s" by (rule cs.reachable_inv [OF refl assms])
  show ?thesis
  proof (cases rule: ack_cases [where s = s and mid = mid])
    case unknown
    then show ?thesis by simp
  next
    case (stale d s')
    with inv show ?thesis by (blast dest: index_sound_acknowledges)
  next
    case (acked d s')
    then have "Mapping.lookup (cs_inflight s') mid = None" by (simp add: lookup_delete)
    moreover have "in_flight s (ds_groupKey d) (ds_partitionID d) = Some d"
      using acked(1) inv by (auto simp: acknowledges_def index_sound_def)
    ultimately show ?thesis using acked by (simp add: acknowledges_def ack_def)
  qed
qed

lemma marked_run: "consumer_step\<^sup>*\<^sup>* s (fst (markInflight s g p offset mid))"
  by (blast intro: consumer_step.marked)

theorem ack_exact_witness:
  "\<exists>t. ack (fst (markInflight new_consumers ''g'' 0 7 ''m'')) ''m'' = (t, None) \<and>
     view t ''g'' 0 = \<lparr>pc_nextOffset = 8, pc_inflight = None\<rparr>"
proof -
  have "Mapping.lookup (cs_inflight (fst (markInflight new_consumers ''g'' 0 7 ''m''))) ''m'' = Some (delivery ''g'' 0 7 ''m'')"
    by (simp add: consumer_simps fresh_partition_def lookup_update)
  with ack_exact [OF marked_run, of "''g''" 0 7 "''m''" "''m''"] show ?thesis by auto
qed

text \<open>
  C18: The in-flight index is keyed by the message ID alone, although every consumer group
  reads every message. When two groups hold a message with the same ID at once, the second delivery
  replaces the first one's index entry, and the first group's partition stays in flight whatever is called afterwards:
  no sequence of acknowledgements, polls and skips lets the group read the partition again.
\<close>

theorem shared_message_strands_group:
  assumes "consumer_step\<^sup>*\<^sup>* new_consumers s" and "in_flight s g p = None" and "in_flight s g' p' = None"
    and "g \<noteq> g' \<or> p \<noteq> p'"
    and "consumer_step\<^sup>*\<^sup>* (fst (markInflight (fst (markInflight s g p offset mid)) g' p' offset' mid)) t"
  shows "snd (nextOffset t g p) = (0, True)"
proof -
  let ?s1 = "fst (markInflight s g p offset mid)"
  let ?s2 = "fst (markInflight ?s1 g' p' offset' mid)"
  have inv: "index_sound s" by (rule cs.reachable_inv [OF refl assms(1)])
  have free: "in_flight ?s1 g' p' = None" using assms(2-4) by (auto simp: consumer_simps)
  have "Mapping.lookup (cs_inflight ?s2) m = Some e \<Longrightarrow> ds_groupKey e \<noteq> g \<or> ds_partitionID e \<noteq> p" for m e
    using inv assms(2,4) free
    by (auto simp: consumer_simps lookup_update' index_sound_def split: if_splits)
  moreover have "in_flight ?s2 g p = Some (delivery g p offset mid)"
    using assms(2,4) by (auto simp: consumer_simps)
  ultimately have "stranded g p ?s2"
    using inv by (auto simp: stranded_def index_sound_mark)
  then have "stranded g p t" using assms(5) by (blast intro: stuck.run_inv)
  then show ?thesis by (auto simp: stranded_def nextOffset_eq)
qed

theorem shared_message_strands_group_witness:
  "let s1 = fst (markInflight new_consumers ''g1'' 0 0 ''m''); s2 = fst (markInflight s1 ''g2'' 0 0 ''m'')
   in snd (nextOffset (fst (ack (fst (ack s2 ''m'')) ''m'')) ''g1'' 0) = (0, True)"
proof -
  let ?s2 = "fst (markInflight (fst (markInflight new_consumers ''g1'' 0 0 ''m'')) ''g2'' 0 0 ''m'')"
  have "consumer_step\<^sup>*\<^sup>* ?s2 (fst (ack (fst (ack ?s2 ''m'')) ''m''))"
    by (blast intro: consumer_step.acked rtranclp.rtrancl_into_rtrancl)
  from shared_message_strands_group [OF _ _ _ _ this] show ?thesis
    by (simp add: fresh_partition_def Let_def)
qed


section \<open>Keys and statistics\<close>

lemma splitConsumerKey_consumerKey:
  "CHR 0x00 \<notin> set topic \<Longrightarrow> splitConsumerKey (consumerKey topic grp) = (topic, grp)"
  by (induction topic) (auto simp: consumerKey_def)

end
