(* ===== verification/Runtime.thy ===== *)
theory Runtime
  imports Replication Hash_Router Consumers "HOL-Library.Monad_Syntax"
begin

text \<open>
  The queue's runtime (\<^verbatim>\<open>runtime.go\<close>, \<^verbatim>\<open>runtime_metrics.go\<close>): publishing to the leader of a partition
  with replication to its followers first, polling a topic for a consumer group, acknowledging, and
  the statistics. The runtime's own mutable state is \<open>Runtime\<close>; the partition store and its file
  system, the other nodes (\<open>'w\<close>, acted on by the replicators' \<open>send\<close>) and the cluster's answer to
  \<^verbatim>\<open>Nodes\<close> are passed explicitly. Polling reads the storage through a function argument \<open>read\<close>, the
  \<^verbatim>\<open>Storage\<close> interface; the lemmas on polling are proved in the locale \<open>message_storage\<close> and
  hold for the partition store by its interpretation.
\<close>

section \<open>State\<close>

record QueueMetrics =
  qm_Published :: uint64
  qm_Delivered :: uint64
  qm_Acked :: uint64

record QueueMetricsSnapshot = QueueMetrics +
  qm_Inflight :: uint64

record ReplicationCoordinator =
  rc_replicators :: "RemoteReplicator list"
  rc_requiredFollowerAcks :: int

record Runtime =
  rt_partition :: PartitionManager
  rt_replication :: "(int \<rightharpoonup> ReplicationCoordinator) option"
  rt_consumers :: consumerState
  rt_metrics :: QueueMetrics

record RuntimePartitionStats =
  rps_ID :: int
  rps_Role :: string
  rps_NextOffset :: Offset
  rps_StoredMessages :: uint64

record RuntimeStats =
  rs_Counters :: QueueMetricsSnapshot
  rs_Partitions :: "RuntimePartitionStats list"
  rs_Consumers :: "RuntimeConsumerStats list"

definition NewRuntime :: "PartitionManager \<Rightarrow> (int \<rightharpoonup> ReplicationCoordinator) option \<Rightarrow> Runtime" where
  "NewRuntime pm replication =
     \<lparr>rt_partition = pm, rt_replication = replication, rt_consumers = new_consumers,
      rt_metrics = \<lparr>qm_Published = 0, qm_Delivered = 0, qm_Acked = 0\<rparr>\<rparr>"

section \<open>Publishing\<close>

definition routePartition :: "Runtime \<Rightarrow> string \<Rightarrow> Message \<Rightarrow> go_error + int" where
  "routePartition rt topic m = Route topic m (PartitionManager_Partitions (rt_partition rt))"

text \<open>\<open>ids\<close> is the order in which the store's snapshot ranges over its map of partitions.\<close>

definition partitionNextOffset :: "PartitionStore \<Rightarrow> int list \<Rightarrow> int \<Rightarrow> Offset" where
  "partitionNextOffset st ids pid =
     (case find (\<lambda>s. snap_ID s = pid) (PartitionStore_Snapshot st ids) of
        None \<Rightarrow> 0 | Some s \<Rightarrow> snap_NextOffset s)"

definition count_published :: "Runtime \<Rightarrow> Runtime" where
  "count_published rt = rt\<lparr>rt_metrics := (rt_metrics rt)\<lparr>qm_Published := qm_Published (rt_metrics rt) + 1\<rparr>\<rparr>"

text \<open>
  The coordinator acting on the other nodes: nothing is sent when no acknowledgement is required or
  when there are too few replicators; otherwise every replicator sends the record, and the result is
  that of \<open>ReplicationCoordinator_Replicate\<close>, which does not depend on the order of the answers.
\<close>

fun send_all :: "('w \<Rightarrow> RemoteReplicator \<Rightarrow> int \<Rightarrow> Record \<Rightarrow> 'w \<times> go_error option) \<Rightarrow> 'w \<Rightarrow>
    RemoteReplicator list \<Rightarrow> int \<Rightarrow> Record \<Rightarrow> 'w \<times> bool list" where
  "send_all send w [] pid r = (w, [])"
| "send_all send w (rr # rrs) pid r =
     (let (w1, e) = send w rr pid r; (w2, oks) = send_all send w1 rrs pid r in (w2, (e = None) # oks))"

definition coordinate :: "('w \<Rightarrow> RemoteReplicator \<Rightarrow> int \<Rightarrow> Record \<Rightarrow> 'w \<times> go_error option) \<Rightarrow> 'w \<Rightarrow>
    ReplicationCoordinator \<Rightarrow> int \<Rightarrow> Record \<Rightarrow> 'w \<times> go_error option" where
  "coordinate send w c pid r =
     (if rc_requiredFollowerAcks c \<le> 0 then (w, None)
      else if rc_requiredFollowerAcks c > int (length (rc_replicators c)) then (w, Some ErrReplicationQuorum)
      else (let (w1, oks) = send_all send w (rc_replicators c) pid r
            in (w1, ReplicationCoordinator_Replicate (rc_requiredFollowerAcks c) oks)))"

definition append_published :: "go_error option \<Rightarrow> io \<Rightarrow> filesystem \<Rightarrow> PartitionStore \<Rightarrow> Runtime \<Rightarrow> int \<Rightarrow> Message \<Rightarrow>
    filesystem \<times> PartitionStore \<times> Runtime \<times> go_error option" where
  "append_published ctx io fs st rt pid m =
     (case PartitionStore_Append ctx io fs st pid m of
        (fs1, st1, Inl e) \<Rightarrow> (fs1, st1, rt, Some e)
      | (fs1, st1, Inr _) \<Rightarrow> (fs1, st1, count_published rt, None))"

definition Publish :: "('w \<Rightarrow> RemoteReplicator \<Rightarrow> int \<Rightarrow> Record \<Rightarrow> 'w \<times> go_error option) \<Rightarrow> go_error option \<Rightarrow> io \<Rightarrow>
    int list \<Rightarrow> 'w \<Rightarrow> filesystem \<Rightarrow> PartitionStore \<Rightarrow> Runtime \<Rightarrow> string \<Rightarrow> Message \<Rightarrow>
    'w \<times> filesystem \<times> PartitionStore \<times> Runtime \<times> go_error option" where
  "Publish send ctx io ids w fs st rt topic message =
     (let m = message\<lparr>msg_Topic := topic\<rparr> in
      case routePartition rt topic m of
        Inl e \<Rightarrow> (w, fs, st, rt, Some e)
      | Inr pid \<Rightarrow>
          if \<not> IsLeader (rt_partition rt) pid then (w, fs, st, rt, Some ErrNotPartitionLeader)
          else (case rt_replication rt of
              None \<Rightarrow> (w, append_published ctx io fs st rt pid m)
            | Some replication \<Rightarrow>
                (case replication pid of
                   None \<Rightarrow> (w, append_published ctx io fs st rt pid m)
                 | Some coordinator \<Rightarrow>
                     (let offset = partitionNextOffset st ids pid in
                      case coordinate send w coordinator pid \<lparr>rec_Offset = offset, rec_Message = m\<rparr> of
                        (w1, Some e) \<Rightarrow> (w1, fs, st, rt, Some e)
                      | (w1, None) \<Rightarrow> (w1, append_published ctx io fs st rt pid m)))))"

text \<open>The answer of \<^verbatim>\<open>r.cluster.Nodes(ctx)\<close> is the argument \<open>nodes\<close>.\<close>

definition PartitionLeader :: "go_error + Node list \<Rightarrow> Runtime \<Rightarrow> string \<Rightarrow> Message \<Rightarrow> go_error + Node \<times> int \<times> bool" where
  "PartitionLeader nodes rt topic message =
     (let m = message\<lparr>msg_Topic := topic\<rparr> in
      case routePartition rt topic m of
        Inl e \<Rightarrow> Inl e
      | Inr pid \<Rightarrow>
          if IsLeader (rt_partition rt) pid then Inr (LocalNode (rt_partition rt), pid, True)
          else (case LeaderNodeID (rt_partition rt) pid of
              None \<Rightarrow> Inl ErrLeaderNotFound
            | Some leaderID \<Rightarrow>
                (case nodes of
                   Inl e \<Rightarrow> Inl e
                 | Inr ns \<Rightarrow>
                     (case find (\<lambda>n. node_ID n = leaderID) ns of
                        Some n \<Rightarrow> Inr (n, pid, False)
                      | None \<Rightarrow> Inl ErrLeaderNotFound))))"

section \<open>Polling and acknowledging\<close>

text \<open>
  \<^verbatim>\<open>pollPartition\<close> loops until it finds a message of the topic; the value \<open>None\<close> of the option
  is a loop that does not end. The result \<open>Inr None\<close> is Go's \<^verbatim>\<open>Message{}, false, nil\<close>.
\<close>

partial_function (option) pollPartition ::
  "(Offset \<Rightarrow> go_error + Message) \<Rightarrow> Runtime \<Rightarrow> string \<Rightarrow> string \<Rightarrow> int \<Rightarrow> (Runtime \<times> (go_error + Message option)) option" where
  "pollPartition read rt key topic pid =
     (case nextOffset (rt_consumers rt) key pid of (c1, offset, inFlight) \<Rightarrow>
        let rt1 = rt\<lparr>rt_consumers := c1\<rparr> in
        if inFlight then Some (rt1, Inr None)
        else (case read offset of
            Inl e \<Rightarrow> if errors_Is e ErrOffsetNotFound then Some (rt1, Inr None) else Some (rt1, Inl e)
          | Inr m \<Rightarrow>
              if msg_Topic m \<noteq> topic then
                pollPartition read (rt1\<lparr>rt_consumers := skip c1 key pid (offset + 1)\<rparr>) key topic pid
              else (case markInflight c1 key pid offset (msg_ID m) of
                  (c2, False) \<Rightarrow> Some (rt1\<lparr>rt_consumers := c2\<rparr>, Inr None)
                | (c2, True) \<Rightarrow>
                    Some (rt1\<lparr>rt_consumers := c2,
                        rt_metrics := (rt_metrics rt)\<lparr>qm_Delivered := qm_Delivered (rt_metrics rt) + 1\<rparr>\<rparr>,
                      Inr (Some m)))))"

definition leaderPartitionIDs :: "Runtime \<Rightarrow> int list" where
  "leaderPartitionIDs rt =
     sort (map part_ID (filter (\<lambda>p. IsLeader (rt_partition rt) (part_ID p)) (PartitionManager_Partitions (rt_partition rt))))"

fun poll_partitions :: "(int \<Rightarrow> Offset \<Rightarrow> go_error + Message) \<Rightarrow> Runtime \<Rightarrow> string \<Rightarrow> string \<Rightarrow> int list \<Rightarrow>
    (Runtime \<times> (go_error + Message option)) option" where
  "poll_partitions read rt key topic [] = Some (rt, Inr None)"
| "poll_partitions read rt key topic (pid # pids) =
     do {
       (rt1, r) \<leftarrow> pollPartition (read pid) rt key topic pid;
       case r of
         Inl e \<Rightarrow> Some (rt1, Inl e)
       | Inr (Some m) \<Rightarrow> Some (rt1, Inr (Some m))
       | Inr None \<Rightarrow> poll_partitions read rt1 key topic pids
     }"

definition Poll :: "(int \<Rightarrow> Offset \<Rightarrow> go_error + Message) \<Rightarrow> Runtime \<Rightarrow> string \<Rightarrow> string \<Rightarrow>
    (Runtime \<times> (go_error + Message option)) option" where
  "Poll read rt topic grp =
     (if topic = [] then Some (rt, Inl (Errorf ''topic is required''))
      else if grp = [] then Some (rt, Inl (Errorf ''group is required''))
      else poll_partitions read rt (consumerKey topic grp) topic (leaderPartitionIDs rt))"

definition Ack :: "go_error option \<Rightarrow> Runtime \<Rightarrow> string \<Rightarrow> Runtime \<times> go_error option" where
  "Ack ctx rt messageID =
     (case ctx of
        Some e \<Rightarrow> (rt, Some e)
      | None \<Rightarrow>
          (case ack (rt_consumers rt) messageID of
             (c, Some e) \<Rightarrow> (rt\<lparr>rt_consumers := c\<rparr>, Some e)
           | (c, None) \<Rightarrow>
               (rt\<lparr>rt_consumers := c, rt_metrics := (rt_metrics rt)\<lparr>qm_Acked := qm_Acked (rt_metrics rt) + 1\<rparr>\<rparr>, None)))"

text \<open>
  The goroutine of \<^verbatim>\<open>Consume\<close>: it polls, sleeps when there is nothing, and hands a message to
  the channel. Each element of \<open>turns\<close> is one iteration: whether the context ends while the goroutine sleeps or
  waits for the receiver. The result is the runtime, the messages received and whether the channel was closed.
\<close>

fun consume_loop :: "(int \<Rightarrow> Offset \<Rightarrow> go_error + Message) \<Rightarrow> bool list \<Rightarrow> Runtime \<Rightarrow> string \<Rightarrow> string \<Rightarrow>
    (Runtime \<times> Message list \<times> bool) option" where
  "consume_loop read [] rt topic grp = Some (rt, [], False)"
| "consume_loop read (ended # turns) rt topic grp =
     do {
       (rt1, r) \<leftarrow> Poll read rt topic grp;
       case r of
         Inl e \<Rightarrow> Some (rt1, [], True)
       | Inr None \<Rightarrow> if ended then Some (rt1, [], True) else consume_loop read turns rt1 topic grp
       | Inr (Some m) \<Rightarrow>
           if ended then Some (rt1, [], True)
           else do { (rt2, ms, closed) \<leftarrow> consume_loop read turns rt1 topic grp; Some (rt2, m # ms, closed) }
     }"

definition Consume :: "(int \<Rightarrow> Offset \<Rightarrow> go_error + Message) \<Rightarrow> bool list \<Rightarrow> Runtime \<Rightarrow> string \<Rightarrow> string \<Rightarrow>
    (go_error + Runtime \<times> Message list \<times> bool) option" where
  "Consume read turns rt topic grp =
     (if topic = [] then Some (Inl (Errorf ''topic is required''))
      else if grp = [] then Some (Inl (Errorf ''group is required''))
      else map_option Inr (consume_loop read turns rt topic grp))"

section \<open>Statistics\<close>

definition MetricsSnapshot :: "Runtime \<Rightarrow> QueueMetricsSnapshot" where
  "MetricsSnapshot rt =
     \<lparr>qm_Published = qm_Published (rt_metrics rt), qm_Delivered = qm_Delivered (rt_metrics rt),
      qm_Acked = qm_Acked (rt_metrics rt), qm_Inflight = of_nat (inflightCount (rt_consumers rt))\<rparr>"

definition partitionRole :: "Runtime \<Rightarrow> int \<Rightarrow> ReplicaRole" where
  "partitionRole rt pid =
     (case find (\<lambda>r. rep_NodeID r = node_ID (pm_node (rt_partition rt)))
         (concat (map part_Replicas (filter (\<lambda>p. part_ID p = pid) (PartitionManager_Partitions (rt_partition rt))))) of
        Some r \<Rightarrow> rep_Role r
      | None \<Rightarrow> ReplicaFollower)"

text \<open>
  \<^verbatim>\<open>Stats\<close> sorts the partition manager's own slice in place: the runtime is returned with it.
\<close>

definition Stats :: "PartitionStore \<Rightarrow> int list \<Rightarrow> Runtime \<Rightarrow> Runtime \<times> RuntimeStats" where
  "Stats st ids rt =
     (let storage = map_of (rev (map (\<lambda>s. (snap_ID s, s)) (PartitionStore_Snapshot st ids)));
          partitions = sort_key part_ID (PartitionManager_Partitions (rt_partition rt));
          rt1 = rt\<lparr>rt_partition := (rt_partition rt)\<lparr>pm_partitions := partitions\<rparr>\<rparr>;
          stat = (\<lambda>p. let next = (case storage (part_ID p) of None \<Rightarrow> 0 | Some s \<Rightarrow> snap_NextOffset s) in
             \<lparr>rps_ID = part_ID p, rps_Role = role_string (partitionRole rt1 (part_ID p)),
              rps_NextOffset = next, rps_StoredMessages = next\<rparr>)
      in (rt1, \<lparr>rs_Counters = MetricsSnapshot rt1, rs_Partitions = map stat partitions,
                rs_Consumers = snapshot (rt_consumers rt1)\<rparr>))"

section \<open>What a poll does\<close>

text \<open>The offset of the next message of the topic for a group's partition state, if it may be delivered.\<close>

definition pending :: "string \<Rightarrow> Message list \<Rightarrow> partitionConsumerState \<Rightarrow> nat option" where
  "pending topic ms v =
     (if pc_inflight v \<noteq> None then None
      else find (\<lambda>i. msg_Topic (ms ! i) = topic) [unat (pc_nextOffset v)..<length ms])"

text \<open>The runtime after a poll that moved a group's cursor to \<open>k\<close>, with the message delivered there, if any.\<close>

definition polled :: "Runtime \<Rightarrow> string \<Rightarrow> int \<Rightarrow> nat \<Rightarrow> Message option \<Rightarrow> Runtime \<Rightarrow> bool" where
  "polled rt key p k delivered rt' \<longleftrightarrow>
     rt_partition rt' = rt_partition rt \<and> rt_replication rt' = rt_replication rt \<and>
     (\<forall>g q. view (rt_consumers rt') g q =
        (if g = key \<and> q = p
         then \<lparr>pc_nextOffset = of_nat k, pc_inflight = map_option (\<lambda>m. delivery key p (of_nat k) (msg_ID m)) delivered\<rparr>
         else view (rt_consumers rt) g q)) \<and>
     cs_inflight (rt_consumers rt') =
       (case delivered of None \<Rightarrow> cs_inflight (rt_consumers rt)
        | Some m \<Rightarrow> Mapping.update (msg_ID m) (delivery key p (of_nat k) (msg_ID m)) (cs_inflight (rt_consumers rt))) \<and>
     rt_metrics rt' = (rt_metrics rt)\<lparr>qm_Delivered := qm_Delivered (rt_metrics rt) + of_bool (delivered \<noteq> None)\<rparr>"

definition idle :: "Runtime \<Rightarrow> Runtime \<Rightarrow> bool" where
  "idle rt rt' \<longleftrightarrow> rt_partition rt' = rt_partition rt \<and> rt_replication rt' = rt_replication rt \<and>
     rt_metrics rt' = rt_metrics rt \<and> cs_inflight (rt_consumers rt') = cs_inflight (rt_consumers rt) \<and>
     (\<forall>g q. view (rt_consumers rt') g q = view (rt_consumers rt) g q)"

text \<open>
  A poll passes over a partition without delivering from it: it leaves the group's state of it, or moves the
  cursor to the end of a log that has no further message of the topic.
\<close>

definition passed :: "string \<Rightarrow> Message list \<Rightarrow> partitionConsumerState \<Rightarrow> partitionConsumerState \<Rightarrow> bool" where
  "passed topic ms v v' \<longleftrightarrow> v' = v \<or>
     pc_inflight v = None \<and> pending topic ms v = None \<and> v' = \<lparr>pc_nextOffset = of_nat (length ms), pc_inflight = None\<rparr>"

definition poll_effect :: "Runtime \<Rightarrow> string \<Rightarrow> string \<Rightarrow> (int \<Rightarrow> Message list) \<Rightarrow> int list \<Rightarrow> Message option \<Rightarrow> Runtime \<Rightarrow> bool" where
  "poll_effect rt key topic log pids r rt' \<longleftrightarrow>
     (let k = (\<lambda>p. pending topic (log p) (view (rt_consumers rt) key p)); found = find (\<lambda>p. k p \<noteq> None) pids
      in r = map_option (\<lambda>p. log p ! the (k p)) found \<and>
         rt_partition rt' = rt_partition rt \<and> rt_replication rt' = rt_replication rt \<and>
         (\<forall>g q. g \<noteq> key \<longrightarrow> view (rt_consumers rt') g q = view (rt_consumers rt) g q) \<and>
         (\<forall>q. found \<noteq> Some q \<longrightarrow> passed topic (log q) (view (rt_consumers rt) key q) (view (rt_consumers rt') key q)) \<and>
         (case found of
            None \<Rightarrow> cs_inflight (rt_consumers rt') = cs_inflight (rt_consumers rt)
          | Some p \<Rightarrow>
              (let d = delivery key p (of_nat (the (k p))) (msg_ID (log p ! the (k p)))
               in view (rt_consumers rt') key p = \<lparr>pc_nextOffset = of_nat (the (k p)), pc_inflight = Some d\<rparr> \<and>
                  cs_inflight (rt_consumers rt') = Mapping.update (ds_messageID d) d (cs_inflight (rt_consumers rt)))))"

lemma pollPartition_in_flight:
  assumes "in_flight (rt_consumers rt) key p \<noteq> None"
  shows "\<exists>rt'. pollPartition rd rt key topic p = Some (rt', Inr None) \<and> idle rt rt'"
  using assms
  by (subst pollPartition.simps) (auto simp: nextOffset_eq Let_def idle_def consumer_simps)

lemma pollPartition_read_error:
  assumes "in_flight (rt_consumers rt) key p = None" and "rd (pc_nextOffset (view (rt_consumers rt) key p)) = Inl e"
    and "\<not> errors_Is e ErrOffsetNotFound"
  shows "\<exists>rt'. pollPartition rd rt key topic p = Some (rt', Inl e) \<and> idle rt rt'"
  using assms
  by (subst pollPartition.simps) (auto simp: nextOffset_eq Let_def idle_def consumer_simps)

lemma idle_polled: "idle rt rt1 \<Longrightarrow> polled rt1 key p k d rt2 \<Longrightarrow> polled rt key p k d rt2"
  by (cases d) (simp_all add: idle_def polled_def)

lemma polled_polled: "polled rt key p j None rt1 \<Longrightarrow> polled rt1 key p k d rt2 \<Longrightarrow> polled rt key p k d rt2"
  by (cases d) (simp_all add: polled_def)

lemma passed_trans: "passed topic ms u v \<Longrightarrow> passed topic ms v w \<Longrightarrow> passed topic ms u w"
  by (auto simp: passed_def)

text \<open>The effect of polling a partition that has nothing to deliver, and then the others.\<close>

lemma poll_effect_Cons:
  assumes "pending topic (log p) (view (rt_consumers rt) key p) = None"
    and "rt_partition rt1 = rt_partition rt" and "rt_replication rt1 = rt_replication rt"
    and "cs_inflight (rt_consumers rt1) = cs_inflight (rt_consumers rt)"
    and "\<And>g q. g \<noteq> key \<or> q \<noteq> p \<Longrightarrow> view (rt_consumers rt1) g q = view (rt_consumers rt) g q"
    and "passed topic (log p) (view (rt_consumers rt) key p) (view (rt_consumers rt1) key p) \<and> p \<notin> set pids"
    and "poll_effect rt1 key topic log pids r rt'"
  shows "poll_effect rt key topic log (p # pids) r rt'"
proof -
  let ?k = "\<lambda>rt p. pending topic (log p) (view (rt_consumers rt) key p)"
  have same: "view (rt_consumers rt1) key q = view (rt_consumers rt) key q" if "q \<noteq> p" for q
    using assms(5) that by simp
  have "?k rt1 q = ?k rt q" if "q \<in> set pids" for q
    using assms(6) same [of q] that by metis
  then have "find (\<lambda>q. ?k rt1 q \<noteq> None) pids = find (\<lambda>q. ?k rt q \<noteq> None) pids"
    by (intro find_cong) simp_all
  moreover have "find (\<lambda>q. ?k rt q \<noteq> None) (p # pids) = find (\<lambda>q. ?k rt q \<noteq> None) pids"
    using assms(1) by simp
  moreover have mem: "q \<noteq> p" if "find (\<lambda>q. ?k rt q \<noteq> None) pids = Some q" for q
    using that assms(6) by (auto simp: find_Some_iff)
  moreover have "passed topic (log q) (view (rt_consumers rt) key q) (view (rt_consumers rt') key q)"
    if "passed topic (log q) (view (rt_consumers rt1) key q) (view (rt_consumers rt') key q)" for q
    using that same [of q] assms(6) by (cases "q = p") (auto intro: passed_trans)
  ultimately show ?thesis
    using assms(2-5,7) same unfolding poll_effect_def Let_def
    by (cases "find (\<lambda>q. ?k rt q \<noteq> None) pids") auto
qed

context message_storage
begin

lemma pollPartition_step:
  assumes "holds s p ms" and "n < length ms"
    and "view (rt_consumers rt) key p = \<lparr>pc_nextOffset = of_nat n, pc_inflight = None\<rparr>"
  shows "if msg_Topic (ms ! n) = topic
    then \<exists>rt'. pollPartition (read s p) rt key topic p = Some (rt', Inr (Some (ms ! n))) \<and> polled rt key p n (Some (ms ! n)) rt'
    else \<exists>rt'. pollPartition (read s p) rt key topic p = pollPartition (read s p) rt' key topic p \<and> polled rt key p (n + 1) None rt'"
proof -
  have "unat (of_nat n :: Offset) = n"
    using assms(2) bound_law [OF assms(1)] by (intro unat_of_nat_small) simp
  then have rd: "read s p (of_nat n) = Inr (ms ! n)"
    using read_law [OF assms(1), of "of_nat n"] assms(2) by simp
  let ?c1 = "fst (ensurePartition (rt_consumers rt) key p)"
  have v: "view ?c1 g q = view (rt_consumers rt) g q" for g q by (simp add: consumer_simps)
  show ?thesis
  proof (cases "msg_Topic (ms ! n) = topic")
    case True
    let ?mark = "markInflight ?c1 key p (of_nat n) (msg_ID (ms ! n))"
    have mark: "?mark = (fst ?mark, True)"
      using assms(3) v by (intro prod_eqI) (simp_all add: consumer_simps)
    have "pollPartition (read s p) rt key topic p =
        Some (rt\<lparr>rt_consumers := fst ?mark, rt_metrics := (rt_metrics rt)\<lparr>qm_Delivered := qm_Delivered (rt_metrics rt) + 1\<rparr>\<rparr>,
          Inr (Some (ms ! n)))"
      using assms(3) rd True
      by (subst pollPartition.simps) (simp add: nextOffset_eq Let_def, subst mark, simp)
    then show ?thesis using assms(3) True by (auto simp: polled_def consumer_simps)
  next
    case False
    have "pollPartition (read s p) rt key topic p =
        pollPartition (read s p) (rt\<lparr>rt_consumers := skip ?c1 key p (of_nat n + 1)\<rparr>) key topic p"
      using assms(3) rd False by (subst pollPartition.simps) (simp add: nextOffset_eq Let_def)
    moreover have "polled rt key p (n + 1) None (rt\<lparr>rt_consumers := skip ?c1 key p (of_nat n + 1)\<rparr>)"
      using assms(3) by (auto simp: polled_def consumer_simps ac_simps)
    ultimately show ?thesis using False by auto
  qed
qed

lemma pollPartition_end:
  assumes "holds s p ms" and "view (rt_consumers rt) key p = \<lparr>pc_nextOffset = of_nat (length ms), pc_inflight = None\<rparr>"
  shows "\<exists>rt'. pollPartition (read s p) rt key topic p = Some (rt', Inr None) \<and> idle rt rt'"
proof -
  have "unat (of_nat (length ms) :: Offset) = length ms"
    using bound_law [OF assms(1)] by (intro unat_of_nat_small) simp
  then obtain e where "read s p (of_nat (length ms)) = Inl e" "errors_Is e ErrOffsetNotFound"
    using read_end_law [OF assms(1), of "of_nat (length ms)"] by auto
  with assms(2) show ?thesis
    by (subst pollPartition.simps) (auto simp: nextOffset_eq Let_def idle_def consumer_simps)
qed

text \<open>A poll always ends, and delivers the next message of the topic, if there is one.\<close>

lemma pollPartition_delivers:
  assumes "holds s p ms" and "n \<le> length ms"
    and "view (rt_consumers rt) key p = \<lparr>pc_nextOffset = of_nat n, pc_inflight = None\<rparr>"
  shows "\<exists>rt'. case find (\<lambda>i. msg_Topic (ms ! i) = topic) [n..<length ms] of
      Some k \<Rightarrow> pollPartition (read s p) rt key topic p = Some (rt', Inr (Some (ms ! k))) \<and> polled rt key p k (Some (ms ! k)) rt'
    | None \<Rightarrow> pollPartition (read s p) rt key topic p = Some (rt', Inr None) \<and> polled rt key p (length ms) None rt'"
  using assms(2,3)
proof (induction "length ms - n" arbitrary: n rt)
  case 0
  then have "n = length ms" by simp
  with pollPartition_end [OF assms(1)] 0 show ?case by (fastforce simp: idle_def polled_def)
next
  case (Suc l)
  then have n: "n < length ms" by simp
  show ?case
  proof (cases "msg_Topic (ms ! n) = topic")
    case True
    with pollPartition_step [OF assms(1) n Suc.prems(2), of topic] n show ?thesis by (simp add: upt_conv_Cons)
  next
    case False
    then obtain rt1 where rt1: "polled rt key p (n + 1) None rt1"
      "pollPartition (read s p) rt key topic p = pollPartition (read s p) rt1 key topic p"
      using pollPartition_step [OF assms(1) n Suc.prems(2), of topic] by auto
    have v: "view (rt_consumers rt1) key p = \<lparr>pc_nextOffset = of_nat (n + 1), pc_inflight = None\<rparr>"
      using rt1(1) by (simp add: polled_def)
    have "l = length ms - (n + 1)" "n + 1 \<le> length ms" using Suc.hyps(2) n by simp_all
    from Suc.hyps(1) [OF this v] obtain rt' where
      "case find (\<lambda>i. msg_Topic (ms ! i) = topic) [n + 1..<length ms] of
         Some k \<Rightarrow> pollPartition (read s p) rt1 key topic p = Some (rt', Inr (Some (ms ! k))) \<and> polled rt1 key p k (Some (ms ! k)) rt'
       | None \<Rightarrow> pollPartition (read s p) rt1 key topic p = Some (rt', Inr None) \<and> polled rt1 key p (length ms) None rt'"
      by blast
    then show ?thesis using False n rt1
      by (intro exI [of _ rt']) (auto simp: upt_conv_Cons split: option.splits intro: polled_polled)
  qed
qed

lemma pollPartition_pending:
  fixes topic :: string
  assumes "holds s p ms" and "unat (pc_nextOffset (view (rt_consumers rt) key p)) \<le> length ms"
  defines "k \<equiv> pending topic ms (view (rt_consumers rt) key p)"
  shows "\<exists>rt'. pollPartition (read s p) rt key topic p = Some (rt', Inr (map_option ((!) ms) k)) \<and>
    (if k = None
     then (idle rt rt' \<or> polled rt key p (length ms) None rt') \<and> passed topic ms (view (rt_consumers rt) key p) (view (rt_consumers rt') key p)
     else polled rt key p (the k) (Some (ms ! the k)) rt')"
proof (cases "in_flight (rt_consumers rt) key p")
  case None
  let ?n = "unat (pc_nextOffset (view (rt_consumers rt) key p))"
  have "view (rt_consumers rt) key p = \<lparr>pc_nextOffset = of_nat ?n, pc_inflight = None\<rparr>"
    using None by (intro partitionConsumerState.equality) simp_all
  from pollPartition_delivers [OF assms(1,2) this, of topic] None show ?thesis
    by (auto simp: k_def pending_def passed_def polled_def split: option.splits)
next
  case (Some d)
  then show ?thesis
    using pollPartition_in_flight [of rt key p "read s p" topic] by (auto simp: k_def pending_def passed_def idle_def)
qed

lemma poll_partitions_effect:
  assumes "distinct pids"
    and "\<And>p. p \<in> set pids \<Longrightarrow> holds s p (log p) \<and> unat (pc_nextOffset (view (rt_consumers rt) key p)) \<le> length (log p)"
  shows "\<exists>rt' r. poll_partitions (read s) rt key topic pids = Some (rt', Inr r) \<and> poll_effect rt key topic log pids r rt'"
  using assms
proof (induction pids arbitrary: rt)
  case Nil
  then show ?case by (simp add: poll_effect_def passed_def)
next
  case (Cons p pids)
  let ?k = "pending topic (log p) (view (rt_consumers rt) key p)"
  obtain rt1 where rt1: "pollPartition (read s p) rt key topic p = Some (rt1, Inr (map_option ((!) (log p)) ?k))"
      "if ?k = None then (idle rt rt1 \<or> polled rt key p (length (log p)) None rt1) \<and> passed topic (log p) (view (rt_consumers rt) key p) (view (rt_consumers rt1) key p)
       else polled rt key p (the ?k) (Some (log p ! the ?k)) rt1"
    using pollPartition_pending [of s p "log p" rt key topic] Cons.prems(2) [of p] by auto
  show ?case
  proof (cases ?k)
    case None
    have same: "rt_partition rt1 = rt_partition rt" "rt_replication rt1 = rt_replication rt"
      "cs_inflight (rt_consumers rt1) = cs_inflight (rt_consumers rt)"
      "\<And>g q. g \<noteq> key \<or> q \<noteq> p \<Longrightarrow> view (rt_consumers rt1) g q = view (rt_consumers rt) g q"
      using rt1(2) None by (auto simp: idle_def polled_def)
    have views: "view (rt_consumers rt1) key q = view (rt_consumers rt) key q" if "q \<in> set pids" for q
      using same(4) [of key q] that Cons.prems(1) by auto
    have "holds s q (log q) \<and> unat (pc_nextOffset (view (rt_consumers rt1) key q)) \<le> length (log q)" if "q \<in> set pids" for q
      using Cons.prems(2) [of q] that views [OF that] by simp
    with Cons.IH [of rt1] Cons.prems(1) obtain rt' r where rt': "poll_partitions (read s) rt1 key topic pids = Some (rt', Inr r)"
        "poll_effect rt1 key topic log pids r rt'" by auto
    have "poll_effect rt key topic log (p # pids) r rt'"
      by (rule poll_effect_Cons [OF None same _ rt'(2)]) (use rt1(2) None Cons.prems(1) in auto)
    with rt1(1) rt'(1) None show ?thesis by auto
  next
    case (Some j)
    with rt1 show ?thesis by (auto simp: polled_def poll_effect_def passed_def)
  qed
qed

end

section \<open>Poll and acknowledge\<close>

lemma Ack_acknowledges:
  assumes "acknowledges (rt_consumers rt) mid d"
  shows "\<exists>rt'. Ack None rt mid = (rt', None) \<and> rt_partition rt' = rt_partition rt \<and> rt_replication rt' = rt_replication rt \<and>
    (\<forall>g q. view (rt_consumers rt') g q =
       (if g = ds_groupKey d \<and> q = ds_partitionID d then \<lparr>pc_nextOffset = ds_offset d + 1, pc_inflight = None\<rparr>
        else view (rt_consumers rt) g q)) \<and>
    cs_inflight (rt_consumers rt') = Mapping.delete mid (cs_inflight (rt_consumers rt))"
  using assms
  by (cases rule: ack_cases [where s = "rt_consumers rt" and mid = mid]) (auto simp: acknowledges_def Ack_def)

lemma Ack_polled:
  assumes "polled rt key p k (Some m) rt1"
  shows "\<exists>rt2. Ack None rt1 (msg_ID m) = (rt2, None) \<and>
    (\<forall>g q. view (rt_consumers rt2) g q =
       (if g = key \<and> q = p then \<lparr>pc_nextOffset = of_nat (k + 1), pc_inflight = None\<rparr> else view (rt_consumers rt) g q))"
proof -
  have "acknowledges (rt_consumers rt1) (msg_ID m) (delivery key p (of_nat k) (msg_ID m))"
    using assms by (simp add: acknowledges_def polled_def lookup_update)
  moreover have "view (rt_consumers rt1) g q = view (rt_consumers rt) g q" if "\<not> (g = key \<and> q = p)" for g q
    using assms that by (auto simp: polled_def)
  ultimately show ?thesis
    using Ack_acknowledges [of rt1 "msg_ID m" "delivery key p (of_nat k) (msg_ID m)"] by (auto simp: ac_simps)
qed

lemma leaderPartitionIDs_cong: "rt_partition rt' = rt_partition rt \<Longrightarrow> leaderPartitionIDs rt' = leaderPartitionIDs rt"
  by (simp add: leaderPartitionIDs_def)

lemma find_upt_filter:
  "find (\<lambda>i. P (ms ! i)) [n..<length ms] = None \<Longrightarrow> filter P (drop n ms) = []"
  "find (\<lambda>i. P (ms ! i)) [n..<length ms] = Some k \<Longrightarrow>
     filter P (drop n ms) = ms ! k # filter P (drop (Suc k) ms) \<and> n \<le> k \<and> k < length ms"
proof -
  have "case find (\<lambda>i. P (ms ! i)) [n..<length ms] of
      None \<Rightarrow> filter P (drop n ms) = []
    | Some k \<Rightarrow> filter P (drop n ms) = ms ! k # filter P (drop (Suc k) ms) \<and> n \<le> k \<and> k < length ms"
  proof (induction "length ms - n" arbitrary: n)
    case (Suc l)
    then have n: "n < length ms" and l: "l = length ms - Suc n" by simp_all
    from Suc.hyps(1) [OF l] n show ?case
      by (auto simp: upt_conv_Cons Cons_nth_drop_Suc [symmetric] split: option.splits)
  qed simp
  then show "find (\<lambda>i. P (ms ! i)) [n..<length ms] = None \<Longrightarrow> filter P (drop n ms) = []"
    "find (\<lambda>i. P (ms ! i)) [n..<length ms] = Some k \<Longrightarrow>
     filter P (drop n ms) = ms ! k # filter P (drop (Suc k) ms) \<and> n \<le> k \<and> k < length ms"
    by (auto split: option.splits)
qed

section \<open>A group on all partitions of a node\<close>

text \<open>What a group has still to get from a partition, and a group that has nothing in flight.\<close>

definition remaining :: "string \<Rightarrow> Message list \<Rightarrow> partitionConsumerState \<Rightarrow> Message list" where
  "remaining topic ms v = filter (\<lambda>m. msg_Topic m = topic) (drop (unat (pc_nextOffset v)) ms)"

definition at_rest :: "(int \<Rightarrow> Message list) \<Rightarrow> string \<Rightarrow> Runtime \<Rightarrow> bool" where
  "at_rest log key rt \<longleftrightarrow> distinct (leaderPartitionIDs rt) \<and>
     (\<forall>p \<in> set (leaderPartitionIDs rt). in_flight (rt_consumers rt) key p = None \<and>
        unat (pc_nextOffset (view (rt_consumers rt) key p)) \<le> length (log p))"

abbreviation backlog :: "(int \<Rightarrow> Message list) \<Rightarrow> string \<Rightarrow> string \<Rightarrow> Runtime \<Rightarrow> Message list" where
  "backlog log topic key rt \<equiv>
     concat (map (\<lambda>p. remaining topic (log p) (view (rt_consumers rt) key p)) (leaderPartitionIDs rt))"

text \<open>Poll and acknowledge until nothing is delivered, at most \<open>n\<close> times.\<close>

fun consume_all :: "nat \<Rightarrow> (int \<Rightarrow> Offset \<Rightarrow> go_error + Message) \<Rightarrow> Runtime \<Rightarrow> string \<Rightarrow> string \<Rightarrow> (Runtime \<times> Message list) option" where
  "consume_all 0 rd rt topic grp = Some (rt, [])"
| "consume_all (Suc n) rd rt topic grp =
     do {
       (rt1, r) \<leftarrow> Poll rd rt topic grp;
       case r of
         Inr (Some m) \<Rightarrow> do { (rt2, ms) \<leftarrow> consume_all n rd (fst (Ack None rt1 (msg_ID m))) topic grp; Some (rt2, m # ms) }
       | _ \<Rightarrow> Some (rt1, [])
     }"

lemma pending_remaining:
  assumes "pc_inflight v = None"
  shows "pending topic ms v = None \<longleftrightarrow> remaining topic ms v = []"
    and "pending topic ms v = Some k \<Longrightarrow> k < length ms \<and> remaining topic ms v = ms ! k # filter (\<lambda>m. msg_Topic m = topic) (drop (Suc k) ms)"
  using assms find_upt_filter [where P = "\<lambda>m. msg_Topic m = topic" and ms = ms and n = "unat (pc_nextOffset v)"]
  by (auto simp: pending_def remaining_def) (metis list.distinct(1) not_None_eq)

lemma passed_remaining:
  assumes "passed topic ms v v'" and "length ms < 2 ^ 64" and "unat (pc_nextOffset v) \<le> length ms"
  shows "remaining topic ms v' = remaining topic ms v" and "pc_inflight v' = pc_inflight v"
    and "unat (pc_nextOffset v') \<le> length ms"
  using assms pending_remaining(1) [of v topic ms]
  by (auto simp: passed_def remaining_def unat_of_nat_small)

lemma find_concat_map:
  assumes "\<And>x. x \<in> set xs \<Longrightarrow> P x \<longleftrightarrow> f x \<noteq> []"
  shows "case find P xs of
      None \<Rightarrow> concat (map f xs) = []
    | Some x \<Rightarrow> \<exists>ys zs. xs = ys @ x # zs \<and> f x \<noteq> [] \<and> (\<forall>y \<in> set ys. f y = [])"
  using assms
proof (induction xs)
  case (Cons a xs)
  then show ?case
  proof (cases "P a")
    case False
    then show ?thesis using Cons.IH Cons.prems
      by (auto split: option.splits) (metis (no_types, lifting) append_Cons set_ConsD)
  qed (auto intro: exI [of _ "[]"])
qed simp

lemma concat_map_at:
  assumes "distinct (ys @ x # zs)" and "\<forall>y \<in> set ys. f y = []"
    and "\<And>y. y \<in> set (ys @ x # zs) \<Longrightarrow> g y = (if y = x then c else f y)"
  shows "concat (map g (ys @ x # zs)) = c @ concat (map f zs)"
proof -
  have "concat (map g ys) = []" using assms by auto
  moreover have "map g zs = map f zs" using assms(1,3) by auto
  ultimately show ?thesis using assms(3) [of x] by (simp del: concat_eq_Nil_conv map_eq_conv)
qed

context message_storage
begin

lemma Poll_turn:
  fixes topic grp :: string
  assumes "topic \<noteq> []" and "grp \<noteq> []" and "\<And>p. p \<in> set (leaderPartitionIDs rt) \<Longrightarrow> holds s p (log p)"
  defines "key \<equiv> consumerKey topic grp"
  assumes "at_rest log key rt"
  shows "case backlog log topic key rt of
      [] \<Rightarrow> \<exists>rt'. Poll (read s) rt topic grp = Some (rt', Inr None) \<and> at_rest log key rt' \<and>
        rt_partition rt' = rt_partition rt \<and> backlog log topic key rt' = []
    | m # ms \<Rightarrow> \<exists>rt1 rt2. Poll (read s) rt topic grp = Some (rt1, Inr (Some m)) \<and> Ack None rt1 (msg_ID m) = (rt2, None) \<and>
        at_rest log key rt2 \<and> rt_partition rt2 = rt_partition rt \<and> backlog log topic key rt2 = ms"
proof -
  let ?ids = "leaderPartitionIDs rt"
  let ?v = "\<lambda>p. view (rt_consumers rt) key p"
  let ?found = "find (\<lambda>p. pending topic (log p) (?v p) \<noteq> None) ?ids"
  have rest: "pc_inflight (?v p) = None" "unat (pc_nextOffset (?v p)) \<le> length (log p)" "length (log p) < 2 ^ 64"
    if "p \<in> set ?ids" for p
    using assms(5) that bound_law [OF assms(3) [OF that]] by (auto simp: at_rest_def)
  have dist: "distinct ?ids" using assms(5) by (simp add: at_rest_def)
  obtain rt' r where poll: "poll_partitions (read s) rt key topic ?ids = Some (rt', Inr r)"
      "poll_effect rt key topic log ?ids r rt'"
    using poll_partitions_effect [OF dist, of s log rt key topic] assms(3) rest by blast
  have Poll: "Poll (read s) rt topic grp = Some (rt', Inr r)"
    using poll(1) assms(1,2) by (simp add: Poll_def key_def)
  have ids': "leaderPartitionIDs rt' = ?ids"
    using poll(2) by (intro leaderPartitionIDs_cong) (simp add: poll_effect_def Let_def)
  have others: "remaining topic (log q) (view (rt_consumers rt') key q) = remaining topic (log q) (?v q) \<and>
      pc_inflight (view (rt_consumers rt') key q) = None \<and> unat (pc_nextOffset (view (rt_consumers rt') key q)) \<le> length (log q)"
    if "q \<in> set ?ids" "?found \<noteq> Some q" for q
    using passed_remaining [of topic "log q" "?v q" "view (rt_consumers rt') key q"] rest [OF that(1)] poll(2) that(2)
    by (auto simp: poll_effect_def Let_def simp del: not_None_eq)
  note split = find_concat_map [where xs = ?ids and P = "\<lambda>p. pending topic (log p) (?v p) \<noteq> None"
      and f = "\<lambda>p. remaining topic (log p) (?v p)"]
  show ?thesis
  proof (cases ?found)
    case None
    then have "backlog log topic key rt = []"
      using split pending_remaining(1) rest by simp
    moreover have "at_rest log key rt'" using others None dist by (simp add: at_rest_def ids')
    moreover have "backlog log topic key rt' = []"
      using others None \<open>backlog log topic key rt = []\<close> by (simp add: ids')
    ultimately show ?thesis using Poll poll(2) None by (auto simp: poll_effect_def simp del: concat_eq_Nil_conv)
  next
    case (Some p)
    then obtain ys zs where ids: "?ids = ys @ p # zs" "remaining topic (log p) (?v p) \<noteq> []"
        "\<forall>y \<in> set ys. remaining topic (log y) (?v y) = []"
      using split pending_remaining(1) rest by auto
    obtain k where k: "pending topic (log p) (?v p) = Some k"
      using Some by (auto simp: find_Some_iff)
    have p: "p \<in> set ?ids" using ids(1) by simp
    note rem = pending_remaining(2) [OF rest(1) [OF p] k]
    let ?d = "delivery key p (of_nat k) (msg_ID (log p ! k))"
    have "acknowledges (rt_consumers rt') (msg_ID (log p ! k)) ?d"
      using poll(2) Some k by (simp add: poll_effect_def Let_def acknowledges_def lookup_update)
    from Ack_acknowledges [OF this] obtain rt2 where rt2: "Ack None rt' (msg_ID (log p ! k)) = (rt2, None)"
        "rt_partition rt2 = rt_partition rt'"
        "\<And>q. view (rt_consumers rt2) key q = (if q = p then \<lparr>pc_nextOffset = of_nat (k + 1), pc_inflight = None\<rparr>
           else view (rt_consumers rt') key q)"
      by (auto simp: ac_simps)
    have ids2: "leaderPartitionIDs rt2 = ?ids" using rt2(2) ids' leaderPartitionIDs_cong [of rt2 rt'] by simp
    have k1: "unat (of_nat (k + 1) :: Offset) = k + 1"
      using rem rest(3) [OF p] by (intro unat_of_nat_small) simp
    have at2: "at_rest log key rt2"
      using others Some dist rem k1 unfolding at_rest_def ids2 by (auto simp: rt2(3) simp del: of_nat_add)
    have "remaining topic (log q) (view (rt_consumers rt2) key q) =
        (if q = p then filter (\<lambda>m. msg_Topic m = topic) (drop (Suc k) (log p)) else remaining topic (log q) (?v q))"
      if "q \<in> set ?ids" for q
      using others [OF that] Some k1 by (auto simp: rt2(3) remaining_def simp del: of_nat_add)
    then have "backlog log topic key rt2 = filter (\<lambda>m. msg_Topic m = topic) (drop (Suc k) (log p)) @
        concat (map (\<lambda>p. remaining topic (log p) (?v p)) zs)"
      using dist ids(3) unfolding ids2 ids(1) by (intro concat_map_at) auto
    moreover have "backlog log topic key rt = log p ! k # filter (\<lambda>m. msg_Topic m = topic) (drop (Suc k) (log p)) @
        concat (map (\<lambda>p. remaining topic (log p) (?v p)) zs)"
      using dist ids(3) rem unfolding ids(1) by (subst concat_map_at) auto
    moreover have "r = Some (log p ! k)" "rt_partition rt' = rt_partition rt"
      using poll(2) Some k by (simp_all add: poll_effect_def Let_def)
    ultimately show ?thesis using Poll rt2(1,2) at2 by auto
  qed
qed

lemma consume_all_backlog:
  fixes topic grp :: string
  assumes "topic \<noteq> []" and "grp \<noteq> []" and "\<And>p. p \<in> set (leaderPartitionIDs rt) \<Longrightarrow> holds s p (log p)"
    and "at_rest log (consumerKey topic grp) rt" and "length (backlog log topic (consumerKey topic grp) rt) < fuel"
  shows "\<exists>rt'. consume_all fuel (read s) rt topic grp = Some (rt', backlog log topic (consumerKey topic grp) rt) \<and>
    at_rest log (consumerKey topic grp) rt' \<and> backlog log topic (consumerKey topic grp) rt' = []"
  using assms(3-5)
proof (induction fuel arbitrary: rt)
  case 0
  then show ?case by simp
next
  case (Suc fuel)
  note turn = Poll_turn [OF assms(1,2) Suc.prems(1,2)]
  show ?case
  proof (cases "backlog log topic (consumerKey topic grp) rt")
    case Nil
    with turn show ?thesis by (auto simp del: concat_eq_Nil_conv)
  next
    case (Cons m ms)
    with turn obtain rt1 rt2 where rt2: "Poll (read s) rt topic grp = Some (rt1, Inr (Some m))" "Ack None rt1 (msg_ID m) = (rt2, None)"
        "at_rest log (consumerKey topic grp) rt2" "rt_partition rt2 = rt_partition rt" "backlog log topic (consumerKey topic grp) rt2 = ms"
      by auto
    have "leaderPartitionIDs rt2 = leaderPartitionIDs rt" by (rule leaderPartitionIDs_cong [OF rt2(4)])
    then have "\<exists>rt'. consume_all fuel (read s) rt2 topic grp = Some (rt', ms) \<and>
        at_rest log (consumerKey topic grp) rt' \<and> backlog log topic (consumerKey topic grp) rt' = []"
      using Suc.IH [of rt2] Suc.prems(1,3) rt2(3,5) Cons by simp
    with rt2(1,2) Cons show ?thesis by auto
  qed
qed

end

section \<open>Properties of consumption\<close>

text \<open>
  C4: A group that has nothing in flight, polls a node and acknowledges what it gets receives everything its topic has left on the
  node: from every partition the node leads the messages of the topic from the group's cursor on, each
  once and in append order, partition after partition in the order of their IDs, however many messages of other topics lie
  between them. It needs one poll per message and one more, and then nothing is left. Every poll returns.
\<close>

theorem group_drains_node:
  assumes "topic \<noteq> []" and "grp \<noteq> []" and "\<forall>p \<in> set (leaderPartitionIDs rt). disk_holds s p (log p)"
    and "at_rest log (consumerKey topic grp) rt" and "length (backlog log topic (consumerKey topic grp) rt) < fuel"
  shows "\<exists>rt'. consume_all fuel (disk_read s) rt topic grp =
      Some (rt', concat (map (\<lambda>p. filter (\<lambda>m. msg_Topic m = topic)
        (drop (unat (pc_nextOffset (view (rt_consumers rt) (consumerKey topic grp) p))) (log p))) (leaderPartitionIDs rt))) \<and>
    at_rest log (consumerKey topic grp) rt' \<and> backlog log topic (consumerKey topic grp) rt' = []"
  using ps.consume_all_backlog [OF assms(1,2) _ assms(4,5)] assms(3) by (simp add: remaining_def)

definition sample_node :: Node where
  "sample_node = \<lparr>node_ID = ''q0'', node_Address = ''http://q0''\<rparr>"

definition sample_runtime :: Runtime where
  "sample_runtime = NewRuntime (NewPartitionManager sample_node (AssignPartitions [sample_node] 1 1)) None"

lemma view_sample_runtime [simp]: "view (rt_consumers sample_runtime) g p = fresh_partition"
  by (simp add: sample_runtime_def NewRuntime_def)

lemma one_message_disk:
  "\<exists>s. disk_append (opened_disk 0) 0 sample_message = (s, Inr 0) \<and> disk_holds s 0 [sample_message]"
  using ps.append_law [OF opened_disk_holds, of sample_message 0] by auto

text \<open>
  C11: Polling always returns. It goes through the partitions that the node leads in the order of their IDs and
  delivers the first message that is due: of the first partition where the group has nothing in
  flight and a message of the topic at or behind its cursor, the first such message, which is then in flight. If no
  partition has one, it returns no message and no error. Other groups are not affected.
\<close>

theorem poll_delivers_first_due:
  assumes "topic \<noteq> []" and "grp \<noteq> []" and "distinct (leaderPartitionIDs rt)"
    and "\<forall>p \<in> set (leaderPartitionIDs rt). disk_holds s p (log p) \<and>
      unat (pc_nextOffset (view (rt_consumers rt) (consumerKey topic grp) p)) \<le> length (log p)"
  shows "\<exists>rt' r. Poll (disk_read s) rt topic grp = Some (rt', Inr r) \<and>
    (case find (\<lambda>p. pending topic (log p) (view (rt_consumers rt) (consumerKey topic grp) p) \<noteq> None) (leaderPartitionIDs rt) of
       None \<Rightarrow> r = None
     | Some p \<Rightarrow> (\<exists>k. pending topic (log p) (view (rt_consumers rt) (consumerKey topic grp) p) = Some k \<and>
         r = Some (log p ! k) \<and>
         view (rt_consumers rt') (consumerKey topic grp) p = \<lparr>pc_nextOffset = of_nat k,
           pc_inflight = Some (delivery (consumerKey topic grp) p (of_nat k) (msg_ID (log p ! k)))\<rparr>)) \<and>
    (\<forall>g q. g \<noteq> consumerKey topic grp \<longrightarrow> view (rt_consumers rt') g q = view (rt_consumers rt) g q)"
proof -
  let ?key = "consumerKey topic grp"
  let ?found = "find (\<lambda>p. pending topic (log p) (view (rt_consumers rt) ?key p) \<noteq> None) (leaderPartitionIDs rt)"
  obtain rt' r where rt': "poll_partitions (disk_read s) rt ?key topic (leaderPartitionIDs rt) = Some (rt', Inr r)"
      "poll_effect rt ?key topic log (leaderPartitionIDs rt) r rt'"
    using ps.poll_partitions_effect [OF assms(3)] assms(4) by blast
  have "\<exists>k. pending topic (log p) (view (rt_consumers rt) ?key p) = Some k" if "?found = Some p" for p
    using that by (auto simp: find_Some_iff)
  then show ?thesis
    using rt' assms(1,2)
    by (intro exI [of _ rt'] exI [of _ r], cases ?found)
       (fastforce simp: Poll_def poll_effect_def Let_def simp del: not_None_eq)+
qed

lemma sample_runtime_leads: "leaderPartitionIDs sample_runtime = [0]"
  by (simp add: leaderPartitionIDs_def sample_runtime_def NewRuntime_def PartitionManager_Partitions_def
      NewPartitionManager_def AssignPartitions_def IsLeader_def assign_replica_def Let_def)

theorem group_drains_node_witness:
  "\<exists>s rt'. disk_append (opened_disk 0) 0 sample_message = (s, Inr 0) \<and>
    consume_all 2 (disk_read s) sample_runtime (msg_Topic sample_message) ''g'' = Some (rt', [sample_message])"
proof -
  obtain s where s: "disk_append (opened_disk 0) 0 sample_message = (s, Inr 0)" "disk_holds s 0 [sample_message]"
    using one_message_disk by blast
  have "msg_Topic sample_message \<noteq> []" by (simp add: sample_message_def)
  from group_drains_node [OF this, of "''g''" sample_runtime s "\<lambda>_. [sample_message]" 2] s
  show ?thesis by (auto simp: sample_runtime_leads at_rest_def remaining_def fresh_partition_def)
qed

theorem poll_delivers_first_due_witness:
  "\<exists>s rt' r. disk_append (opened_disk 0) 0 sample_message = (s, Inr 0) \<and>
     Poll (disk_read s) sample_runtime (msg_Topic sample_message) ''g'' = Some (rt', Inr r) \<and> r = Some sample_message"
proof -
  obtain s where s: "disk_append (opened_disk 0) 0 sample_message = (s, Inr 0)" "disk_holds s 0 [sample_message]"
    using one_message_disk by blast
  have "msg_Topic sample_message \<noteq> []" by (simp add: sample_message_def)
  from poll_delivers_first_due [OF this, of "''g''" sample_runtime s "\<lambda>_. [sample_message]"] s
  have "\<exists>rt' r. Poll (disk_read s) sample_runtime (msg_Topic sample_message) ''g'' = Some (rt', Inr r) \<and> r = Some sample_message"
    by (auto simp: sample_runtime_leads fresh_partition_def pending_def)
  with s(1) show ?thesis by blast
qed

section \<open>Publishing\<close>

lemma partitionNextOffset_open:
  assumes "st_states st pid = Some state" and "pid \<in> set ids"
  shows "partitionNextOffset st ids pid = ps_nextOffset state"
proof -
  have "find (\<lambda>s. snap_ID s = pid) (PartitionStore_Snapshot st ids) =
      Some \<lparr>snap_ID = pid, snap_NextOffset = ps_nextOffset state\<rparr>"
    using assms(2)
    by (induction ids) (auto simp: PartitionStore_Snapshot_def find_append assms(1) split: option.splits)
  then show ?thesis by (simp add: partitionNextOffset_def)
qed

lemma Publish_local:
  fixes send :: "'w \<Rightarrow> RemoteReplicator \<Rightarrow> int \<Rightarrow> Record \<Rightarrow> 'w \<times> go_error option"
  assumes "routePartition rt topic (message\<lparr>msg_Topic := topic\<rparr>) = Inr pid" and "IsLeader (rt_partition rt) pid"
    and "disk_holds (fs, st) pid ms" and "storable (message\<lparr>msg_Topic := topic\<rparr>)" and "length ms + 1 < 2 ^ 64"
    and "pid \<in> set ids" and "Publish send None io_ok ids w fs st rt topic message = (w', fs', st', rt', e)"
  shows "(e = None \<longleftrightarrow> (\<forall>replication c. rt_replication rt = Some replication \<longrightarrow> replication pid = Some c \<longrightarrow>
      snd (coordinate send w c pid \<lparr>rec_Offset = of_nat (length ms), rec_Message = message\<lparr>msg_Topic := topic\<rparr>\<rparr>) = None)) \<and>
    (e = None \<longrightarrow> rt' = count_published rt \<and> disk_holds (fs', st') pid (ms @ [message\<lparr>msg_Topic := topic\<rparr>]) \<and>
      (\<forall>q ms'. q \<noteq> pid \<longrightarrow> disk_holds (fs, st) q ms' \<longrightarrow> disk_holds (fs', st') q ms')) \<and>
    (e \<noteq> None \<longrightarrow> fs' = fs \<and> st' = st \<and> rt' = rt)"
proof -
  let ?m = "message\<lparr>msg_Topic := topic\<rparr>"
  obtain s1 where s1: "disk_append (fs, st) pid ?m = (s1, Inr (of_nat (length ms)))" "disk_holds s1 pid (ms @ [?m])"
      "\<forall>q ms'. q \<noteq> pid \<longrightarrow> disk_holds (fs, st) q ms' \<longrightarrow> disk_holds s1 q ms'"
    using ps.append_law [OF assms(3-5)] by blast
  then have app: "append_published None io_ok fs st rt pid ?m = (fst s1, snd s1, count_published rt, None)"
    by (auto simp: append_published_def disk_append_def split: prod.splits)
  have off: "partitionNextOffset st ids pid = of_nat (length ms)"
    using partitionNextOffset_open [OF _ assms(6)] assms(3) by (simp add: disk_holds_def partition_holds_def)
  show ?thesis
  proof (cases "rt_replication rt")
    case None
    with assms(1,2,7) app s1 show ?thesis by (auto simp: Publish_def)
  next
    case (Some replication)
    show ?thesis
    proof (cases "replication pid")
      case None
      with Some assms(1,2,7) app s1 show ?thesis by (auto simp: Publish_def)
    next
      case (Some c)
      with \<open>rt_replication rt = Some replication\<close> assms(1,2,7) app off s1 show ?thesis
        by (cases "coordinate send w c pid \<lparr>rec_Offset = of_nat (length ms), rec_Message = ?m\<rparr>")
           (auto simp: Publish_def split: option.splits)
    qed
  qed
qed

text \<open>
  C10: On a working disk a publish at the leader is all or nothing: it appends the message at the end of the
  partition that topic and routing key select, leaves all other partitions as they are, counts it and returns nil,
  or it returns the error of the replication and changes nothing on the leader. It succeeds exactly if the partition has no
  coordinator or the coordinator, given the record with the next offset, succeeds.
\<close>

theorem publish_all_or_nothing:
  fixes send :: "'w \<Rightarrow> RemoteReplicator \<Rightarrow> int \<Rightarrow> Record \<Rightarrow> 'w \<times> go_error option"
  assumes "routePartition rt topic (message\<lparr>msg_Topic := topic\<rparr>) = Inr pid" and "IsLeader (rt_partition rt) pid"
    and "disk_holds (fs, st) pid ms" and "storable (message\<lparr>msg_Topic := topic\<rparr>)" and "length ms + 1 < 2 ^ 64"
    and "pid \<in> set ids" and "Publish send None io_ok ids w fs st rt topic message = (w', fs', st', rt', e)"
  shows "(e = None \<longleftrightarrow> (\<forall>replication c. rt_replication rt = Some replication \<longrightarrow> replication pid = Some c \<longrightarrow>
      snd (coordinate send w c pid \<lparr>rec_Offset = of_nat (length ms), rec_Message = message\<lparr>msg_Topic := topic\<rparr>\<rparr>) = None)) \<and>
    (e = None \<longrightarrow> rt' = count_published rt \<and> disk_holds (fs', st') pid (ms @ [message\<lparr>msg_Topic := topic\<rparr>]) \<and>
      (\<forall>q ms'. q \<noteq> pid \<longrightarrow> disk_holds (fs, st) q ms' \<longrightarrow> disk_holds (fs', st') q ms')) \<and>
    (e \<noteq> None \<longrightarrow> fs' = fs \<and> st' = st \<and> rt' = rt)"
  by (rule Publish_local [OF assms])

lemma sample_route: "routePartition sample_runtime topic m = Inr 0"
proof -
  have "AssignPartitions [sample_node] 1 1 = [\<lparr>part_ID = 0, part_Replicas = [assign_replica [sample_node] 0 0]\<rparr>]"
    by (simp add: AssignPartitions_def)
  then show ?thesis
    by (simp add: routePartition_def sample_runtime_def NewRuntime_def PartitionManager_Partitions_def
        NewPartitionManager_def Route_eq)
qed

lemma sample_leader: "IsLeader (rt_partition sample_runtime) 0"
  by (simp add: sample_runtime_def NewRuntime_def IsLeader_assigned)

theorem publish_all_or_nothing_witness:
  "\<exists>w' fs' st' rt'. Publish (\<lambda>w rr pid r. (w, None)) None io_ok [0] () (fst (opened_disk 0)) (snd (opened_disk 0)) sample_runtime
       (msg_Topic sample_message) sample_message = (w', fs', st', rt', None) \<and>
     rt' = count_published sample_runtime \<and> disk_holds (fs', st') 0 [sample_message]"
proof -
  let ?pub = "Publish (\<lambda>w rr pid r. (w, None)) None io_ok [0] () (fst (opened_disk 0)) (snd (opened_disk 0)) sample_runtime
       (msg_Topic sample_message) sample_message"
  obtain w' fs' st' rt' e where pub: "?pub = (w', fs', st', rt', e)"
    by (metis prod_cases5)
  have m: "sample_message\<lparr>msg_Topic := msg_Topic sample_message\<rparr> = sample_message" by simp
  have none: "rt_replication sample_runtime = None" by (simp add: sample_runtime_def NewRuntime_def)
  from publish_all_or_nothing [OF sample_route sample_leader _ _ _ _ pub, of "[]"] show ?thesis
    using pub none by (simp add: m)
qed

end
