(* ===== verification/Queue_Handlers.thy ===== *)
theory Queue_Handlers
  imports Runtime
begin

text \<open>
  The queue's HTTP interface: the handlers for publish, consume, acknowledge, replicate, statistics and
  metrics, and the routes of \<^verbatim>\<open>newQueueMux\<close>. A handler takes the request and the state it acts
  on and returns the new state and the response. The JSON encoder and decoder are
  arguments (\<open>json\<close>), given in Wire_Format; a decoder returns \<open>None\<close> where Go's returns an error. Log calls are left out.

  The lemmas state which status a client sees for which outcome, that a publish to any node
  reaches the partition's leader in at most one hop, and that a record replicated over HTTP is accepted exactly if the
  follower's store accepts it.
\<close>

section \<open>Requests\<close>

record publishRequest =
  pr_Topic :: string
  pr_ID :: string
  pr_RoutingKey :: string
  pr_Payload :: bytes

record json =
  js_publish :: "string \<Rightarrow> publishRequest option"
  js_ack :: "string \<Rightarrow> string option"
  js_replication :: "string \<Rightarrow> (int \<times> Record) option"
  js_of_publish :: "publishRequest \<Rightarrow> go_error + string"
  js_of_replication :: "int \<Rightarrow> Record \<Rightarrow> go_error + string"
  js_of_message :: "Message \<Rightarrow> go_error + string"
  js_of_stats :: "RuntimeStats \<Rightarrow> ReplicationMetrics \<Rightarrow> go_error + string"

definition MethodNotAllowed :: server_response where
  "MethodNotAllowed = http_Error ''method not allowed'' 405"

section \<open>Publish\<close>

definition forwardToLeader :: "json \<Rightarrow> network \<Rightarrow> Node \<Rightarrow> publishRequest \<Rightarrow> server_response" where
  "forwardToLeader js net leader request =
     (case js_of_publish js request of
        Inl e \<Rightarrow> http_Error ''invalid request'' 400
      | Inr payload \<Rightarrow>
          (let url = TrimRight (node_Address leader) (CHR ''/'') @ ''/publish'' in
           case net_url_error net url of
             Some e \<Rightarrow> http_Error (Error e) 500
           | None \<Rightarrow>
               (case net_do net (post_json url payload) of
                  Inl e \<Rightarrow> http_Error (Error e) 502
                | Inr resp \<Rightarrow>
                    (let contentType = first_value (resp_Header resp) ''Content-Type'' in
                     \<lparr>w_Status = resp_StatusCode resp,
                      w_Header = (if contentType = [] then [] else [(''Content-Type'', contentType)]),
                      w_Body = resp_Body resp\<rparr>))))"

definition publish_message :: "publishRequest \<Rightarrow> Message" where
  "publish_message request =
     \<lparr>msg_Topic = pr_Topic request, msg_ID = pr_ID request, msg_RoutingKey = pr_RoutingKey request,
      msg_Payload = pr_Payload request\<rparr>"

definition PublishHandler_ServeHTTP ::
  "json \<Rightarrow> network \<Rightarrow> ('w \<Rightarrow> RemoteReplicator \<Rightarrow> int \<Rightarrow> Record \<Rightarrow> 'w \<times> go_error option) \<Rightarrow> io \<Rightarrow> int list \<Rightarrow>
     go_error + Node list \<Rightarrow> 'w \<Rightarrow> filesystem \<Rightarrow> PartitionStore \<Rightarrow> Runtime \<Rightarrow> server_request \<Rightarrow>
     'w \<times> filesystem \<times> PartitionStore \<times> Runtime \<times> server_response" where
  "PublishHandler_ServeHTTP js net send io ids nodes w fs st rt r =
     (if sr_Method r \<noteq> ''POST'' then (w, fs, st, rt, MethodNotAllowed)
      else (case js_publish js (sr_Body r) of
          None \<Rightarrow> (w, fs, st, rt, http_Error ''invalid request'' 400)
        | Some request \<Rightarrow>
            if pr_Topic request = [] then (w, fs, st, rt, http_Error ''topic is required'' 400)
            else if pr_ID request = [] then (w, fs, st, rt, http_Error ''id is required'' 400)
            else if pr_Payload request = [] then (w, fs, st, rt, http_Error ''payload is required'' 400)
            else (let message = publish_message request in
              case PartitionLeader nodes rt (pr_Topic request) message of
                Inl e \<Rightarrow> (w, fs, st, rt, http_Error (Error e) 500)
              | Inr (leader, _, local) \<Rightarrow>
                  if \<not> local then (w, fs, st, rt, forwardToLeader js net leader request)
                  else (case Publish send (sr_ctx r) io ids w fs st rt (pr_Topic request) message of
                      (w1, fs1, st1, rt1, None) \<Rightarrow> (w1, fs1, st1, rt1, reply 202)
                    | (w1, fs1, st1, rt1, Some e) \<Rightarrow>
                        (let status = (if e = ErrReplicationQuorum then 503
                              else if e = ErrNotPartitionLeader then 409 else 500)
                         in (w1, fs1, st1, rt1, http_Error (Error e) status))))))"

section \<open>Consume and acknowledge\<close>

definition ConsumeHandler_ServeHTTP ::
  "json \<Rightarrow> (int \<Rightarrow> Offset \<Rightarrow> go_error + Message) \<Rightarrow> Runtime \<Rightarrow> server_request \<Rightarrow> (Runtime \<times> server_response) option" where
  "ConsumeHandler_ServeHTTP js rd rt r =
     (if sr_Method r \<noteq> ''GET'' then Some (rt, MethodNotAllowed)
      else (let topic = first_value (sr_Query r) ''topic''; grp = first_value (sr_Query r) ''group'' in
        if topic = [] then Some (rt, http_Error ''topic is required'' 400)
        else if grp = [] then Some (rt, http_Error ''group is required'' 400)
        else do {
          (rt1, polled) \<leftarrow> Poll rd rt topic grp;
          Some (rt1, case polled of
              Inl e \<Rightarrow> http_Error (Error e) 500
            | Inr None \<Rightarrow> reply 204
            | Inr (Some message) \<Rightarrow>
                (case js_of_message js message of
                   Inl e \<Rightarrow> http_Error (Error e) 500
                 | Inr body \<Rightarrow> reply_body ''application/json'' (body @ [newline])))
        }))"

definition AckHandler_ServeHTTP :: "json \<Rightarrow> Runtime \<Rightarrow> server_request \<Rightarrow> Runtime \<times> server_response" where
  "AckHandler_ServeHTTP js rt r =
     (if sr_Method r \<noteq> ''POST'' then (rt, MethodNotAllowed)
      else (case js_ack js (sr_Body r) of
          None \<Rightarrow> (rt, http_Error ''invalid request'' 400)
        | Some messageID \<Rightarrow>
            if messageID = [] then (rt, http_Error ''message_id is required'' 400)
            else (case Ack (sr_ctx r) rt messageID of
                (rt1, None) \<Rightarrow> (rt1, reply 204)
              | (rt1, Some e) \<Rightarrow>
                  (rt1, http_Error (Error e) (if e = ErrMessageNotInflight then 404 else 500)))))"

section \<open>Replication\<close>

definition ReplicationHandler_ServeHTTP ::
  "json \<Rightarrow> io \<Rightarrow> filesystem \<Rightarrow> PartitionStore \<Rightarrow> server_request \<Rightarrow> filesystem \<times> PartitionStore \<times> server_response" where
  "ReplicationHandler_ServeHTTP js io fs st r =
     (if sr_Method r \<noteq> ''POST'' then (fs, st, MethodNotAllowed)
      else (case js_replication js (sr_Body r) of
          None \<Rightarrow> (fs, st, http_Error ''invalid request'' 400)
        | Some (pid, record) \<Rightarrow>
            (case PartitionStore_AppendRecord (sr_ctx r) io fs st pid record of
               (fs1, st1, None) \<Rightarrow> (fs1, st1, reply 200)
             | (fs1, st1, Some e) \<Rightarrow>
                 (fs1, st1, http_Error (Error e) (if errors_Is e ErrUnexpectedOffset then 409 else 500)))))"

section \<open>Statistics and metrics\<close>

definition no_replication :: ReplicationMetrics where
  "no_replication = \<lparr>rm_Attempts = 0, rm_Successes = 0, rm_Failures = 0, rm_QuorumFailures = 0\<rparr>"

definition replication_snapshot :: "ReplicationMetrics option \<Rightarrow> ReplicationMetrics" where
  "replication_snapshot metrics =
     (case metrics of None \<Rightarrow> no_replication | Some m \<Rightarrow> ReplicationMetrics_Snapshot m)"

definition StatsHandler_ServeHTTP ::
  "json \<Rightarrow> int list \<Rightarrow> PartitionStore \<Rightarrow> ReplicationMetrics option \<Rightarrow> Runtime \<Rightarrow> server_request \<Rightarrow> Runtime \<times> server_response" where
  "StatsHandler_ServeHTTP js ids st metrics rt r =
     (if sr_Method r \<noteq> ''GET'' then (rt, MethodNotAllowed)
      else (case Stats st ids rt of
          (rt1, stats) \<Rightarrow>
            (rt1, case js_of_stats js stats (replication_snapshot metrics) of
                Inl e \<Rightarrow> http_Error (Error e) 500
              | Inr body \<Rightarrow> reply_body ''application/json'' (body @ [newline]))))"

definition writeMetric :: "string \<Rightarrow> string \<Rightarrow> string \<Rightarrow> uint64 \<Rightarrow> string" where
  "writeMetric kind name help v =
     ''# HELP '' @ name @ '' '' @ help @ [newline] @ ''# TYPE '' @ name @ '' '' @ kind @ [newline] @
     name @ '' '' @ itoa (uint v) @ [newline]"

definition writeCounterMetric :: "string \<Rightarrow> string \<Rightarrow> uint64 \<Rightarrow> string" where
  "writeCounterMetric name help v = writeMetric ''counter'' name help v"

definition writeGaugeMetric :: "string \<Rightarrow> string \<Rightarrow> uint64 \<Rightarrow> string" where
  "writeGaugeMetric name help v = writeMetric ''gauge'' name help v"

definition partition_line :: "RuntimePartitionStats \<Rightarrow> string" where
  "partition_line p =
     ''queue_partition_next_offset{partition='' @ Quote (itoa (rps_ID p)) @ '',role='' @ Quote (rps_Role p) @ ''} '' @
     itoa (uint (rps_NextOffset p)) @ [newline]"

definition consumer_lines :: "RuntimeConsumerStats \<Rightarrow> RuntimeConsumerPartitionStats \<Rightarrow> string" where
  "consumer_lines c p =
     (let labels = ''{topic='' @ Quote (rcs_Topic c) @ '',group='' @ Quote (rcs_Group c) @
            '',partition='' @ Quote (itoa (cps_PartitionID p)) @ ''} ''
      in ''queue_consumer_next_offset'' @ labels @ itoa (uint (cps_NextOffset p)) @ [newline] @
         ''queue_consumer_inflight'' @ labels @ (if cps_Inflight p then ''1'' else ''0'') @ [newline])"

definition metrics_body :: "RuntimeStats \<Rightarrow> ReplicationMetrics \<Rightarrow> string" where
  "metrics_body stats replication =
     writeCounterMetric ''queue_messages_published_total'' ''Total messages accepted for publish.'' (qm_Published (rs_Counters stats)) @
     writeCounterMetric ''queue_messages_delivered_total'' ''Total messages delivered to consumers.'' (qm_Delivered (rs_Counters stats)) @
     writeCounterMetric ''queue_messages_acked_total'' ''Total messages acknowledged by consumers.'' (qm_Acked (rs_Counters stats)) @
     writeGaugeMetric ''queue_inflight_messages'' ''Messages currently delivered but not yet acknowledged.'' (qm_Inflight (rs_Counters stats)) @
     writeCounterMetric ''queue_replication_attempts_total'' ''Total follower replication attempts.'' (rm_Attempts replication) @
     writeCounterMetric ''queue_replication_successes_total'' ''Total successful follower replications.'' (rm_Successes replication) @
     writeCounterMetric ''queue_replication_failures_total'' ''Total failed follower replications.'' (rm_Failures replication) @
     writeCounterMetric ''queue_replication_quorum_failures_total'' ''Total replication quorum failures.'' (rm_QuorumFailures replication) @
     ''# HELP queue_partition_next_offset Next readable offset for a partition on this node.'' @ [newline] @
     ''# TYPE queue_partition_next_offset gauge'' @ [newline] @
     concat (map partition_line (rs_Partitions stats)) @
     ''# HELP queue_consumer_next_offset Next offset to deliver for a consumer group partition.'' @ [newline] @
     ''# TYPE queue_consumer_next_offset gauge'' @ [newline] @
     ''# HELP queue_consumer_inflight Whether a consumer group partition currently has an inflight message.'' @ [newline] @
     ''# TYPE queue_consumer_inflight gauge'' @ [newline] @
     concat (map (\<lambda>c. concat (map (consumer_lines c) (rcs_Partitions c))) (rs_Consumers stats))"

definition MetricsHandler_ServeHTTP ::
  "int list \<Rightarrow> PartitionStore \<Rightarrow> ReplicationMetrics option \<Rightarrow> Runtime \<Rightarrow> server_request \<Rightarrow> Runtime \<times> server_response" where
  "MetricsHandler_ServeHTTP ids st metrics rt r =
     (if sr_Method r \<noteq> ''GET'' then (rt, MethodNotAllowed)
      else (case Stats st ids rt of
          (rt1, stats) \<Rightarrow>
            (rt1, reply_body ''text/plain; version=0.0.4'' (metrics_body stats (replication_snapshot metrics)))))"

section \<open>Routes\<close>

text \<open>The whole server of a queue node: \<^verbatim>\<open>newQueueMux\<close>, on a node's state.\<close>

record queue_node =
  qn_fs :: filesystem
  qn_store :: PartitionStore
  qn_runtime :: Runtime
  qn_metrics :: ReplicationMetrics

definition newQueueMux ::
  "json \<Rightarrow> network \<Rightarrow> ('w \<Rightarrow> RemoteReplicator \<Rightarrow> int \<Rightarrow> Record \<Rightarrow> 'w \<times> go_error option) \<Rightarrow> io \<Rightarrow> int list \<Rightarrow>
     go_error + Node list \<Rightarrow> 'w \<Rightarrow> queue_node \<Rightarrow> server_request \<Rightarrow> ('w \<times> queue_node \<times> server_response) option" where
  "newQueueMux js net send io ids nodes w n r =
     (if sr_Path r = ''/health'' then Some (w, n, reply 200)
      else if sr_Path r = ''/internal/replicate'' then
        (case ReplicationHandler_ServeHTTP js io (qn_fs n) (qn_store n) r of
           (fs, st, resp) \<Rightarrow> Some (w, n\<lparr>qn_fs := fs, qn_store := st\<rparr>, resp))
      else if sr_Path r = ''/publish'' then
        (case PublishHandler_ServeHTTP js net send io ids nodes w (qn_fs n) (qn_store n) (qn_runtime n) r of
           (w1, fs, st, rt, resp) \<Rightarrow> Some (w1, n\<lparr>qn_fs := fs, qn_store := st, qn_runtime := rt\<rparr>, resp))
      else if sr_Path r = ''/consume'' then
        map_option (\<lambda>(rt, resp). (w, n\<lparr>qn_runtime := rt\<rparr>, resp))
          (ConsumeHandler_ServeHTTP js (PartitionStore_Read (sr_ctx r) io (qn_fs n) (qn_store n)) (qn_runtime n) r)
      else if sr_Path r = ''/ack'' then
        (case AckHandler_ServeHTTP js (qn_runtime n) r of (rt, resp) \<Rightarrow> Some (w, n\<lparr>qn_runtime := rt\<rparr>, resp))
      else if sr_Path r = ''/stats'' then
        (case StatsHandler_ServeHTTP js ids (qn_store n) (Some (qn_metrics n)) (qn_runtime n) r of
           (rt, resp) \<Rightarrow> Some (w, n\<lparr>qn_runtime := rt\<rparr>, resp))
      else if sr_Path r = ''/metrics'' then
        (case MetricsHandler_ServeHTTP ids (qn_store n) (Some (qn_metrics n)) (qn_runtime n) r of
           (rt, resp) \<Rightarrow> Some (w, n\<lparr>qn_runtime := rt\<rparr>, resp))
      else Some (w, n, http_Error ''404 page not found'' 404))"

section \<open>Properties of the handlers\<close>

lemma coordinate_error: "snd (coordinate send w c pid r) = Some e \<Longrightarrow> e = ErrReplicationQuorum"
  by (auto simp: coordinate_def Replicate_result split: if_splits prod.splits)

lemma Publish_leader_error:
  assumes "Publish send None io_ok ids w fs st rt topic message = (w', fs', st', rt', Some e)"
    and "routePartition rt topic (message\<lparr>msg_Topic := topic\<rparr>) = Inr pid" and "IsLeader (rt_partition rt) pid"
    and "disk_holds (fs, st) pid ms" and "storable (message\<lparr>msg_Topic := topic\<rparr>)" and "length ms + 1 < 2 ^ 64"
  shows "e = ErrReplicationQuorum"
proof -
  obtain s1 where "disk_append (fs, st) pid (message\<lparr>msg_Topic := topic\<rparr>) = (s1, Inr (of_nat (length ms)))"
    using ps.append_law [OF assms(4-6)] by blast
  then have app: "append_published None io_ok fs st rt pid (message\<lparr>msg_Topic := topic\<rparr>) = (fst s1, snd s1, count_published rt, None)"
    by (auto simp: append_published_def disk_append_def split: prod.splits)
  show ?thesis
    using assms(1-3) app coordinate_error [of send w _ pid _ e]
    by (auto simp: Publish_def Let_def split: option.splits prod.splits) (metis snd_conv)
qed

text \<open>At the leader, the handler's answer is that of \<open>Publish\<close>.\<close>

lemma publish_handler_leader:
  fixes send :: "'w \<Rightarrow> RemoteReplicator \<Rightarrow> int \<Rightarrow> Record \<Rightarrow> 'w \<times> go_error option"
  assumes "sr_Method r = ''POST''" and "sr_ctx r = None" and "js_publish js (sr_Body r) = Some request"
    and "pr_Topic request \<noteq> []" and "pr_ID request \<noteq> []" and "pr_Payload request \<noteq> []"
    and "routePartition rt (pr_Topic request) (publish_message request) = Inr pid" and "IsLeader (rt_partition rt) pid"
  shows "PublishHandler_ServeHTTP js net send io_ok ids nodes w fs st rt r =
    (case Publish send None io_ok ids w fs st rt (pr_Topic request) (publish_message request) of
       (w1, fs1, st1, rt1, None) \<Rightarrow> (w1, fs1, st1, rt1, reply 202)
     | (w1, fs1, st1, rt1, Some e) \<Rightarrow>
         (w1, fs1, st1, rt1, http_Error (Error e) (if e = ErrReplicationQuorum then 503
            else if e = ErrNotPartitionLeader then 409 else 500)))"
proof -
  have m: "(publish_message request)\<lparr>msg_Topic := pr_Topic request\<rparr> = publish_message request" by (simp add: publish_message_def)
  have "PartitionLeader nodes rt (pr_Topic request) (publish_message request) = Inr (LocalNode (rt_partition rt), pid, True)"
    using assms(7,8) by (simp add: PartitionLeader_def m)
  then show ?thesis using assms(1-6) by (simp add: PublishHandler_ServeHTTP_def)
qed

text \<open>
  What a client learns from a publish at the leader, on a working disk: status 202 means that
  the message of the request, and nothing else, was appended to the partition its topic and routing key select; any other
  status is 503, and the node's log and counters are as they were.
\<close>

lemma publish_handler_local:
  fixes send :: "'w \<Rightarrow> RemoteReplicator \<Rightarrow> int \<Rightarrow> Record \<Rightarrow> 'w \<times> go_error option"
  assumes "sr_Method r = ''POST''" and "sr_ctx r = None" and "js_publish js (sr_Body r) = Some request"
    and "pr_Topic request \<noteq> []" and "pr_ID request \<noteq> []" and "pr_Payload request \<noteq> []"
    and "routePartition rt (pr_Topic request) (publish_message request) = Inr pid" and "IsLeader (rt_partition rt) pid"
    and "disk_holds (fs, st) pid ms" and "storable (publish_message request)" and "length ms + 1 < 2 ^ 64"
    and "pid \<in> set ids"
    and "PublishHandler_ServeHTTP js net send io_ok ids nodes w fs st rt r = (w', fs', st', rt', resp)"
  shows "if w_Status resp = 202
    then disk_holds (fs', st') pid (ms @ [publish_message request]) \<and> rt' = count_published rt \<and>
      (\<forall>q ms'. q \<noteq> pid \<longrightarrow> disk_holds (fs, st) q ms' \<longrightarrow> disk_holds (fs', st') q ms')
    else w_Status resp = 503 \<and> fs' = fs \<and> st' = st \<and> rt' = rt"
proof -
  let ?m = "publish_message request"
  have m: "?m\<lparr>msg_Topic := pr_Topic request\<rparr> = ?m" by (simp add: publish_message_def)
  note handler = publish_handler_leader [OF assms(1-8), where net = net and send = send and ids = ids and nodes = nodes and w = w and fs = fs and st = st]
  obtain w1 fs1 st1 rt1 e where pub: "Publish send None io_ok ids w fs st rt (pr_Topic request) ?m = (w1, fs1, st1, rt1, e)"
    by (metis prod_cases5)
  have route: "routePartition rt (pr_Topic request) (?m\<lparr>msg_Topic := pr_Topic request\<rparr>) = Inr pid"
    and storable: "storable (?m\<lparr>msg_Topic := pr_Topic request\<rparr>)"
    using assms(7,10) by (simp_all only: m)
  note effect = Publish_local [OF route assms(8,9) storable assms(11,12) pub, unfolded m]
  show ?thesis
  proof (cases e)
    case None
    with handler pub effect assms(13) show ?thesis by simp
  next
    case (Some err)
    have "err = ErrReplicationQuorum"
      by (rule Publish_leader_error [OF pub [unfolded Some] route assms(8,9) storable assms(11)])
    with Some handler pub effect assms(13) show ?thesis by simp
  qed
qed

text \<open>A codec that knows one request of each kind, for the examples.\<close>

definition sample_request :: publishRequest where
  "sample_request = \<lparr>pr_Topic = msg_Topic sample_message, pr_ID = msg_ID sample_message,
     pr_RoutingKey = msg_RoutingKey sample_message, pr_Payload = msg_Payload sample_message\<rparr>"

definition sample_json :: json where
  "sample_json = \<lparr>js_publish = (\<lambda>_. Some sample_request), js_ack = (\<lambda>_. Some (msg_ID sample_message)),
     js_replication = (\<lambda>_. Some (0, \<lparr>rec_Offset = 0, rec_Message = sample_message\<rparr>)),
     js_of_publish = (\<lambda>_. Inr ''{}''), js_of_replication = (\<lambda>_ _. Inr ''{}''), js_of_message = (\<lambda>_. Inr ''{}''),
     js_of_stats = (\<lambda>_ _. Inr ''{}'')\<rparr>"

definition sample_network :: network where
  "sample_network = \<lparr>net_url_error = (\<lambda>_. None),
     net_do = (\<lambda>_. Inr \<lparr>resp_StatusCode = 200, resp_Status = ''200 OK'', resp_Header = [], resp_Body = []\<rparr>)\<rparr>"

definition sample_post :: "string \<Rightarrow> server_request" where
  "sample_post path = \<lparr>sr_Method = ''POST'', sr_Path = path, sr_Query = [], sr_Body = ''{}'', sr_ctx = None\<rparr>"

lemma sample_publish_message [simp]: "publish_message sample_request = sample_message"
  by (simp add: publish_message_def sample_request_def)



text \<open>
  Replication over HTTP is the follower's append: when the follower's handler receives what the
  leader's transport sends, the transport reports success exactly if the record's offset is the follower's next
  one, and then the follower holds the message; otherwise the follower answers 409 and is unchanged. The JSON codec has to give the
  request back.
\<close>

lemma replicate_over_http:
  assumes "disk_holds (fs, st) pid ms" and "storable (rec_Message r)" and "length ms + 1 < 2 ^ 64"
    and "js_of_replication js pid r = Inr body" and "js_replication js body = Some (pid, r)"
    and "net_url_error net (replication_url path node) = None"
    and "ReplicationHandler_ServeHTTP js io_ok fs st
      \<lparr>sr_Method = ''POST'', sr_Path = path, sr_Query = [], sr_Body = body, sr_ctx = None\<rparr> = (fs', st', resp)"
    and "net_do net (post_json (replication_url path node) body) =
      Inr \<lparr>resp_StatusCode = w_Status resp, resp_Status = status, resp_Header = w_Header resp, resp_Body = w_Body resp\<rparr>"
  shows "if rec_Offset r = of_nat (length ms)
    then HTTPReplicationTransport_Replicate (js_of_replication js) net path node pid r = None \<and>
      disk_holds (fs', st') pid (ms @ [rec_Message r])
    else HTTPReplicationTransport_Replicate (js_of_replication js) net path node pid r \<noteq> None \<and>
      w_Status resp = 409 \<and> fs' = fs \<and> st' = st"
proof (cases "rec_Offset r = of_nat (length ms)")
  case True
  obtain s' where s': "disk_append_record (fs, st) pid r = (s', None)" "disk_holds s' pid (ms @ [rec_Message r])"
    using ps.accept_law [OF assms(1-3) True] by blast
  then have "fs' = fst s'" "st' = snd s'" "w_Status resp = 200"
    using assms(5,7) by (auto simp: disk_append_record_def ReplicationHandler_ServeHTTP_def split: prod.splits)
  with s' True assms(4,6,8) show ?thesis
    by (simp add: HTTPReplicationTransport_Replicate_def)
next
  case False
  obtain e where e: "disk_append_record (fs, st) pid r = ((fs, st), Some e)" "errors_Is e ErrUnexpectedOffset"
    using ps.reject_law [OF assms(1) False] by blast
  then have "fs' = fs" "st' = st" "w_Status resp = 409"
    using assms(5,7) by (auto simp: disk_append_record_def ReplicationHandler_ServeHTTP_def split: prod.splits)
  with False assms(4,6,8) show ?thesis
    by (simp add: HTTPReplicationTransport_Replicate_def Let_def)
qed

lemma replicate_over_http_witness:
  "\<exists>fs' st' resp. ReplicationHandler_ServeHTTP sample_json io_ok (fst (opened_disk 0)) (snd (opened_disk 0)) (sample_post ''/r'') =
       (fs', st', resp) \<and>
     HTTPReplicationTransport_Replicate (js_of_replication sample_json) sample_network ''/r'' sample_node 0
       \<lparr>rec_Offset = 0, rec_Message = sample_message\<rparr> = None \<and>
     disk_holds (fs', st') 0 [sample_message]"
proof -
  obtain fs' st' resp where handled: "ReplicationHandler_ServeHTTP sample_json io_ok (fst (opened_disk 0)) (snd (opened_disk 0))
      (sample_post ''/r'') = (fs', st', resp)"
    by (metis prod_cases3)
  obtain s' where "disk_append_record (opened_disk 0) 0 \<lparr>rec_Offset = 0, rec_Message = sample_message\<rparr> = (s', None)"
    using ps.accept_law [OF opened_disk_holds, of "\<lparr>rec_Offset = 0, rec_Message = sample_message\<rparr>" 0] by auto
  then have resp: "resp = reply 200"
    using handled by (auto simp: disk_append_record_def ReplicationHandler_ServeHTTP_def sample_json_def sample_post_def split: prod.splits)
  have "if rec_Offset \<lparr>rec_Offset = 0, rec_Message = sample_message\<rparr> = of_nat (length ([] :: Message list))
    then HTTPReplicationTransport_Replicate (js_of_replication sample_json) sample_network ''/r'' sample_node 0
        \<lparr>rec_Offset = 0, rec_Message = sample_message\<rparr> = None \<and>
      disk_holds (fs', st') 0 ([] @ [rec_Message \<lparr>rec_Offset = 0, rec_Message = sample_message\<rparr>])
    else HTTPReplicationTransport_Replicate (js_of_replication sample_json) sample_network ''/r'' sample_node 0
        \<lparr>rec_Offset = 0, rec_Message = sample_message\<rparr> \<noteq> None \<and>
      w_Status resp = 409 \<and> fs' = fst (opened_disk 0) \<and> st' = snd (opened_disk 0)"
    by (rule replicate_over_http [where body = "''{}''" and status = "''200 OK''"])
       (use handled in \<open>simp_all add: sample_json_def sample_network_def sample_post_def resp reply_def\<close>)
  with handled show ?thesis by simp
qed

end
