(* ===== verification/Net_Url.thy ===== *)
theory Net_Url
  imports Go_Http "HOL-Library.List_Lexorder" "HOL-Library.Char_ord"
begin

text \<open>
  The part of \<^verbatim>\<open>net/url\<close> and \<^verbatim>\<open>path\<close> with which the clients build their requests and the servers read them:
  query escaping, query values, their text form and its parser. The parser of whole URLs and their text
  form are arguments of the definitions that use them; a parsed URL is the record \<open>url\<close>. The lemmas show that a
  query survives the way from a client to a server, whatever bytes its values hold.
\<close>

section \<open>Query escaping\<close>

definition upper_hex :: "nat \<Rightarrow> char" where
  "upper_hex d = (if d < 10 then char_of (48 + d) else char_of (55 + d))"

text \<open>The bytes that a query component keeps: letters, digits and four marks.\<close>

definition unreserved :: "char \<Rightarrow> bool" where
  "unreserved c \<longleftrightarrow>
     (let n = (of_char c :: nat) in
      48 \<le> n \<and> n \<le> 57 \<or> 65 \<le> n \<and> n \<le> 90 \<or> 97 \<le> n \<and> n \<le> 122 \<or> c \<in> {CHR ''-'', CHR ''_'', CHR ''.'', CHR ''~''})"

definition escape_char :: "char \<Rightarrow> string" where
  "escape_char c =
     (if unreserved c then [c]
      else if c = CHR '' '' then ''+''
      else [CHR ''%'', upper_hex (of_char c div 16), upper_hex (of_char c mod 16)])"

definition QueryEscape :: "string \<Rightarrow> string" where
  "QueryEscape s = concat (map escape_char s)"

text \<open>\<^verbatim>\<open>None\<close> is the error of a percent sign without two hexadecimal digits behind it.\<close>

fun QueryUnescape :: "string \<Rightarrow> string option" where
  "QueryUnescape [] = Some []"
| "QueryUnescape (c # s) =
     (if c = CHR ''%'' then
        (case s of
           a # b # s' \<Rightarrow>
             (case (unhex a, unhex b) of
                (Some x, Some y) \<Rightarrow> map_option ((#) (char_of (16 * x + y))) (QueryUnescape s')
              | _ \<Rightarrow> None)
         | _ \<Rightarrow> None)
      else map_option ((#) (if c = CHR ''+'' then CHR '' '' else c)) (QueryUnescape s))"

lemma unhex_upper_hex [simp]: "d < 16 \<Longrightarrow> unhex (upper_hex d) = Some d"
  by (auto simp: unhex_def upper_hex_def Let_def)

lemma QueryUnescape_escape_char: "QueryUnescape (escape_char c @ s) = map_option ((#) c) (QueryUnescape s)"
proof -
  have hex: "(of_char c :: nat) mod 16 < 16" "char_of (16 * (of_char c div 16) + of_char c mod 16 :: nat) = c"
    by simp_all
  have "c \<noteq> CHR ''%'' \<and> c \<noteq> CHR ''+''" if "unreserved c"
    using that by (auto simp: unreserved_def)
  with hex of_char_div_16 [of c] show ?thesis by (auto simp: escape_char_def)
qed

lemma QueryUnescape_QueryEscape [simp]: "QueryUnescape (QueryEscape s) = Some s"
  by (induction s) (simp_all add: QueryEscape_def QueryUnescape_escape_char)

section \<open>Query values\<close>

text \<open>
  \<^verbatim>\<open>url.Values\<close> as the list of its pairs; only the order of the pairs of one key is meaningful.
  \<^verbatim>\<open>Get\<close> is \<open>first_value\<close>, the first value of a key or the empty string. \<^verbatim>\<open>Encode\<close> sorts by key.
\<close>

type_synonym url_values = "(string \<times> string) list"

definition values_Set :: "string \<Rightarrow> string \<Rightarrow> url_values \<Rightarrow> url_values" where
  "values_Set k v vs = filter (\<lambda>kv. fst kv \<noteq> k) vs @ [(k, v)]"

definition values_Encode :: "url_values \<Rightarrow> string" where
  "values_Encode vs = Join (map (\<lambda>(k, v). QueryEscape k @ ''='' @ QueryEscape v) (sort_key fst vs)) ''&''"

text \<open>
  \<^verbatim>\<open>ParseQuery\<close> without its error, which \<^verbatim>\<open>URL.Query\<close> drops: settings with a semicolon or a bad escape are skipped,
  as are empty ones.
\<close>

definition parse_setting :: "string \<Rightarrow> url_values" where
  "parse_setting s =
     (if CHR '';'' \<in> set s \<or> s = [] then []
      else (case (QueryUnescape (takeWhile (\<lambda>c. c \<noteq> CHR ''='') s), QueryUnescape (tl (dropWhile (\<lambda>c. c \<noteq> CHR ''='') s))) of
          (Some k, Some v) \<Rightarrow> [(k, v)]
        | _ \<Rightarrow> []))"

definition ParseQuery :: "string \<Rightarrow> url_values" where
  "ParseQuery query = concat (map parse_setting (Split query (CHR ''&'')))"

lemma upper_hex_safe: "d < 16 \<Longrightarrow> upper_hex d \<noteq> CHR ''&'' \<and> upper_hex d \<noteq> CHR '';'' \<and> upper_hex d \<noteq> CHR ''=''"
  by (auto simp: upper_hex_def char_of_eq_iff take_bit_nat_eq_self)

lemma QueryEscape_safe: "c \<in> set (QueryEscape s) \<Longrightarrow> c \<noteq> CHR ''&'' \<and> c \<noteq> CHR '';'' \<and> c \<noteq> CHR ''=''"
proof -
  assume "c \<in> set (QueryEscape s)"
  then obtain d where d: "c \<in> set (escape_char d)" by (auto simp: QueryEscape_def)
  have "(of_char d :: nat) div 16 < 16" "(of_char d :: nat) mod 16 < 16" by (simp_all add: of_char_div_16)
  with d upper_hex_safe show ?thesis by (auto simp: escape_char_def unreserved_def split: if_splits)
qed

lemma parse_setting_pair: "parse_setting (QueryEscape k @ ''='' @ QueryEscape v) = [(k, v)]"
proof -
  have safe: "CHR ''='' \<notin> set (QueryEscape k)" "CHR '';'' \<notin> set (QueryEscape k)" "CHR '';'' \<notin> set (QueryEscape v)"
    using QueryEscape_safe by blast+
  then have "takeWhile (\<lambda>c. c \<noteq> CHR ''='') (QueryEscape k @ ''='' @ QueryEscape v) = QueryEscape k"
    "dropWhile (\<lambda>c. c \<noteq> CHR ''='') (QueryEscape k @ ''='' @ QueryEscape v) = ''='' @ QueryEscape v"
    by (subst takeWhile_append2 dropWhile_append2; auto)+
  with safe show ?thesis by (simp add: parse_setting_def)
qed

lemma ParseQuery_Encode: "ParseQuery (values_Encode vs) = sort_key fst vs"
proof (cases "vs = []")
  case True
  then show ?thesis by (simp add: ParseQuery_def values_Encode_def parse_setting_def)
next
  case False
  let ?texts = "map (\<lambda>(k, v). QueryEscape k @ ''='' @ QueryEscape v) (sort_key fst vs)"
  have "?texts \<noteq> []" using False by (metis length_0_conv length_map length_sort)
  moreover have "CHR ''&'' \<notin> set x" if "x \<in> set ?texts" for x
    using that QueryEscape_safe by fastforce
  ultimately have "Split (values_Encode vs) (CHR ''&'') = ?texts"
    unfolding values_Encode_def by (rule Split_Join)
  moreover have "concat (map parse_setting (map (\<lambda>(k, v). QueryEscape k @ ''='' @ QueryEscape v) xs)) = xs" for xs
    by (induction xs) (auto simp: parse_setting_pair [simplified])
  ultimately show ?thesis by (simp add: ParseQuery_def)
qed

lemma map_of_sort_key: "map_of (sort_key fst (vs :: url_values)) k = map_of vs k"
proof -
  have "filter (\<lambda>kv. fst kv = k) (sort_key fst vs) = filter (\<lambda>kv. fst kv = k) vs"
    by (rule sort_key_stable)
  moreover have "map_of xs k = map_option snd (find (\<lambda>kv. fst kv = k) xs)" for xs :: url_values
    by (induction xs) auto
  moreover have "find P xs = (case filter P xs of [] \<Rightarrow> None | x # _ \<Rightarrow> Some x)" for P and xs :: url_values
    by (induction xs) auto
  ultimately show ?thesis by metis
qed

lemma first_value_ParseQuery [simp]: "first_value (ParseQuery (values_Encode vs)) k = first_value vs k"
  by (simp add: ParseQuery_Encode first_value_def map_of_sort_key)

lemma first_value_Set [simp]: "first_value (values_Set k v vs) k' = (if k' = k then v else first_value vs k')"
proof -
  have "map_of (filter (\<lambda>kv. fst kv \<noteq> k) vs) k' = (if k' = k then None else map_of vs k')"
    by (induction vs) auto
  then show ?thesis by (simp add: first_value_def values_Set_def map_add_def split: option.splits)
qed

section \<open>URLs\<close>

text \<open>
  A parsed URL: what the code looks at, and the rest (user, fragment, opaque part), which it copies.
\<close>

record url =
  url_Scheme :: string
  url_Host :: string
  url_Path :: string
  url_RawQuery :: string
  url_rest :: string

record url_library =
  ul_Parse :: "string \<Rightarrow> go_error + url"
  ul_String :: "url \<Rightarrow> string"

text \<open>\<^verbatim>\<open>path.Join\<close> of two elements is \<^verbatim>\<open>filepath.Join\<close> on Unix.\<close>

definition path_Join :: "string \<Rightarrow> string \<Rightarrow> string" where
  "path_Join a b = filepath_Join a b"

end
