(* ===== verification/Telemetry.thy ===== *)
theory Telemetry
  imports Queue_Handlers Net_Url
begin

text \<open>
  The producer side (package \<^verbatim>\<open>telemetry\<close>): the telemetry record and the queue message made of it
  (\<^verbatim>\<open>record.go\<close>), the CSV reader (\<^verbatim>\<open>csv_reader.go\<close>), the replayer with its shards and its retries
  (\<^verbatim>\<open>replay.go\<close>) and the HTTP producer (\<^verbatim>\<open>http_producer.go\<close>).

  A time is a number of nanoseconds since 1970; a duration is a 64-bit integer of nanoseconds, as in
  Go. Formatting a time and JSON are arguments; Wire_Format has the JSON. What the world does to a loop is a list: the rows that the CSV
  decoder returns, and for the retry loop one \<open>attempt\<close> per iteration, with the clock, the state of the context and the
  answer of the producer.
\<close>

section \<open>Records\<close>

record TelemetryRecord =
  tr_Timestamp :: string
  tr_MetricName :: string
  tr_GPUID :: string
  tr_Device :: string
  tr_UUID :: string
  tr_ModelName :: string
  tr_Hostname :: string
  tr_Container :: string
  tr_Pod :: string
  tr_Namespace :: string
  tr_Value :: string
  tr_LabelsRaw :: string

definition WithTimestamp :: "(int \<Rightarrow> string) \<Rightarrow> TelemetryRecord \<Rightarrow> int \<Rightarrow> TelemetryRecord" where
  "WithTimestamp rfc3339 r processedAt = r\<lparr>tr_Timestamp := rfc3339 processedAt\<rparr>"

definition RoutingKey :: "TelemetryRecord \<Rightarrow> string" where
  "RoutingKey r =
     (if tr_UUID r \<noteq> [] then tr_UUID r
      else if tr_Device r \<noteq> [] then tr_Device r
      else if tr_GPUID r \<noteq> [] then tr_GPUID r
      else tr_MetricName r)"

definition MessageID :: "uint64 \<Rightarrow> int \<Rightarrow> string" where
  "MessageID sequence processedAt = itoa processedAt @ ''-'' @ itoa (uint sequence)"

definition QueueMessage ::
  "(TelemetryRecord \<Rightarrow> go_error + bytes) \<Rightarrow> (int \<Rightarrow> string) \<Rightarrow> TelemetryRecord \<Rightarrow> uint64 \<Rightarrow> int \<Rightarrow> go_error + Message" where
  "QueueMessage marshal rfc3339 r sequence processedAt =
     (case marshal (WithTimestamp rfc3339 r processedAt) of
        Inl e \<Rightarrow> Inl (Wrapf ''marshal telemetry payload: '' e [])
      | Inr payload \<Rightarrow>
          Inr \<lparr>msg_Topic = [], msg_ID = MessageID sequence processedAt, msg_RoutingKey = RoutingKey r,
               msg_Payload = payload\<rparr>)"

section \<open>The CSV reader\<close>

definition requiredColumns :: "string list" where
  "requiredColumns =
     [''timestamp'', ''metric_name'', ''gpu_id'', ''device'', ''uuid'', ''modelName'', ''Hostname'',
      ''container'', ''pod'', ''namespace'', ''value'', ''labels_raw'']"

text \<open>The map from column names to positions; of two columns with one name the later one is kept.\<close>

definition csv_columns :: "string list \<Rightarrow> string \<rightharpoonup> nat" where
  "csv_columns header = map_of (rev (zip header [0..<length header]))"

definition field :: "string list \<Rightarrow> (string \<rightharpoonup> nat) \<Rightarrow> string \<Rightarrow> string" where
  "field row columns name =
     (case columns name of
        None \<Rightarrow> []
      | Some index \<Rightarrow> if length row \<le> index then [] else row ! index)"

definition csv_record :: "(string \<rightharpoonup> nat) \<Rightarrow> string list \<Rightarrow> TelemetryRecord" where
  "csv_record columns row =
     \<lparr>tr_Timestamp = field row columns ''timestamp'', tr_MetricName = field row columns ''metric_name'',
      tr_GPUID = field row columns ''gpu_id'', tr_Device = field row columns ''device'',
      tr_UUID = field row columns ''uuid'', tr_ModelName = field row columns ''modelName'',
      tr_Hostname = field row columns ''Hostname'', tr_Container = field row columns ''container'',
      tr_Pod = field row columns ''pod'', tr_Namespace = field row columns ''namespace'',
      tr_Value = field row columns ''value'', tr_LabelsRaw = field row columns ''labels_raw''\<rparr>"

text \<open>
  \<open>reads\<close> are the results of the successive calls of \<^verbatim>\<open>csvReader.Read\<close>; behind the end of the list it
  returns \<^verbatim>\<open>io.EOF\<close>.
\<close>

fun csv_rows :: "(string \<rightharpoonup> nat) \<Rightarrow> nat \<Rightarrow> (go_error + string list) list \<Rightarrow> go_error + TelemetryRecord list" where
  "csv_rows columns line [] = Inr []"
| "csv_rows columns line (r # reads) =
     (case r of
        Inl e \<Rightarrow> if e = EOF then Inr [] else Inl (Wrapf (''read telemetry row '' @ itoa (int line) @ '': '') e [])
      | Inr row \<Rightarrow> sum_bind (csv_rows columns (line + 1) reads) (\<lambda>rest. Inr (csv_record columns row # rest)))"

definition ReadCSV :: "(go_error + string list) list \<Rightarrow> go_error + TelemetryRecord list" where
  "ReadCSV reads =
     (case (case reads of [] \<Rightarrow> Inl EOF | r # _ \<Rightarrow> r) of
        Inl e \<Rightarrow> if e = EOF then Inl (Errorf ''telemetry csv is empty'') else Inl (Wrapf ''read telemetry header: '' e [])
      | Inr header \<Rightarrow>
          (let columns = csv_columns header in
           case find (\<lambda>name. columns name = None) requiredColumns of
             Some name \<Rightarrow> Inl (Errorf (''telemetry csv missing column '' @ Quote name))
           | None \<Rightarrow>
               sum_bind (csv_rows columns 2 (tl reads)) (\<lambda>records.
                 if records = [] then Inl (Errorf ''telemetry csv has no rows'') else Inr records)))"

definition LoadFile :: "go_error + (go_error + string list) list \<Rightarrow> go_error + TelemetryRecord list" where
  "LoadFile opened =
     (case opened of
        Inl e \<Rightarrow> Inl (Wrapf ''open telemetry csv: '' e [])
      | Inr reads \<Rightarrow> ReadCSV reads)"

section \<open>The replayer\<close>

type_synonym duration = "64 word"

record Replayer =
  rp_topic :: string
  rp_retryInitial :: duration
  rp_retryMax :: duration
  rp_shardIndex :: int
  rp_shardCount :: int

definition NewReplayer :: "string \<Rightarrow> duration \<Rightarrow> duration \<Rightarrow> int \<Rightarrow> int \<Rightarrow> Replayer" where
  "NewReplayer topic retryInitial retryMax shardIndex shardCount =
     \<lparr>rp_topic = topic, rp_retryInitial = retryInitial, rp_retryMax = retryMax, rp_shardIndex = shardIndex, rp_shardCount = shardCount\<rparr>"

definition recordsForShard :: "Replayer \<Rightarrow> 'r list \<Rightarrow> go_error + 'r list" where
  "recordsForShard rp records =
     (if rp_shardCount rp \<le> 0 then Inl (Errorf ''streamer shard count must be greater than zero'')
      else if rp_shardIndex rp < 0 \<or> rp_shardCount rp \<le> rp_shardIndex rp
        then Inl (Errorf ''streamer shard index must be between 0 and shard count - 1'')
      else if rp_shardCount rp = 1 then Inr records
      else (let shardRecords = map snd (filter (\<lambda>(index, record). int index mod rp_shardCount rp = rp_shardIndex rp) (enumerate 0 records))
            in if shardRecords = []
               then Inl (Errorf (''streamer shard '' @ itoa (rp_shardIndex rp) @ '' of '' @ itoa (rp_shardCount rp) @ '' has no records assigned''))
               else Inr shardRecords))"

text \<open>
  One iteration of the retry loop: the context when it is checked first, the clock, the
  producer's answer, the context after a failed publish and the end of the sleep.
\<close>

record attempt =
  at_ctx :: "go_error option"
  at_now :: int
  at_publish :: "go_error option"
  at_ctx_after :: "go_error option"
  at_sleep :: "go_error option"

text \<open>
  The loop returns what it published (every message it passed to the producer, with the
  producer's answer), the durations it slept and the attempts it left over; \<open>None\<close> as the
  result means that the attempts are used up and it is still retrying.
\<close>

record retry_log =
  rl_published :: "(Message \<times> go_error option) list"
  rl_sleeps :: "duration list"
  rl_rest :: "attempt list"
  rl_result :: "go_error option option"

definition next_backoff :: "duration \<Rightarrow> duration \<Rightarrow> duration" where
  "next_backoff retryMax backoff = (let b = backoff * 2 in if retryMax <s b then retryMax else b)"

fun publish_loop ::
  "(TelemetryRecord \<Rightarrow> go_error + bytes) \<Rightarrow> (int \<Rightarrow> string) \<Rightarrow> Replayer \<Rightarrow> TelemetryRecord \<Rightarrow> uint64 \<Rightarrow> duration \<Rightarrow>
     attempt list \<Rightarrow> retry_log" where
  "publish_loop marshal rfc3339 rp r sequence backoff [] =
     \<lparr>rl_published = [], rl_sleeps = [], rl_rest = [], rl_result = None\<rparr>"
| "publish_loop marshal rfc3339 rp r sequence backoff (a # attempts) =
     (case at_ctx a of
        Some e \<Rightarrow> \<lparr>rl_published = [], rl_sleeps = [], rl_rest = attempts, rl_result = Some (Some e)\<rparr>
      | None \<Rightarrow>
     (case QueueMessage marshal rfc3339 r sequence (at_now a) of
        Inl e \<Rightarrow> \<lparr>rl_published = [], rl_sleeps = [], rl_rest = attempts, rl_result = Some (Some e)\<rparr>
      | Inr message \<Rightarrow>
     (let sent = (message\<lparr>msg_Topic := rp_topic rp\<rparr>, at_publish a) in
      case at_publish a of
        None \<Rightarrow> \<lparr>rl_published = [sent], rl_sleeps = [], rl_rest = attempts, rl_result = Some None\<rparr>
      | Some _ \<Rightarrow>
     (case at_ctx_after a of
        Some e \<Rightarrow> \<lparr>rl_published = [sent], rl_sleeps = [], rl_rest = attempts, rl_result = Some (Some e)\<rparr>
      | None \<Rightarrow>
     (case at_sleep a of
        Some e \<Rightarrow> \<lparr>rl_published = [sent], rl_sleeps = [backoff], rl_rest = attempts, rl_result = Some (Some e)\<rparr>
      | None \<Rightarrow>
          (let l = publish_loop marshal rfc3339 rp r sequence (next_backoff (rp_retryMax rp) backoff) attempts
           in l\<lparr>rl_published := sent # rl_published l, rl_sleeps := backoff # rl_sleeps l\<rparr>))))))"

definition publishWithRetry ::
  "(TelemetryRecord \<Rightarrow> go_error + bytes) \<Rightarrow> (int \<Rightarrow> string) \<Rightarrow> Replayer \<Rightarrow> TelemetryRecord \<Rightarrow> uint64 \<Rightarrow> attempt list \<Rightarrow> retry_log" where
  "publishWithRetry marshal rfc3339 rp r sequence attempts =
     publish_loop marshal rfc3339 rp r sequence (rp_retryInitial rp) attempts"

text \<open>
  \<^verbatim>\<open>Stream\<close> runs for ever over the shard's records. The model follows it for the records of one list
  \<open>todo\<close>, a part of the endless repetition of the shard; \<open>ctxs\<close> holds the state of the context
  before each record. A result \<open>None\<close> means that the list, the contexts or the attempts are used up.
\<close>

fun stream_loop ::
  "(TelemetryRecord \<Rightarrow> go_error + bytes) \<Rightarrow> (int \<Rightarrow> string) \<Rightarrow> Replayer \<Rightarrow> TelemetryRecord list \<Rightarrow> go_error option list \<Rightarrow> uint64 \<Rightarrow>
     attempt list \<Rightarrow> (Message \<times> go_error option) list \<times> go_error option" where
  "stream_loop marshal rfc3339 rp (r # todo) (ctx # ctxs) sequence attempts =
     (case ctx of
        Some e \<Rightarrow> ([], Some e)
      | None \<Rightarrow>
          (let l = publishWithRetry marshal rfc3339 rp r sequence attempts in
           case rl_result l of
             None \<Rightarrow> (rl_published l, None)
           | Some (Some e) \<Rightarrow> (rl_published l, Some e)
           | Some None \<Rightarrow>
               (case stream_loop marshal rfc3339 rp todo ctxs (sequence + 1) (rl_rest l) of
                  (published, e) \<Rightarrow> (rl_published l @ published, e))))"
| "stream_loop marshal rfc3339 rp _ _ sequence attempts = ([], None)"

definition Stream ::
  "(TelemetryRecord \<Rightarrow> go_error + bytes) \<Rightarrow> (int \<Rightarrow> string) \<Rightarrow> Replayer \<Rightarrow> TelemetryRecord list \<Rightarrow> nat \<Rightarrow> go_error option list \<Rightarrow>
     attempt list \<Rightarrow> (Message \<times> go_error option) list \<times> go_error option" where
  "Stream marshal rfc3339 rp records cycles ctxs attempts =
     (if records = [] then ([], Some (Errorf ''no telemetry records to publish''))
      else (case recordsForShard rp records of
          Inl e \<Rightarrow> ([], Some e)
        | Inr shardRecords \<Rightarrow>
            stream_loop marshal rfc3339 rp (concat (replicate cycles shardRecords)) ctxs 0 attempts))"

section \<open>The HTTP producer\<close>

text \<open>
  The constructor's result is the producer's publish URL; a nil client stands for the default client. The body of the request is the JSON of topic, ID,
  routing key and payload.
\<close>

definition NewHTTPProducer :: "url_library \<Rightarrow> string \<Rightarrow> go_error + string" where
  "NewHTTPProducer lib queueURL =
     (case ul_Parse lib queueURL of
        Inl e \<Rightarrow> Inl (Wrapf ''parse queue url: '' e [])
      | Inr u \<Rightarrow> Inr (ul_String lib (u\<lparr>url_Path := TrimRight (url_Path u) (CHR ''/'') @ ''/publish''\<rparr>)))"

definition HTTPProducer_Publish ::
  "(publishRequest \<Rightarrow> go_error + string) \<Rightarrow> network \<Rightarrow> string \<Rightarrow> string \<Rightarrow> Message \<Rightarrow> go_error option" where
  "HTTPProducer_Publish marshal net publishURL topic m =
     (case marshal \<lparr>pr_Topic = topic, pr_ID = msg_ID m, pr_RoutingKey = msg_RoutingKey m, pr_Payload = msg_Payload m\<rparr> of
        Inl e \<Rightarrow> Some (Wrapf ''marshal publish request: '' e [])
      | Inr body \<Rightarrow>
     (case net_url_error net publishURL of
        Some e \<Rightarrow> Some (Wrapf ''create publish request: '' e [])
      | None \<Rightarrow>
     (case net_do net (post_json publishURL body) of
        Inl e \<Rightarrow> Some (Wrapf ''publish message: '' e [])
      | Inr resp \<Rightarrow>
          if resp_StatusCode resp = 202 then None
          else (let text = TrimSpace (limit_body 4096 (resp_Body resp));
                    messageText = (if text = [] then StatusText (resp_StatusCode resp) else text)
                in Some (Errorf (''publish message: '' @ resp_Status resp @ '': '' @ messageText))))))"

section \<open>Message IDs\<close>

lemma itoa_last_part:
  assumes "itoa i @ ''-'' @ itoa (int m) = itoa j @ ''-'' @ itoa (int n)"
  shows "i = j \<and> m = n"
proof -
  have digits: "CHR ''-'' \<notin> set (dec_nat k)" for k
    using dec_nat_digits [of k] by (auto simp: list_all_iff)
  have "rev (itoa (int m)) @ ''-'' @ rev (itoa i) = rev (itoa (int n)) @ ''-'' @ rev (itoa j)"
    using arg_cong [OF assms, of rev] by simp
  moreover have "takeWhile (\<lambda>c. c \<noteq> CHR ''-'') (rev (itoa (int k)) @ ''-'' @ x) = rev (itoa (int k))" for k x
    using digits [of k] by (subst takeWhile_append2) (auto simp: itoa_def)
  ultimately have "rev (itoa (int m)) = rev (itoa (int n))" by metis
  then have "m = n" by simp
  with assms show ?thesis by simp
qed

lemma MessageID_inject: "MessageID s t = MessageID s' t' \<longleftrightarrow> s = s' \<and> t = t'"
proof -
  have "MessageID s t = itoa t @ ''-'' @ itoa (int (unat s))" for s t by (simp add: MessageID_def)
  then have "MessageID s t = MessageID s' t' \<Longrightarrow> t = t' \<and> s = s'"
    using itoa_last_part by (metis word_unat_eq_iff)
  then show ?thesis by auto
qed

section \<open>Shards\<close>

lemma mset_buckets:
  assumes "\<And>x. x \<in> set xs \<Longrightarrow> f x < n"
  shows "mset (concat (map (\<lambda>k. filter (\<lambda>x. f x = k) xs) [0..<n])) = mset xs"
  using assms
proof (induction xs)
  case Nil
  then show ?case by simp
next
  case (Cons x xs)
  have "mset (concat (map (\<lambda>k. filter (\<lambda>y. f y = k) (x # xs)) [0..<m])) =
      mset (concat (map (\<lambda>k. filter (\<lambda>y. f y = k) xs) [0..<m])) + (if f x < m then {#x#} else {#})" for m
    by (induction m) (auto simp: less_Suc_eq)
  with Cons show ?case by simp
qed

definition shard :: "'r list \<Rightarrow> nat \<Rightarrow> nat \<Rightarrow> 'r list" where
  "shard records n k = map snd (filter (\<lambda>(i, r). i mod n = k) (enumerate 0 records))"

lemma recordsForShard_eq:
  assumes "rp_shardCount rp = int n" and "rp_shardIndex rp = int k" and "k < n"
  shows "recordsForShard rp records =
    (if n = 1 then Inr records
     else if shard records n k = [] then Inl (Errorf (''streamer shard '' @ itoa (int k) @ '' of '' @ itoa (int n) @ '' has no records assigned''))
     else Inr (shard records n k))"
proof -
  have "(int i mod int n = int k) = (i mod n = k)" for i
    by (metis int_int_eq zmod_int)
  then show ?thesis using assms by (auto simp: recordsForShard_def shard_def Let_def)
qed

lemma shard_1: "shard records 1 0 = records"
  by (simp add: shard_def case_prod_unfold)

lemma mset_shards:
  assumes "0 < n"
  shows "mset (concat (map (shard records n) [0..<n])) = mset records"
proof -
  have "mset (concat (map (\<lambda>k. filter (\<lambda>x. fst x mod n = k) (enumerate 0 records)) [0..<n])) = mset (enumerate 0 records)"
    using assms by (intro mset_buckets) simp
  then have "mset (map snd (concat (map (\<lambda>k. filter (\<lambda>x. fst x mod n = k) (enumerate 0 records)) [0..<n]))) = mset records"
    by (metis map_snd_enumerate mset_map)
  moreover have "map snd (concat (map (\<lambda>k. filter (\<lambda>x. fst x mod n = k) (enumerate 0 records)) [0..<n])) =
      concat (map (shard records n) [0..<n])"
    by (simp add: shard_def [abs_def] map_concat comp_def case_prod_unfold)
  ultimately show ?thesis by simp
qed

lemma shard_empty_iff:
  assumes "k < n"
  shows "shard records n k = [] \<longleftrightarrow> length records \<le> k"
proof -
  have "shard records n k \<noteq> []" if "k < length records"
  proof -
    have "(k, records ! k) \<in> set (enumerate 0 records)" using that by (simp add: in_set_enumerate_eq)
    with assms show ?thesis by (force simp: shard_def filter_empty_conv)
  qed
  moreover have "shard records n k = []" if "length records \<le> k"
    using that assms by (auto simp: shard_def filter_empty_conv in_set_enumerate_eq)
      (metis le_less_trans less_le_not_le mod_less_eq_dividend)
  ultimately show ?thesis by (metis not_le)
qed

text \<open>
  C35: The shards of \<open>n\<close> streamers partition the records: together they publish every record exactly as often as it occurs, and a
  shard is refused exactly if its index is not below the number of records.
\<close>

theorem shards_partition_records:
  assumes "1 < n"
  shows "(\<forall>k < n. case recordsForShard (rp\<lparr>rp_shardCount := int n, rp_shardIndex := int k\<rparr>) records of
      Inl e \<Rightarrow> length records \<le> k \<and> shard records n k = []
    | Inr rs \<Rightarrow> k < length records \<and> rs = shard records n k) \<and>
    mset (concat (map (shard records n) [0..<n])) = mset records"
  using assms mset_shards [of n records]
  by (auto simp: recordsForShard_eq shard_empty_iff not_le)

theorem shards_partition_records_witness:
  "mset (concat (map (shard [10, 20, 30 :: nat] 2) [0..<2])) = {#10, 20, 30#}"
  using shards_partition_records [of 2 "[10, 20, 30 :: nat]" "undefined"] by simp

section \<open>Reading CSV\<close>

lemma csv_columns_nth:
  assumes "distinct header" and "i < length header"
  shows "csv_columns header (header ! i) = Some i"
proof -
  have "(header ! i, i) \<in> set (rev (zip header [0..<length header]))"
    using assms(2) by (auto simp: set_zip)
  moreover have "distinct (map fst (rev (zip header [0..<length header])))"
    using assms(1) by (simp add: rev_map [symmetric])
  ultimately show ?thesis by (simp add: csv_columns_def)
qed

lemma field_cell:
  assumes "distinct header" and "name \<in> set header"
  shows "field (map cell header) (csv_columns header) name = cell name"
proof -
  obtain i where "i < length header" "header ! i = name" using assms(2) by (auto simp: in_set_conv_nth)
  with csv_columns_nth [OF assms(1), of i] show ?thesis by (auto simp: field_def)
qed

lemma csv_rows_map: "csv_rows columns line (map Inr rows) = Inr (map (csv_record columns) rows)"
  by (induction rows arbitrary: line) simp_all

text \<open>
  C36: Columns are found by name: a table whose header has the required columns, in any order and among any others,
  gives one record per row, and each field is the cell of the row in the column of that name.
\<close>

theorem csv_columns_by_name:
  assumes "distinct header" and "set requiredColumns \<subseteq> set header" and "cells \<noteq> []"
  shows "ReadCSV (Inr header # map (\<lambda>cell. Inr (map cell header)) cells) =
    Inr (map (\<lambda>cell. \<lparr>tr_Timestamp = cell ''timestamp'', tr_MetricName = cell ''metric_name'', tr_GPUID = cell ''gpu_id'',
      tr_Device = cell ''device'', tr_UUID = cell ''uuid'', tr_ModelName = cell ''modelName'', tr_Hostname = cell ''Hostname'',
      tr_Container = cell ''container'', tr_Pod = cell ''pod'', tr_Namespace = cell ''namespace'', tr_Value = cell ''value'',
      tr_LabelsRaw = cell ''labels_raw''\<rparr>) cells)"
proof -
  have "csv_columns header name \<noteq> None" if "name \<in> set requiredColumns" for name
    using that assms(1,2) csv_columns_nth by (metis in_set_conv_nth option.distinct(1) subsetD)
  then have all: "find (\<lambda>name. csv_columns header name = None) requiredColumns = None"
    by (simp add: find_None_iff)
  have cell: "field (map cell header) (csv_columns header) name = cell name" if "name \<in> set requiredColumns" for cell name
    using that assms(1,2) by (intro field_cell) auto
  have rows: "csv_rows (csv_columns header) 2 (map (\<lambda>cell. Inr (map cell header)) cells) =
      Inr (map (\<lambda>cell. csv_record (csv_columns header) (map cell header)) cells)"
    using csv_rows_map [of "csv_columns header" 2 "map (\<lambda>cell. map cell header) cells"] by (simp add: comp_def)
  have "csv_record (csv_columns header) (map cell header) = \<lparr>tr_Timestamp = cell ''timestamp'', tr_MetricName = cell ''metric_name'',
      tr_GPUID = cell ''gpu_id'', tr_Device = cell ''device'', tr_UUID = cell ''uuid'', tr_ModelName = cell ''modelName'',
      tr_Hostname = cell ''Hostname'', tr_Container = cell ''container'', tr_Pod = cell ''pod'', tr_Namespace = cell ''namespace'',
      tr_Value = cell ''value'', tr_LabelsRaw = cell ''labels_raw''\<rparr>" for cell
    unfolding csv_record_def by (simp add: cell [unfolded requiredColumns_def])
  then show ?thesis
    using assms(3) by (simp add: ReadCSV_def all rows Let_def)
qed

theorem csv_columns_by_name_witness:
  "ReadCSV [Inr (''extra'' # rev requiredColumns), Inr (map rev (''extra'' # rev requiredColumns))] =
    Inr [\<lparr>tr_Timestamp = ''pmatsemit'', tr_MetricName = ''eman_cirtem'', tr_GPUID = ''di_upg'', tr_Device = ''ecived'',
      tr_UUID = ''diuu'', tr_ModelName = ''emaNledom'', tr_Hostname = ''emantsoH'', tr_Container = ''reniatnoc'',
      tr_Pod = ''dop'', tr_Namespace = ''ecapseman'', tr_Value = ''eulav'', tr_LabelsRaw = ''war_slebal''\<rparr>]"
  using csv_columns_by_name [of "''extra'' # rev requiredColumns" "[rev]"] by (simp add: requiredColumns_def)

section \<open>Retries\<close>

lemma next_backoff_sint:
  assumes "0 < sint b" and "sint b \<le> sint mx" and "sint mx < 2 ^ 62"
  shows "sint (next_backoff mx b) = min (2 * sint b) (sint mx)"
proof -
  have "sint (b * 2) = 2 * sint b"
    using assms signed_take_bit_int_eq_self [of 63 "sint b * 2"] by (simp add: sint_word_ariths)
  then show ?thesis by (simp add: next_backoff_def Let_def word_sless_alt min_def)
qed

lemma publish_loop_sleeps:
  assumes "0 < sint b" and "sint b \<le> sint (rp_retryMax rp)" and "sint (rp_retryMax rp) < 2 ^ 62"
    and "k < length (rl_sleeps (publish_loop marshal rfc3339 rp r sequence b attempts))"
  shows "sint (rl_sleeps (publish_loop marshal rfc3339 rp r sequence b attempts) ! k) = min (sint b * 2 ^ k) (sint (rp_retryMax rp))"
  using assms
proof (induction attempts arbitrary: b k)
  case Nil
  then show ?case by simp
next
  case (Cons a attempts)
  let ?b = "next_backoff (rp_retryMax rp) b"
  have b: "sint ?b = min (2 * sint b) (sint (rp_retryMax rp))" by (rule next_backoff_sint [OF Cons.prems(1-3)])
  show ?case
  proof (cases k)
    case 0
    then show ?thesis
      using Cons.prems by (auto simp: Let_def split: option.splits sum.splits)
  next
    case (Suc j)
    have "sint (rl_sleeps (publish_loop marshal rfc3339 rp r sequence ?b attempts) ! j) =
        min (sint ?b * 2 ^ j) (sint (rp_retryMax rp))"
      if "j < length (rl_sleeps (publish_loop marshal rfc3339 rp r sequence ?b attempts))"
      using that Cons.prems b by (intro Cons.IH) simp_all
    moreover have "min (min (2 * x) m * 2 ^ j) m = min (x * 2 ^ Suc j) m" if "0 < m" "0 < x" for x m :: int
    proof -
      have "m \<le> m * 2 ^ j" "x * 2 \<le> x * 2 ^ Suc j" using that by simp_all
      then show ?thesis by (cases "2 * x \<le> m") (simp_all add: min_def mult.commute mult.left_commute)
    qed
    ultimately show ?thesis
      using Cons.prems Suc b by (auto simp: Let_def split: option.splits sum.splits)
  qed
qed

text \<open>
  The retry loop waits for the initial back-off after the first failure and twice as long after each further one, up to the
  maximum: for durations below 2 to the 62nd nanoseconds no doubling overflows and the \<open>k\<close>-th sleep is \<open>min (initial * 2 ^ k) max\<close>.
\<close>

lemma retry_backoff_bounded:
  assumes "0 < sint (rp_retryInitial rp)" and "sint (rp_retryInitial rp) \<le> sint (rp_retryMax rp)"
    and "sint (rp_retryMax rp) < 2 ^ 62"
    and "k < length (rl_sleeps (publishWithRetry marshal rfc3339 rp r sequence attempts))"
  shows "sint (rl_sleeps (publishWithRetry marshal rfc3339 rp r sequence attempts) ! k) =
    min (sint (rp_retryInitial rp) * 2 ^ k) (sint (rp_retryMax rp))"
  using publish_loop_sleeps [OF assms(1-3)] assms(4) by (simp add: publishWithRetry_def)

text \<open>
  The retry loop returns nil exactly when a publish was answered with nil, and then that was its last one: all publishes before it
  failed, so that a record is accepted by the queue at most once as far as the producer can tell. Every attempt carries the
  topic, the record's routing key and its sequence number.
\<close>

lemma retry_stops_at_first_success:
  assumes "publishWithRetry marshal rfc3339 rp r sequence attempts = l"
  shows "(rl_result l = Some None \<longleftrightarrow> rl_published l \<noteq> [] \<and> snd (last (rl_published l)) = None) \<and>
    None \<notin> snd ` set (butlast (rl_published l)) \<and>
    (\<forall>(m, answer) \<in> set (rl_published l). msg_Topic m = rp_topic rp \<and> msg_RoutingKey m = RoutingKey r \<and>
       (\<exists>now. msg_ID m = MessageID sequence now))"
proof -
  let ?loop = "\<lambda>b as. publish_loop marshal rfc3339 rp r sequence b as"
  have "(rl_result (?loop b as) = Some None \<longleftrightarrow> rl_published (?loop b as) \<noteq> [] \<and> snd (last (rl_published (?loop b as))) = None) \<and>
      None \<notin> snd ` set (butlast (rl_published (?loop b as))) \<and>
      (\<forall>(m, answer) \<in> set (rl_published (?loop b as)). msg_Topic m = rp_topic rp \<and> msg_RoutingKey m = RoutingKey r \<and>
        (\<exists>now. msg_ID m = MessageID sequence now))" for b as
  proof (induction as arbitrary: b)
    case Nil
    then show ?case by simp
  next
    case (Cons a as)
    show ?case
      using Cons.IH [of "next_backoff (rp_retryMax rp) b"]
      by (auto simp: Let_def QueueMessage_def split: option.splits sum.splits)
  qed
  then show ?thesis unfolding assms [symmetric] publishWithRetry_def .
qed

definition sample_replayer :: Replayer where
  "sample_replayer = \<lparr>rp_topic = ''gpu'', rp_retryInitial = 500, rp_retryMax = 1500, rp_shardIndex = 0, rp_shardCount = 1\<rparr>"

definition failed_attempt :: attempt where
  "failed_attempt = \<lparr>at_ctx = None, at_now = 7, at_publish = Some ErrReplicationQuorum, at_ctx_after = None, at_sleep = None\<rparr>"

definition sample_record_t :: TelemetryRecord where
  "sample_record_t = csv_record (csv_columns requiredColumns) requiredColumns"

definition sample_marshal :: "TelemetryRecord \<Rightarrow> go_error + bytes" where
  "sample_marshal r = Inr [1]"

lemma sample_retries:
  "rl_sleeps (publishWithRetry sample_marshal (\<lambda>_. []) sample_replayer sample_record_t 0 (replicate 4 failed_attempt)) = [500, 1000, 1500, 1500]"
  by (simp add: publishWithRetry_def sample_replayer_def failed_attempt_def sample_marshal_def QueueMessage_def numeral_eq_Suc Let_def)
     code_simp

lemma retry_backoff_bounded_witness:
  "sint (rl_sleeps (publishWithRetry sample_marshal (\<lambda>_. []) sample_replayer sample_record_t 0 (replicate 4 failed_attempt)) ! 3) = 1500"
proof -
  have "sint (rl_sleeps (publishWithRetry sample_marshal (\<lambda>_. []) sample_replayer sample_record_t 0 (replicate 4 failed_attempt)) ! 3) =
      min (sint (rp_retryInitial sample_replayer) * 2 ^ 3) (sint (rp_retryMax sample_replayer))"
    by (rule retry_backoff_bounded) (simp_all add: sample_retries, simp_all add: sample_replayer_def)
  then show ?thesis by (simp add: sample_replayer_def)
qed

end
