(* ===== verification/Telemetry_Store.thy ===== *)
theory Telemetry_Store
  imports Telemetry
begin

text \<open>
  The telemetry store on PostgreSQL (\<^verbatim>\<open>store.go\<close>): inserting a record in a transaction, building the
  query for samples, reading samples and listing GPUs. The database is an argument: \<open>database\<close>
  has the four calls of an insert, each of which may fail, and the rows a query returns are a list of
  results. Parsing of times and floating-point numbers are arguments too. The statement that
  \<^verbatim>\<open>buildQuery\<close> returns is modelled to the byte.
\<close>

section \<open>Queries\<close>

text \<open>
  The zero \<^verbatim>\<open>time.Time\<close> is 1 January of year 1.
\<close>

definition zero_time :: int where
  "zero_time = - 62135596800000000000"

record Query =
  q_Start :: int
  q_End :: int
  q_MetricName :: string
  q_UUID :: string
  q_Hostname :: string
  q_GPUID :: string
  q_Device :: string
  q_Limit :: int

datatype sql_arg = ArgTime int | ArgString string | ArgInt int

record GPU =
  gpu_ID :: string
  gpu_GPUID :: string
  gpu_Device :: string
  gpu_UUID :: string
  gpu_ModelName :: string
  gpu_Hostname :: string

definition addFilter :: "string \<Rightarrow> string \<Rightarrow> string list \<times> sql_arg list \<Rightarrow> string list \<times> sql_arg list" where
  "addFilter column v ca =
     (if v = [] then ca
      else (let args = snd ca @ [ArgString v]
            in (fst ca @ [column @ '' = $'' @ itoa (int (length args))], args)))"

definition tab :: string where
  "tab = [char_of (9 :: nat)]"

definition select_columns :: "string list" where
  "select_columns =
     [''sr.metric_name,'', ''sr.gpu_id,'', ''sr.device,'', ''sr.uuid,'', ''sr.model_name,'', ''sr.hostname,'',
      ''sr.container_name,'', ''sr.pod_name,'', ''sr.namespace,'', ''ts.value,'', ''sr.labels_raw'']"

definition select_statement :: string where
  "select_statement =
     ''SELECT'' @ [newline] @ tab @ tab @ ''ts.recorded_at,'' @ [newline] @
     concat (map (\<lambda>c. tab @ tab @ '' '' @ c @ [newline]) select_columns) @
     tab @ ''FROM telemetry_samples ts'' @ [newline] @
     tab @ ''JOIN telemetry_series sr ON sr.id = ts.series_id'' @ [newline] @
     tab @ ''WHERE ''"

definition query_filters :: "Query \<Rightarrow> string list \<times> sql_arg list" where
  "query_filters q =
     addFilter ''sr.device'' (q_Device q) (
     addFilter ''sr.gpu_id'' (q_GPUID q) (
     addFilter ''sr.hostname'' (q_Hostname q) (
     addFilter ''sr.uuid'' (q_UUID q) (
     addFilter ''sr.metric_name'' (q_MetricName q)
       ([''ts.recorded_at >= $1'', ''ts.recorded_at <= $2''], [ArgTime (q_Start q), ArgTime (q_End q)])))))"

definition buildQuery :: "Query \<Rightarrow> string \<times> sql_arg list" where
  "buildQuery q =
     (case query_filters q of (clauses, args) \<Rightarrow>
        let statement = select_statement @ Join clauses '' AND '' @ '' ORDER BY ts.recorded_at ASC'' in
        if 0 < q_Limit q
        then (statement @ '' LIMIT $'' @ itoa (int (length args) + 1), args @ [ArgInt (q_Limit q)])
        else (statement, args))"

section \<open>The store\<close>

text \<open>
  \<^verbatim>\<open>rows.Next\<close>, \<^verbatim>\<open>rows.Scan\<close> and \<^verbatim>\<open>rows.Err\<close>: the results of scanning the rows in order, and the
  error that ended the iteration, if any.
\<close>

fun scan_rows :: "string \<Rightarrow> (go_error + 'a) list \<Rightarrow> go_error + 'a list" where
  "scan_rows msg [] = Inr []"
| "scan_rows msg (r # rows) =
     (case r of
        Inl e \<Rightarrow> Inl (Wrapf msg e [])
      | Inr x \<Rightarrow> sum_bind (scan_rows msg rows) (\<lambda>xs. Inr (x # xs)))"

definition Store_Query ::
  "(string \<Rightarrow> sql_arg list \<Rightarrow> go_error + (go_error + 'a) list \<times> go_error option) \<Rightarrow> Query \<Rightarrow> go_error + 'a list" where
  "Store_Query run q =
     (if q_End q \<noteq> zero_time \<and> q_Start q \<noteq> zero_time \<and> q_End q < q_Start q
      then Inl (Errorf ''end time must not be before start time'')
      else (case buildQuery q of (sql, args) \<Rightarrow>
        (case run sql args of
           Inl e \<Rightarrow> Inl (Wrapf ''query telemetry: '' e [])
         | Inr (rows, err) \<Rightarrow>
             sum_bind (scan_rows ''scan telemetry row: '' rows) (\<lambda>results.
               case err of None \<Rightarrow> Inr results | Some e \<Rightarrow> Inl (Wrapf ''iterate telemetry rows: '' e [])))))"

definition list_gpus_statement :: string where
  "list_gpus_statement =
     ''SELECT DISTINCT uuid, gpu_id, device, model_name, hostname'' @ [newline] @
     tab @ tab @ '' FROM telemetry_series'' @ [newline] @
     tab @ tab @ '' ORDER BY hostname ASC, gpu_id ASC, uuid ASC''"

text \<open>A scanned row is uuid, gpu_id, device, model_name and hostname, in the order of the statement.\<close>

definition ListGPUs ::
  "(string \<Rightarrow> go_error + (go_error + string \<times> string \<times> string \<times> string \<times> string) list \<times> go_error option) \<Rightarrow> go_error + GPU list" where
  "ListGPUs run =
     (case run list_gpus_statement of
        Inl e \<Rightarrow> Inl (Wrapf ''list gpus: '' e [])
      | Inr (rows, err) \<Rightarrow>
          sum_bind (scan_rows ''scan gpu row: '' rows) (\<lambda>scanned.
            case err of
              Some e \<Rightarrow> Inl (Wrapf ''iterate gpu rows: '' e [])
            | None \<Rightarrow> Inr (map (\<lambda>(uuid, gpuID, device, model, host).
                \<lparr>gpu_ID = uuid, gpu_GPUID = gpuID, gpu_Device = device, gpu_UUID = uuid, gpu_ModelName = model,
                 gpu_Hostname = host\<rparr>) scanned)))"

text \<open>
  The calls of an insert. \<open>db_upsert\<close> returns the series' ID, \<open>db_sample\<close> adds a sample; both act
  within the transaction, on a copy of the database that \<open>db_commit\<close> makes visible. A transaction that is
  not committed is rolled back: the database is the one before.
\<close>

record ('d, 'f) database =
  db_begin :: "'d \<Rightarrow> go_error option"
  db_upsert :: "'d \<Rightarrow> string list \<Rightarrow> go_error + 'd \<times> int"
  db_sample :: "'d \<Rightarrow> int \<Rightarrow> int \<Rightarrow> 'f \<Rightarrow> go_error + 'd"
  db_commit :: "'d \<Rightarrow> go_error option"

definition series_values :: "TelemetryRecord \<Rightarrow> string list" where
  "series_values r =
     [tr_MetricName r, tr_GPUID r, tr_Device r, tr_UUID r, tr_ModelName r, tr_Hostname r, tr_Container r,
      tr_Pod r, tr_Namespace r, tr_LabelsRaw r]"

definition Store_Insert ::
  "(string \<Rightarrow> go_error + int) \<Rightarrow> (string \<Rightarrow> go_error + 'f) \<Rightarrow> ('d, 'f) database \<Rightarrow> 'd \<Rightarrow> TelemetryRecord \<Rightarrow> 'd \<times> go_error option" where
  "Store_Insert parseTime parseFloat db d r =
     (case parseTime (tr_Timestamp r) of
        Inl e \<Rightarrow> (d, Some (Wrapf ''parse telemetry timestamp: '' e []))
      | Inr timestamp \<Rightarrow>
     (case parseFloat (tr_Value r) of
        Inl e \<Rightarrow> (d, Some (Wrapf ''parse telemetry value: '' e []))
      | Inr v \<Rightarrow>
     (case db_begin db d of
        Some e \<Rightarrow> (d, Some (Wrapf ''begin transaction: '' e []))
      | None \<Rightarrow>
     (case db_upsert db d (series_values r) of
        Inl e \<Rightarrow> (d, Some (Wrapf ''upsert series: '' e []))
      | Inr (tx, seriesID) \<Rightarrow>
     (case db_sample db tx seriesID timestamp v of
        Inl e \<Rightarrow> (d, Some (Wrapf ''insert sample: '' e []))
      | Inr tx1 \<Rightarrow>
     (case db_commit db tx1 of
        Some e \<Rightarrow> (d, Some (Wrapf ''commit transaction: '' e []))
      | None \<Rightarrow> (tx1, None)))))))"

section \<open>Opening the store\<close>

text \<open>
  The connection that \<^verbatim>\<open>OpenStore\<close> makes: opening, pinging, executing a statement and closing it. If the store
  cannot be initialised, the error comes with the connection, which has been closed.
\<close>

record 'd connection =
  cn_open :: "string \<Rightarrow> go_error + 'd"
  cn_ping :: "'d \<Rightarrow> go_error option"
  cn_exec :: "'d \<Rightarrow> string \<Rightarrow> 'd \<times> go_error option"
  cn_close :: "'d \<Rightarrow> 'd"

definition text_lines :: "(nat \<times> string) list \<Rightarrow> string" where
  "text_lines ls = Join (map (\<lambda>(tabs, l). concat (replicate tabs tab) @ l) ls) [newline]"

definition schema_statements :: "string list" where
  "schema_statements =
     [text_lines
        [(0, ''CREATE TABLE IF NOT EXISTS telemetry_series (''), (3, ''id BIGSERIAL PRIMARY KEY,''), (3, ''metric_name TEXT NOT NULL,''),
         (3, ''gpu_id TEXT NOT NULL,''), (3, ''device TEXT NOT NULL,''), (3, ''uuid TEXT NOT NULL,''), (3, ''model_name TEXT NOT NULL,''),
         (3, ''hostname TEXT NOT NULL,''), (3, ''container_name TEXT NOT NULL,''), (3, ''pod_name TEXT NOT NULL,''),
         (3, ''namespace TEXT NOT NULL,''), (3, ''labels_raw TEXT NOT NULL,''), (3, ''UNIQUE (''),
         (4, ''metric_name, gpu_id, device, uuid, model_name, hostname,''), (4, ''container_name, pod_name, namespace, labels_raw''),
         (3, '')''), (2, '')'')],
      text_lines
        [(0, ''CREATE TABLE IF NOT EXISTS telemetry_samples (''), (3, ''id BIGSERIAL PRIMARY KEY,''),
         (3, ''series_id BIGINT NOT NULL REFERENCES telemetry_series(id) ON DELETE CASCADE,''), (3, ''recorded_at TIMESTAMPTZ NOT NULL,''),
         (3, ''value DOUBLE PRECISION NOT NULL''), (2, '')'')],
      ''CREATE INDEX IF NOT EXISTS telemetry_samples_recorded_at_idx ON telemetry_samples (recorded_at)'',
      ''CREATE INDEX IF NOT EXISTS telemetry_samples_series_recorded_at_idx ON telemetry_samples (series_id, recorded_at)'',
      ''CREATE INDEX IF NOT EXISTS telemetry_series_metric_name_idx ON telemetry_series (metric_name)'',
      ''CREATE INDEX IF NOT EXISTS telemetry_series_uuid_idx ON telemetry_series (uuid)'',
      ''CREATE INDEX IF NOT EXISTS telemetry_series_hostname_idx ON telemetry_series (hostname)'']"

fun exec_all :: "('d \<Rightarrow> string \<Rightarrow> 'd \<times> go_error option) \<Rightarrow> 'd \<Rightarrow> string list \<Rightarrow> 'd \<times> go_error option" where
  "exec_all exec d [] = (d, None)"
| "exec_all exec d (statement # statements) =
     (case exec d statement of
        (d1, Some e) \<Rightarrow> (d1, Some (Wrapf ''initialize telemetry store: '' e []))
      | (d1, None) \<Rightarrow> exec_all exec d1 statements)"

definition Store_init :: "'d connection \<Rightarrow> 'd \<Rightarrow> 'd \<times> go_error option" where
  "Store_init c d =
     (case cn_ping c d of
        Some e \<Rightarrow> (d, Some (Wrapf ''ping postgres: '' e []))
      | None \<Rightarrow> exec_all (cn_exec c) d schema_statements)"

definition OpenStore :: "'d connection \<Rightarrow> string \<Rightarrow> (go_error \<times> 'd option) + 'd" where
  "OpenStore c dataSourceName =
     (case cn_open c dataSourceName of
        Inl e \<Rightarrow> Inl (Wrapf ''open postgres connection: '' e [], None)
      | Inr d \<Rightarrow>
          (case Store_init c d of
             (d1, Some e) \<Rightarrow> Inl (e, Some (cn_close c d1))
           | (d1, None) \<Rightarrow> Inr d1))"

lemma exec_all_ok:
  "exec_all exec d ss = (d', None) \<longleftrightarrow>
    d' = foldl (\<lambda>d s. fst (exec d s)) d ss \<and> (\<forall>i < length ss. snd (exec (foldl (\<lambda>d s. fst (exec d s)) d (take i ss)) (ss ! i)) = None)"
proof (induction ss arbitrary: d)
  case (Cons s ss)
  obtain d1 e where s: "exec d s = (d1, e)" by (metis prod.exhaust)
  show ?case
  proof (cases e)
    case None
    have "(\<forall>i < length (s # ss). snd (exec (foldl (\<lambda>d s. fst (exec d s)) d (take i (s # ss))) ((s # ss) ! i)) = None) \<longleftrightarrow>
        (\<forall>i < length ss. snd (exec (foldl (\<lambda>d s. fst (exec d s)) d1 (take i ss)) (ss ! i)) = None)"
      unfolding length_Cons All_less_Suc2 using s None by simp
    with Cons.IH [of d1] s None show ?thesis by simp
  next
    case (Some err)
    with s show ?thesis by auto
  qed
qed auto

text \<open>An open store has its whole schema: every statement was executed, in order, and succeeded.\<close>

lemma OpenStore_schema:
  assumes "OpenStore c dataSourceName = Inr d'"
  shows "\<exists>d. cn_open c dataSourceName = Inr d \<and> cn_ping c d = None \<and> d' = foldl (\<lambda>d s. fst (cn_exec c d s)) d schema_statements"
  using assms by (auto simp: OpenStore_def Store_init_def exec_all_ok split: sum.splits option.splits prod.splits)

section \<open>Properties of the query builder\<close>

definition filters :: "Query \<Rightarrow> (string \<times> string) list" where
  "filters q = filter (\<lambda>(column, v). v \<noteq> [])
     [(''sr.metric_name'', q_MetricName q), (''sr.uuid'', q_UUID q), (''sr.hostname'', q_Hostname q),
      (''sr.gpu_id'', q_GPUID q), (''sr.device'', q_Device q)]"

text \<open>The clauses of filters that start with placeholder \<open>n + 1\<close>.\<close>

fun number_clauses :: "nat \<Rightarrow> string list \<Rightarrow> string list" where
  "number_clauses n [] = []"
| "number_clauses n (c # cs) = (c @ '' = $'' @ itoa (int (n + 1))) # number_clauses (n + 1) cs"

lemma number_clauses_append: "number_clauses n (cs @ ds) = number_clauses n cs @ number_clauses (n + length cs) ds"
  by (induction cs arbitrary: n) simp_all

lemma nth_number_clauses: "i < length cs \<Longrightarrow> number_clauses n cs ! i = cs ! i @ '' = $'' @ itoa (int (n + i + 1))"
proof (induction cs arbitrary: n i)
  case Nil
  then show ?case by simp
next
  case (Cons c cs)
  then show ?case by (cases i) simp_all
qed

lemma query_filters_eq:
  "query_filters q =
    ([''ts.recorded_at >= $1'', ''ts.recorded_at <= $2''] @ number_clauses 2 (map fst (filters q)),
     [ArgTime (q_Start q), ArgTime (q_End q)] @ map (ArgString \<circ> snd) (filters q))"
proof -
  let ?b = "[''ts.recorded_at >= $1'', ''ts.recorded_at <= $2'']"
  let ?a = "[ArgTime (q_Start q), ArgTime (q_End q)]"
  define acc where "acc fs = (?b @ number_clauses 2 (map fst fs), ?a @ map (ArgString \<circ> snd) fs)" for fs :: "(string \<times> string) list"
  have step: "addFilter column v (acc fs) = acc (fs @ filter (\<lambda>(c, v). v \<noteq> []) [(column, v)])" for column v fs
    by (simp add: acc_def addFilter_def Let_def number_clauses_append)
  have "(?b, ?a) = acc []" by (simp add: acc_def)
  then have "query_filters q = acc ([] @ filters q)"
    unfolding query_filters_def by (simp add: step filters_def del: filter.simps) simp
  then show ?thesis by (simp add: acc_def)
qed

text \<open>
  C38: The query builder never puts a value into the text of the statement: two queries that set the same filters, and both or neither a
  limit, have the same text. The placeholder of the \<open>i\<close>-th filter is \<^verbatim>\<open>$i+3\<close> (counted from 0, behind
  the two times), and the argument at that position is the filter's value; the limit, if any, is the last argument.
\<close>

theorem query_text_value_free:
  assumes "map fst (filters q) = map fst (filters q')" and "0 < q_Limit q \<longleftrightarrow> 0 < q_Limit q'"
  shows "fst (buildQuery q) = fst (buildQuery q') \<and>
    length (snd (buildQuery q)) = 2 + length (filters q) + of_bool (0 < q_Limit q) \<and>
    (\<forall>i < length (filters q).
       fst (query_filters q) ! (i + 2) = fst (filters q ! i) @ '' = $'' @ itoa (int (i + 3)) \<and>
       snd (buildQuery q) ! (i + 2) = ArgString (snd (filters q ! i)))"
proof -
  have "length (filters q) = length (filters q')" using assms(1) by (metis length_map)
  then have "fst (buildQuery q) = fst (buildQuery q')"
    using assms by (simp add: buildQuery_def query_filters_eq Let_def)
  moreover have "fst (query_filters q) ! (i + 2) = fst (filters q ! i) @ '' = $'' @ itoa (int (i + 3))"
    if "i < length (filters q)" for i
    using that nth_number_clauses [of i "map fst (filters q)" 2] by (simp add: query_filters_eq ac_simps)
  ultimately show ?thesis
    by (auto simp: buildQuery_def query_filters_eq Let_def nth_append)
qed

definition sample_query :: Query where
  "sample_query = \<lparr>q_Start = 0, q_End = 10, q_MetricName = [], q_UUID = ''GPU-1'', q_Hostname = ''h'', q_GPUID = [],
     q_Device = [], q_Limit = 5\<rparr>"

theorem query_text_value_free_witness:
  "fst (buildQuery sample_query) = fst (buildQuery (sample_query\<lparr>q_UUID := [char_of (39 :: nat)] @ '' OR 1=1 --''\<rparr>)) \<and>
    snd (buildQuery sample_query) ! 3 = ArgString ''h''"
proof -
  let ?q = "sample_query\<lparr>q_UUID := [char_of (39 :: nat)] @ '' OR 1=1 --''\<rparr>"
  have f: "filters sample_query = [(''sr.uuid'', ''GPU-1''), (''sr.hostname'', ''h'')]"
    by (simp add: filters_def sample_query_def)
  have "map fst (filters sample_query) = map fst (filters ?q)" "0 < q_Limit sample_query \<longleftrightarrow> 0 < q_Limit ?q"
    by (simp_all add: filters_def sample_query_def)
  note main = query_text_value_free [OF this, unfolded f]
  have "snd (buildQuery sample_query) ! (1 + 2) = ArgString ''h''"
    using conjunct2 [OF conjunct2 [OF main], THEN spec, of 1] by simp
  with conjunct1 [OF main] show ?thesis by (simp add: numeral_3_eq_3)
qed

lemma Store_Insert_error_unchanged: "Store_Insert pt pf db d r = (d', Some e) \<Longrightarrow> d' = d"
  by (auto simp: Store_Insert_def split: sum.splits option.splits)

lemma Store_Insert_committed:
  "Store_Insert pt pf db d r = (d', None) \<longleftrightarrow>
    (\<exists>t v tx series. pt (tr_Timestamp r) = Inr t \<and> pf (tr_Value r) = Inr v \<and> db_begin db d = None \<and>
       db_upsert db d (series_values r) = Inr (tx, series) \<and> db_sample db tx series t v = Inr d' \<and> db_commit db d' = None)"
  by (auto simp: Store_Insert_def split: sum.splits option.splits)

end
