(* ===== verification/Processor.thy ===== *)
theory Processor
  imports Telemetry_Store Net_Url
begin

text \<open>
  The processor (package \<^verbatim>\<open>processor\<close>): one turn of the consumer (\<^verbatim>\<open>runner.go\<close>), its counters, the HTTP client for the
  queue (\<^verbatim>\<open>http_client.go\<close>), the metrics page and the loop of \<^verbatim>\<open>cmd/processor\<close>. The runner is given over a
  consumer interface, as in the source: functions on the state \<open>'q\<close> of the queue. The
  lemmas instantiate it with the queue's own runtime.
\<close>

section \<open>Counters\<close>

record Metrics =
  pm_Consumed :: uint64
  pm_Processed :: uint64
  pm_Errors :: uint64

definition RecordConsumed :: "Metrics option \<Rightarrow> Metrics option" where
  "RecordConsumed = map_option (\<lambda>m. m\<lparr>pm_Consumed := pm_Consumed m + 1\<rparr>)"

definition RecordProcessed :: "Metrics option \<Rightarrow> Metrics option" where
  "RecordProcessed = map_option (\<lambda>m. m\<lparr>pm_Processed := pm_Processed m + 1\<rparr>)"

definition RecordError :: "Metrics option \<Rightarrow> Metrics option" where
  "RecordError = map_option (\<lambda>m. m\<lparr>pm_Errors := pm_Errors m + 1\<rparr>)"

definition Metrics_Snapshot :: "Metrics option \<Rightarrow> Metrics" where
  "Metrics_Snapshot m = (case m of None \<Rightarrow> \<lparr>pm_Consumed = 0, pm_Processed = 0, pm_Errors = 0\<rparr> | Some s \<Rightarrow> s)"

definition ProcessorMetrics_ServeHTTP :: "Metrics option \<Rightarrow> server_request \<Rightarrow> server_response" where
  "ProcessorMetrics_ServeHTTP metrics r =
     (if sr_Method r \<noteq> ''GET'' then MethodNotAllowed
      else (let s = Metrics_Snapshot metrics in
        reply_body ''text/plain; version=0.0.4''
          (writeCounterMetric ''processor_messages_consumed_total'' ''Total messages consumed from the queue by this processor.'' (pm_Consumed s) @
           writeCounterMetric ''processor_messages_processed_total'' ''Total messages successfully persisted and acknowledged by this processor.'' (pm_Processed s) @
           writeCounterMetric ''processor_processing_errors_total'' ''Total processor failures while consuming, decoding, persisting, or acknowledging messages.'' (pm_Errors s))))"

section \<open>The runner\<close>

record ('q, 'd) runner_env =
  re_consume :: "'q \<Rightarrow> 'q \<times> (go_error + Message option)"
  re_ack :: "'q \<Rightarrow> string \<Rightarrow> 'q \<times> go_error option"
  re_unmarshal :: "bytes \<Rightarrow> go_error + TelemetryRecord"
  re_insert :: "'d \<Rightarrow> TelemetryRecord \<Rightarrow> 'd \<times> go_error option"

definition RunOnce :: "('q, 'd) runner_env \<Rightarrow> 'q \<Rightarrow> 'd \<Rightarrow> Metrics option \<Rightarrow> 'q \<times> 'd \<times> Metrics option \<times> (go_error + bool)" where
  "RunOnce env q d metrics =
     (case re_consume env q of
        (q1, Inl e) \<Rightarrow> (q1, d, RecordError metrics, Inl e)
      | (q1, Inr None) \<Rightarrow> (q1, d, metrics, Inr False)
      | (q1, Inr (Some message)) \<Rightarrow>
          (let metrics = RecordConsumed metrics in
           case re_unmarshal env (msg_Payload message) of
             Inl e \<Rightarrow> (q1, d, RecordError metrics, Inl (Wrapf ''decode telemetry payload: '' e []))
           | Inr record \<Rightarrow>
               (case re_insert env d record of
                  (d1, Some e) \<Rightarrow> (q1, d1, RecordError metrics, Inl e)
                | (d1, None) \<Rightarrow>
                    (case re_ack env q1 (msg_ID message) of
                       (q2, Some e) \<Rightarrow> (q2, d1, RecordError metrics, Inl e)
                     | (q2, None) \<Rightarrow> (q2, d1, RecordProcessed metrics, Inr True)))))"

text \<open>
  The loop of \<^verbatim>\<open>cmd/processor\<close>: a turn after the other until the context ends. Each element of the list is one
  iteration: the runner's environment in it, and whether the context has ended when it is asked after an error or ends while sleeping.
\<close>

fun processor_loop :: "(('q, 'd) runner_env \<times> bool) list \<Rightarrow> 'q \<Rightarrow> 'd \<Rightarrow> Metrics option \<Rightarrow> 'q \<times> 'd \<times> Metrics option \<times> bool" where
  "processor_loop [] q d metrics = (q, d, metrics, False)"
| "processor_loop ((env, ended) # turns) q d metrics =
     (case RunOnce env q d metrics of
        (q1, d1, metrics1, Inl e) \<Rightarrow> if ended then (q1, d1, metrics1, True) else processor_loop turns q1 d1 metrics1
      | (q1, d1, metrics1, Inr True) \<Rightarrow> processor_loop turns q1 d1 metrics1
      | (q1, d1, metrics1, Inr False) \<Rightarrow> if ended then (q1, d1, metrics1, True) else processor_loop turns q1 d1 metrics1)"

section \<open>The HTTP client\<close>

text \<open>
  The client is the HTTP client it is given and the parsed base URL. Each call builds its endpoint
  from the base URL; \<open>consume_request\<close> and \<open>ack_request\<close> are the requests it sends.
\<close>

record HTTPClient =
  hc_client :: network
  hc_baseURL :: url

definition NewHTTPClient :: "url_library \<Rightarrow> network option \<Rightarrow> string \<Rightarrow> go_error + HTTPClient" where
  "NewHTTPClient lib client baseURL =
     (case client of
        None \<Rightarrow> Inl (Errorf ''http client is required'')
      | Some net \<Rightarrow>
     (case ul_Parse lib baseURL of
        Inl e \<Rightarrow> Inl (Wrapf ''parse base url: '' e [])
      | Inr parsed \<Rightarrow>
          if url_Scheme parsed = [] \<or> url_Host parsed = [] then Inl (Errorf ''base url must include scheme and host'')
          else Inr \<lparr>hc_client = net, hc_baseURL = parsed\<rparr>))"

definition consume_endpoint :: "HTTPClient \<Rightarrow> string \<Rightarrow> string \<Rightarrow> url" where
  "consume_endpoint c topic grp =
     (let endpoint = (hc_baseURL c)\<lparr>url_Path := path_Join (url_Path (hc_baseURL c)) ''/consume''\<rparr>;
          query = values_Set ''group'' grp (values_Set ''topic'' topic (ParseQuery (url_RawQuery endpoint)))
      in endpoint\<lparr>url_RawQuery := values_Encode query\<rparr>)"

definition ack_endpoint :: "HTTPClient \<Rightarrow> url" where
  "ack_endpoint c = (hc_baseURL c)\<lparr>url_Path := path_Join (url_Path (hc_baseURL c)) ''/ack''\<rparr>"

definition consume_request :: "url_library \<Rightarrow> HTTPClient \<Rightarrow> string \<Rightarrow> string \<Rightarrow> http_request" where
  "consume_request lib c topic grp =
     \<lparr>req_Method = ''GET'', req_URL = ul_String lib (consume_endpoint c topic grp), req_Header = [], req_Body = []\<rparr>"

text \<open>
  \<open>unexpectedStatusError\<close> reads at most 4096 bytes of the body. \<^verbatim>\<open>bytes.TrimSpace\<close> is \<open>TrimSpace\<close>.
\<close>

definition unexpectedStatusError :: "string \<Rightarrow> http_response \<Rightarrow> go_error" where
  "unexpectedStatusError operation resp =
     (let body = limit_body 4096 (resp_Body resp) in
      if body = [] then Errorf (operation @ '' failed with status '' @ itoa (resp_StatusCode resp))
      else Errorf (operation @ '' failed with status '' @ itoa (resp_StatusCode resp) @ '': '' @ TrimSpace body))"

text \<open>\<open>unmarshal\<close> decodes the response, \<open>marshal\<close> encodes the acknowledgement.\<close>

definition HTTPClient_Consume ::
  "(string \<Rightarrow> go_error + Message) \<Rightarrow> url_library \<Rightarrow> HTTPClient \<Rightarrow> string \<Rightarrow> string \<Rightarrow> go_error + Message option" where
  "HTTPClient_Consume unmarshal lib c topic grp =
     (let req = consume_request lib c topic grp in
      case net_url_error (hc_client c) (req_URL req) of
        Some e \<Rightarrow> Inl (Wrapf ''build consume request: '' e [])
      | None \<Rightarrow>
     (case net_do (hc_client c) req of
        Inl e \<Rightarrow> Inl (Wrapf ''consume request: '' e [])
      | Inr resp \<Rightarrow>
          if resp_StatusCode resp = 204 then Inr None
          else if resp_StatusCode resp \<noteq> 200 then Inl (unexpectedStatusError ''consume request'' resp)
          else (case unmarshal (resp_Body resp) of
              Inl e \<Rightarrow> Inl (Wrapf ''decode consume response: '' e [])
            | Inr m \<Rightarrow> Inr (Some m))))"

definition HTTPClient_Ack ::
  "(string \<Rightarrow> go_error + string) \<Rightarrow> url_library \<Rightarrow> HTTPClient \<Rightarrow> string \<Rightarrow> go_error option" where
  "HTTPClient_Ack marshal lib c messageID =
     (let url = ul_String lib (ack_endpoint c) in
      case marshal messageID of
        Inl e \<Rightarrow> Some (Wrapf ''marshal ack request: '' e [])
      | Inr body \<Rightarrow>
     (case net_url_error (hc_client c) url of
        Some e \<Rightarrow> Some (Wrapf ''build ack request: '' e [])
      | None \<Rightarrow>
     (case net_do (hc_client c) (post_json url body) of
        Inl e \<Rightarrow> Some (Wrapf ''ack request: '' e [])
      | Inr resp \<Rightarrow> if resp_StatusCode resp \<noteq> 204 then Some (unexpectedStatusError ''ack request'' resp) else None)))"

section \<open>The runner over any consumer\<close>

text \<open>
  What the runner relies on of its \<^verbatim>\<open>Consumer\<close>: in a state where it is ready, consuming returns the first message that is still to be processed,
  and acknowledging it removes it; with nothing left, consuming returns no message.
\<close>

locale message_consumer =
  fixes consume :: "'q \<Rightarrow> 'q \<times> (go_error + Message option)"
    and ack :: "'q \<Rightarrow> string \<Rightarrow> 'q \<times> go_error option"
    and ready :: "'q \<Rightarrow> bool"
    and todo :: "'q \<Rightarrow> Message list"
  assumes consume_none: "ready q \<Longrightarrow> todo q = [] \<Longrightarrow> \<exists>q1. consume q = (q1, Inr None) \<and> ready q1 \<and> todo q1 = []"
    and consume_some: "ready q \<Longrightarrow> todo q = m # ms \<Longrightarrow>
      \<exists>q1 q2. consume q = (q1, Inr (Some m)) \<and> ack q1 (msg_ID m) = (q2, None) \<and> ready q2 \<and> todo q2 = ms"
begin

lemma loop_persists:
  assumes "ready q" and "\<forall>m \<in> set (todo q). unmarshal (msg_Payload m) = Inr (decoded m)"
    and "\<forall>d r. store d r = (ins d r, None)" and "length (todo q) \<le> turns"
  shows "\<exists>q' metrics'. processor_loop
      (replicate turns (\<lparr>re_consume = consume, re_ack = ack, re_unmarshal = unmarshal, re_insert = store\<rparr>, False)) q d metrics =
    (q', foldl ins d (map decoded (todo q)), metrics', False) \<and> ready q' \<and> todo q' = []"
  using assms(1,2,4)
proof (induction turns arbitrary: q d metrics)
  case 0
  then show ?case by simp
next
  case (Suc turns)
  show ?case
  proof (cases "todo q")
    case Nil
    with consume_none [OF Suc.prems(1)] obtain q1 where q1: "consume q = (q1, Inr None)" "ready q1" "todo q1 = []" by blast
    with Suc.IH [OF q1(2), of d metrics] Nil show ?thesis by (simp add: RunOnce_def)
  next
    case (Cons m ms)
    with consume_some [OF Suc.prems(1)] obtain q1 q2 where q2: "consume q = (q1, Inr (Some m))" "ack q1 (msg_ID m) = (q2, None)"
        "ready q2" "todo q2 = ms" by blast
    have "unmarshal (msg_Payload m) = Inr (decoded m)" using Suc.prems(2) Cons by simp
    with Suc.IH [OF q2(3), of "ins d (decoded m)" "RecordProcessed (RecordConsumed metrics)"] Suc.prems(2,3) Cons q2 assms(3)
    show ?thesis by (simp add: RunOnce_def)
  qed
qed

end

section \<open>The runner on a queue node\<close>

text \<open>
  The runner's consumer interface on the queue's runtime, reading the disk \<open>s\<close>; a poll that does not
  end would be an error of the model, and the lemmas show that it does not occur.
\<close>

definition local_consume :: "disk_store \<Rightarrow> string \<Rightarrow> string \<Rightarrow> Runtime \<Rightarrow> Runtime \<times> (go_error + Message option)" where
  "local_consume s topic grp rt =
     (case Poll (disk_read s) rt topic grp of Some r \<Rightarrow> r | None \<Rightarrow> (rt, Inl (GoPanic ''poll does not end'')))"

definition runtime_env ::
  "disk_store \<Rightarrow> string \<Rightarrow> string \<Rightarrow> (bytes \<Rightarrow> go_error + TelemetryRecord) \<Rightarrow> ('d \<Rightarrow> TelemetryRecord \<Rightarrow> 'd \<times> go_error option) \<Rightarrow>
     (Runtime, 'd) runner_env" where
  "runtime_env s topic grp unmarshal store =
     \<lparr>re_consume = local_consume s topic grp, re_ack = Ack None, re_unmarshal = unmarshal, re_insert = store\<rparr>"

lemma runtime_env_simps [simp]:
  "re_ack (runtime_env s topic grp u i) = Ack None"
  "re_unmarshal (runtime_env s topic grp u i) = u"
  "re_insert (runtime_env s topic grp u i) = i"
  by (simp_all add: runtime_env_def)

lemma Poll_single:
  assumes "leaderPartitionIDs rt = [p]" and "topic \<noteq> []" and "grp \<noteq> []"
    and "pollPartition (disk_read s p) rt (consumerKey topic grp) topic p = Some (rt1, r)"
  shows "re_consume (runtime_env s topic grp u i) rt = (rt1, r)"
  using assms by (auto simp: runtime_env_def local_consume_def Poll_def split: sum.splits option.splits)

lemma Ack_partition: "rt_partition (fst (Ack ctx rt mid)) = rt_partition rt"
  by (auto simp: Ack_def split: option.splits prod.splits)

lemma runner_turn:
  assumes "disk_holds s p ms" and "n \<le> length ms" and "leaderPartitionIDs rt = [p]" and "topic \<noteq> []" and "grp \<noteq> []"
    and "view (rt_consumers rt) (consumerKey topic grp) p = \<lparr>pc_nextOffset = of_nat n, pc_inflight = None\<rparr>"
  defines "found \<equiv> find (\<lambda>i. msg_Topic (ms ! i) = topic) [n..<length ms]"
  obtains (idle) rt1 where "found = None" "re_consume (runtime_env s topic grp u i) rt = (rt1, Inr None)"
      "leaderPartitionIDs rt1 = [p]"
      "view (rt_consumers rt1) (consumerKey topic grp) p = \<lparr>pc_nextOffset = of_nat (length ms), pc_inflight = None\<rparr>"
  | (delivered) k rt1 where "found = Some k" "re_consume (runtime_env s topic grp u i) rt = (rt1, Inr (Some (ms ! k)))"
      "leaderPartitionIDs rt1 = [p]" "in_flight (rt_consumers rt1) (consumerKey topic grp) p \<noteq> None"
      "\<exists>rt2. Ack None rt1 (msg_ID (ms ! k)) = (rt2, None) \<and> leaderPartitionIDs rt2 = [p] \<and>
        view (rt_consumers rt2) (consumerKey topic grp) p = \<lparr>pc_nextOffset = of_nat (k + 1), pc_inflight = None\<rparr>"
proof (cases found)
  case None
  with ps.pollPartition_delivers [OF assms(1,2,6), of topic] obtain rt1 where rt1:
    "pollPartition (disk_read s p) rt (consumerKey topic grp) topic p = Some (rt1, Inr None)"
    "polled rt (consumerKey topic grp) p (length ms) None rt1"
    by (auto simp: found_def)
  have "leaderPartitionIDs rt1 = [p]"
    using assms(3) leaderPartitionIDs_cong [of rt1 rt] rt1(2) by (simp add: polled_def)
  then show ?thesis
    by (intro idle [OF None Poll_single [OF assms(3-5) rt1(1)]]) (use rt1(2) in \<open>auto simp: polled_def\<close>)
next
  case (Some k)
  with ps.pollPartition_delivers [OF assms(1,2,6), of topic] obtain rt1 where rt1:
    "pollPartition (disk_read s p) rt (consumerKey topic grp) topic p = Some (rt1, Inr (Some (ms ! k)))"
    "polled rt (consumerKey topic grp) p k (Some (ms ! k)) rt1"
    by (auto simp: found_def)
  have lead: "leaderPartitionIDs rt1 = [p]"
    using assms(3) leaderPartitionIDs_cong [of rt1 rt] rt1(2) by (simp add: polled_def)
  obtain rt2 where rt2: "Ack None rt1 (msg_ID (ms ! k)) = (rt2, None)"
      "view (rt_consumers rt2) (consumerKey topic grp) p = \<lparr>pc_nextOffset = of_nat (k + 1), pc_inflight = None\<rparr>"
    using Ack_polled [OF rt1(2)] by auto
  have "leaderPartitionIDs rt2 = [p]"
    using lead leaderPartitionIDs_cong [of rt2 rt1] Ack_partition [of None rt1 "msg_ID (ms ! k)"] rt2(1) by simp
  with rt2 have "\<exists>rt2. Ack None rt1 (msg_ID (ms ! k)) = (rt2, None) \<and> leaderPartitionIDs rt2 = [p] \<and>
      view (rt_consumers rt2) (consumerKey topic grp) p = \<lparr>pc_nextOffset = of_nat (k + 1), pc_inflight = None\<rparr>" by blast
  then show ?thesis
    by (intro delivered [OF Some Poll_single [OF assms(3-5) rt1(1)] lead]) (use rt1(2) in \<open>auto simp: polled_def\<close>)
qed

lemma re_consume_Poll:
  "Poll (disk_read s) rt topic grp = Some (rt1, r) \<Longrightarrow> re_consume (runtime_env s topic grp u i) rt = (rt1, r)"
  by (simp add: runtime_env_def local_consume_def)

text \<open>A node's runtime is a consumer: what it delivers are the messages of the topic behind the group's cursors.\<close>

definition local_ready :: "disk_store \<Rightarrow> (int \<Rightarrow> Message list) \<Rightarrow> string \<Rightarrow> string \<Rightarrow> Runtime \<Rightarrow> bool" where
  "local_ready s log topic grp rt \<longleftrightarrow> topic \<noteq> [] \<and> grp \<noteq> [] \<and>
     (\<forall>p \<in> set (leaderPartitionIDs rt). disk_holds s p (log p)) \<and> at_rest log (consumerKey topic grp) rt"

lemma local_turn:
  assumes "local_ready s log topic grp rt"
  shows "case backlog log topic (consumerKey topic grp) rt of
      [] \<Rightarrow> \<exists>rt1. Poll (disk_read s) rt topic grp = Some (rt1, Inr None) \<and> rt_partition rt1 = rt_partition rt \<and>
        local_ready s log topic grp rt1 \<and> backlog log topic (consumerKey topic grp) rt1 = []
    | m # ms \<Rightarrow> \<exists>rt1 rt2. Poll (disk_read s) rt topic grp = Some (rt1, Inr (Some m)) \<and> Ack None rt1 (msg_ID m) = (rt2, None) \<and>
        rt_partition rt2 = rt_partition rt \<and> local_ready s log topic grp rt2 \<and> backlog log topic (consumerKey topic grp) rt2 = ms"
proof -
  have asm: "topic \<noteq> []" "grp \<noteq> []" "at_rest log (consumerKey topic grp) rt"
    and holds: "\<And>p. p \<in> set (leaderPartitionIDs rt) \<Longrightarrow> disk_holds s p (log p)"
    using assms by (auto simp: local_ready_def)
  have ready: "local_ready s log topic grp rt'" if "at_rest log (consumerKey topic grp) rt'" "rt_partition rt' = rt_partition rt" for rt'
    using that asm holds by (simp add: local_ready_def leaderPartitionIDs_cong [OF that(2)])
  from ps.Poll_turn [OF asm(1,2) holds asm(3)] ready show ?thesis
    by (auto split: list.splits simp del: concat_eq_Nil_conv)
qed

interpretation local_consumer: message_consumer "local_consume s topic grp" "Ack None" "local_ready s log topic grp"
    "backlog log topic (consumerKey topic grp)" for s log topic grp
proof
  fix rt
  assume ready: "local_ready s log topic grp rt"
  show "\<exists>q1. local_consume s topic grp rt = (q1, Inr None) \<and> local_ready s log topic grp q1 \<and> backlog log topic (consumerKey topic grp) q1 = []"
    if "backlog log topic (consumerKey topic grp) rt = []"
    using local_turn [OF ready] that by (auto simp: local_consume_def simp del: concat_eq_Nil_conv)
  show "\<exists>q1 q2. local_consume s topic grp rt = (q1, Inr (Some m)) \<and> Ack None q1 (msg_ID m) = (q2, None) \<and>
      local_ready s log topic grp q2 \<and> backlog log topic (consumerKey topic grp) q2 = ms"
    if "backlog log topic (consumerKey topic grp) rt = m # ms" for m ms
    using local_turn [OF ready] that by (auto simp: local_consume_def)
qed

text \<open>
  A processor whose inserts succeed persists the telemetry of a node: after at least as many turns as there are messages of its
  topic behind the group's cursors on the partitions the node leads, exactly these messages' records have been inserted, each once, partition after
  partition and in the order of the logs.
\<close>

lemma processor_persists_in_order:
  assumes "topic \<noteq> []" and "grp \<noteq> []" and "\<forall>p \<in> set (leaderPartitionIDs rt). disk_holds s p (log p)"
    and "at_rest log (consumerKey topic grp) rt"
    and "\<forall>m \<in> set (backlog log topic (consumerKey topic grp) rt). unmarshal (msg_Payload m) = Inr (decoded m)"
    and "\<forall>d r. store d r = (ins d r, None)"
    and "length (backlog log topic (consumerKey topic grp) rt) \<le> turns"
  shows "\<exists>rt' metrics'. processor_loop (replicate turns (runtime_env s topic grp unmarshal store, False)) rt d metrics =
    (rt', foldl ins d (map decoded (concat (map (\<lambda>p. filter (\<lambda>m. msg_Topic m = topic)
      (drop (unat (pc_nextOffset (view (rt_consumers rt) (consumerKey topic grp) p))) (log p))) (leaderPartitionIDs rt)))), metrics', False)"
proof -
  have "local_ready s log topic grp rt" using assms(1-4) by (simp add: local_ready_def)
  from local_consumer.loop_persists [OF this assms(5-7), of d metrics] show ?thesis
    unfolding remaining_def runtime_env_def by blast
qed

lemma processor_persists_in_order_witness:
  "\<exists>s rt' metrics'. disk_append (opened_disk 0) 0 sample_message = (s, Inr 0) \<and>
     processor_loop (replicate 3 (runtime_env s ''gpu'' ''processor'' (\<lambda>_. Inr sample_record_t) (\<lambda>d r. (d @ [r], None)), False))
       sample_runtime [] None = (rt', [sample_record_t], metrics', False)"
proof -
  obtain s where s: "disk_append (opened_disk 0) 0 sample_message = (s, Inr 0)" "disk_holds s 0 [sample_message]"
    using one_message_disk by blast
  have t: "msg_Topic sample_message = ''gpu''" by (simp add: sample_message_def)
  from processor_persists_in_order [where rt = sample_runtime and s = s and log = "\<lambda>_. [sample_message]" and topic = "''gpu''"
      and grp = "''processor''" and turns = 3 and unmarshal = "\<lambda>_. Inr sample_record_t" and decoded = "\<lambda>_. sample_record_t"
      and store = "\<lambda>d r. (d @ [r], None)" and ins = "\<lambda>d r. d @ [r]" and d = "[]" and metrics = None]
  show ?thesis using s t by (auto simp: sample_runtime_leads at_rest_def remaining_def fresh_partition_def)
qed

lemma blocked_turns:
  assumes "leaderPartitionIDs rt = [p]" and "topic \<noteq> []" and "grp \<noteq> []" and "in_flight (rt_consumers rt) (consumerKey topic grp) p \<noteq> None"
    and "\<forall>(env, ended) \<in> set turns. \<exists>s u i. env = runtime_env s topic grp u i"
  shows "fst (snd (processor_loop turns rt d metrics)) = d"
  using assms(1,4,5)
proof (induction turns arbitrary: rt)
  case Nil
  then show ?case by simp
next
  case (Cons t turns)
  obtain env ended s u i where t: "t = (env, ended)" "env = runtime_env s topic grp u i"
    using Cons.prems(3) by (cases t) auto
  obtain rt1 where rt1: "pollPartition (disk_read s p) rt (consumerKey topic grp) topic p = Some (rt1, Inr None)" "idle rt rt1"
    using pollPartition_in_flight [OF Cons.prems(2)] by blast
  have "re_consume env rt = (rt1, Inr None)"
    unfolding t(2) by (rule Poll_single [OF Cons.prems(1) assms(2,3) rt1(1)])
  then have "RunOnce env rt d metrics = (rt1, d, metrics, Inr False)"
    by (simp add: RunOnce_def)
  moreover have "leaderPartitionIDs rt1 = [p]" "in_flight (rt_consumers rt1) (consumerKey topic grp) p \<noteq> None"
    using rt1(2) Cons.prems(1,2) leaderPartitionIDs_cong [of rt1 rt] by (simp_all add: idle_def)
  ultimately show ?case using Cons.IH [of rt1] Cons.prems(3) by (simp add: t(1))
qed



end
