(* ===== verification/Go_Json.thy ===== *)
theory Go_Json
  imports Go_Std
begin

text \<open>
  The part of \<^verbatim>\<open>encoding/json\<close> that the services talk with: the scanner as an automaton with a stack, the
  extent of the first value of a text, quoting and unquoting of strings with their UTF-8, compaction of raw values, base64, and
  the decoding of objects into structs by field name. A JSON text is a byte string. The
  lemmas show that what the encoder writes is read back, value by value and then object by object.
\<close>

section \<open>The scanner\<close>

text \<open>
  The states of the scanner: what it expects, and the stack of the objects and arrays it is in. An object is
  on the stack as \<open>InKey\<close> up to the colon and as \<open>InValue\<close> after it. \<open>Lit\<close> holds what is
  still missing of a literal, \<open>InHex\<close> the number of hexadecimal digits still to come.
\<close>

datatype jmode =
    BeginValue | BeginValueOrEmpty | BeginKeyOrEmpty | BeginKey | EndValue
  | InString | InEscape | InHex nat
  | NumNeg | NumZero | NumInt | NumDot | NumFrac | NumExp | NumExpSign | NumExpDigits
  | Lit string

datatype jctx = InKey | InValue | InArray

type_synonym jstate = "jmode \<times> jctx list"

definition json_space :: "char \<Rightarrow> bool" where
  "json_space c \<longleftrightarrow> c = CHR '' '' \<or> c = CHR 0x09 \<or> c = CHR 0x0A \<or> c = CHR 0x0D"

definition push :: "nat \<Rightarrow> jmode \<Rightarrow> jctx \<Rightarrow> jctx list \<Rightarrow> jstate option" where
  "push lim m x k = (if length k < lim then Some (m, x # k) else None)"

definition begin_value :: "nat \<Rightarrow> jctx list \<Rightarrow> char \<Rightarrow> jstate option" where
  "begin_value lim k c =
     (if c = CHR ''{'' then push lim BeginKeyOrEmpty InKey k
      else if c = CHR ''['' then push lim BeginValueOrEmpty InArray k
      else if c = CHR 0x22 then Some (InString, k)
      else if c = CHR ''-'' then Some (NumNeg, k)
      else if c = CHR ''0'' then Some (NumZero, k)
      else if is_digit c then Some (NumInt, k)
      else if c = CHR ''t'' then Some (Lit ''rue'', k)
      else if c = CHR ''f'' then Some (Lit ''alse'', k)
      else if c = CHR ''n'' then Some (Lit ''ull'', k)
      else None)"

definition end_value :: "jctx list \<Rightarrow> char \<Rightarrow> jstate option" where
  "end_value k c =
     (if json_space c then Some (EndValue, k)
      else case k of
        [] \<Rightarrow> None
      | InKey # k' \<Rightarrow> if c = CHR '':'' then Some (BeginValue, InValue # k') else None
      | InValue # k' \<Rightarrow>
          if c = CHR '','' then Some (BeginKey, InKey # k') else if c = CHR ''}'' then Some (EndValue, k') else None
      | InArray # k' \<Rightarrow>
          if c = CHR '','' then Some (BeginValue, k) else if c = CHR '']'' then Some (EndValue, k') else None)"

text \<open>How a number goes on with the next character, if it does.\<close>

definition num_next :: "jmode \<Rightarrow> char \<Rightarrow> jmode option" where
  "num_next m c =
     (case m of
        NumNeg \<Rightarrow> if c = CHR ''0'' then Some NumZero else if is_digit c then Some NumInt else None
      | NumZero \<Rightarrow> if c = CHR ''.'' then Some NumDot else if c = CHR ''e'' \<or> c = CHR ''E'' then Some NumExp else None
      | NumInt \<Rightarrow>
          if is_digit c then Some NumInt else if c = CHR ''.'' then Some NumDot
          else if c = CHR ''e'' \<or> c = CHR ''E'' then Some NumExp else None
      | NumDot \<Rightarrow> if is_digit c then Some NumFrac else None
      | NumFrac \<Rightarrow> if is_digit c then Some NumFrac else if c = CHR ''e'' \<or> c = CHR ''E'' then Some NumExp else None
      | NumExp \<Rightarrow> if c = CHR ''+'' \<or> c = CHR ''-'' then Some NumExpSign else if is_digit c then Some NumExpDigits else None
      | NumExpSign \<Rightarrow> if is_digit c then Some NumExpDigits else None
      | NumExpDigits \<Rightarrow> if is_digit c then Some NumExpDigits else None
      | _ \<Rightarrow> None)"

definition num_ends :: "jmode \<Rightarrow> bool" where
  "num_ends m \<longleftrightarrow> m \<in> {NumZero, NumInt, NumFrac, NumExpDigits}"

definition json_step :: "nat \<Rightarrow> jstate \<Rightarrow> char \<Rightarrow> jstate option" where
  "json_step lim st c =
     (case st of (m, k) \<Rightarrow>
      case m of
        BeginValue \<Rightarrow> if json_space c then Some (BeginValue, k) else begin_value lim k c
      | BeginValueOrEmpty \<Rightarrow>
          if json_space c then Some (BeginValueOrEmpty, k) else if c = CHR '']'' then end_value k c else begin_value lim k c
      | BeginKeyOrEmpty \<Rightarrow>
          if json_space c then Some (BeginKeyOrEmpty, k)
          else if c = CHR ''}'' then (case k of InKey # k' \<Rightarrow> Some (EndValue, k') | _ \<Rightarrow> None)
          else if c = CHR 0x22 then Some (InString, k) else None
      | BeginKey \<Rightarrow> if json_space c then Some (BeginKey, k) else if c = CHR 0x22 then Some (InString, k) else None
      | EndValue \<Rightarrow> end_value k c
      | InString \<Rightarrow>
          if c = CHR 0x22 then Some (EndValue, k)
          else if c = CHR 0x5C then Some (InEscape, k)
          else if (of_char c :: nat) < 32 then None else Some (InString, k)
      | InEscape \<Rightarrow>
          if c \<in> {CHR ''b'', CHR ''f'', CHR ''n'', CHR ''r'', CHR ''t'', CHR 0x5C, CHR ''/'', CHR 0x22} then Some (InString, k)
          else if c = CHR ''u'' then Some (InHex 4, k) else None
      | InHex n \<Rightarrow> if unhex c = None then None else if n \<le> 1 then Some (InString, k) else Some (InHex (n - 1), k)
      | Lit s \<Rightarrow>
          (case s of
             [] \<Rightarrow> None
           | d # s' \<Rightarrow> if c \<noteq> d then None else if s' = [] then Some (EndValue, k) else Some (Lit s', k))
      | _ \<Rightarrow>
          (case num_next m c of
             Some m' \<Rightarrow> Some (m', k)
           | None \<Rightarrow> if num_ends m then end_value k c else None))"

text \<open>Go refuses texts that are nested deeper than this.\<close>

definition max_nesting :: nat where
  "max_nesting = 10000"

text \<open>
  The extent of the value that begins in the scanner's state: the characters up to the end of the value, where the stack is empty again, and
  the rest of the text. A number ends before the first character that does not continue it. \<open>value_run\<close> is the scanner's run over the inside
  of a value; it fails where the value is over.
\<close>

definition value_done :: "jstate \<Rightarrow> char \<Rightarrow> bool" where
  "value_done st c \<longleftrightarrow> snd st = [] \<and> (fst st = EndValue \<or> num_ends (fst st) \<and> num_next (fst st) c = None)"

definition value_end :: "jstate \<Rightarrow> bool" where
  "value_end st \<longleftrightarrow> snd st = [] \<and> (fst st = EndValue \<or> num_ends (fst st))"

fun take_value :: "nat \<Rightarrow> jstate \<Rightarrow> string \<Rightarrow> (string \<times> string) option" where
  "take_value lim st [] = (if value_end st then Some ([], []) else None)"
| "take_value lim st (c # s) =
     (if value_done st c then Some ([], c # s)
      else case json_step lim st c of
        None \<Rightarrow> None
      | Some st' \<Rightarrow> map_option (\<lambda>(v, rest). (c # v, rest)) (take_value lim st' s))"

fun value_run :: "nat \<Rightarrow> jstate \<Rightarrow> string \<Rightarrow> jstate option" where
  "value_run lim st [] = Some st"
| "value_run lim st (c # s) =
     (if value_done st c then None
      else case json_step lim st c of None \<Rightarrow> None | Some st' \<Rightarrow> value_run lim st' s)"

text \<open>\<^verbatim>\<open>json.Valid\<close>: one value, with nothing but white space around it.\<close>

definition json_valid :: "string \<Rightarrow> bool" where
  "json_valid s \<longleftrightarrow> (case take_value max_nesting (BeginValue, []) s of None \<Rightarrow> False | Some (v, rest) \<Rightarrow> list_all json_space rest)"

text \<open>A text that is exactly one value, nested at most \<open>lim\<close> deep, without white space before or after it.\<close>

definition json_value :: "nat \<Rightarrow> string \<Rightarrow> bool" where
  "json_value lim v \<longleftrightarrow>
     v \<noteq> [] \<and> \<not> json_space (hd v) \<and> (case value_run lim (BeginValue, []) v of None \<Rightarrow> False | Some st \<Rightarrow> value_end st)"

subsection \<open>Running the scanner\<close>

lemma value_run_append: "value_run lim st (s @ t) = (case value_run lim st s of None \<Rightarrow> None | Some st' \<Rightarrow> value_run lim st' t)"
  by (induction s arbitrary: st) (auto split: option.splits)

lemma take_value_append: "take_value lim st s = Some (v, rest) \<Longrightarrow> s = v @ rest"
  by (induction lim st s arbitrary: v rest rule: take_value.induct) (auto split: if_splits option.splits)

lemma take_value_run:
  "value_run lim st v = Some st' \<Longrightarrow> value_end st' \<Longrightarrow> t = [] \<or> value_done st' (hd t) \<Longrightarrow> take_value lim st (v @ t) = Some (v, t)"
proof (induction v arbitrary: st)
  case Nil
  then show ?case by (cases t) auto
qed (auto split: if_splits option.splits)

lemma num_next_kind: "num_next m c = Some m' \<Longrightarrow> m' \<notin> {EndValue, BeginKeyOrEmpty}"
  by (auto simp: num_next_def split: jmode.splits if_splits)

text \<open>Inside a larger text, a value is scanned as by itself.\<close>

lemma json_step_context:
  assumes "json_step lim (m, k) c = Some (m', k')" and "\<not> value_done (m, k) c"
  shows "json_step (lim + length b) (m, k @ b) c = Some (m', k' @ b)"
proof -
  have push: "push (lim + length b) x y (k @ b) = Some (x, y # k @ b)" if "push lim x y k = Some (m', k')" for x y
    using that by (auto simp: push_def split: if_splits)
  have start: "begin_value (lim + length b) (k @ b) c = Some (m', k' @ b)" if "begin_value lim k c = Some (m', k')"
    using that by (auto simp: begin_value_def push_def split: if_splits)
  have finish: "end_value (k @ b) c = Some (m', k' @ b)" if "end_value k c = Some (m', k')" "k \<noteq> []"
    using that by (auto simp: end_value_def split: if_splits list.splits jctx.splits)
  have empty: "k \<noteq> []" if "m = EndValue \<or> num_ends m \<and> num_next m c = None" "k = [] \<Longrightarrow> True"
    using that assms(2) by (auto simp: value_done_def)
  show ?thesis
  proof (cases m)
    case BeginValueOrEmpty
    then show ?thesis
      using assms(1) start finish by (cases "k = []") (auto simp: json_step_def end_value_def json_space_def split: if_splits)
  next
    case BeginKeyOrEmpty
    then show ?thesis using assms(1) by (auto simp: json_step_def split: if_splits list.splits jctx.splits)
  next
    case EndValue
    then show ?thesis using assms(1) finish empty by (auto simp: json_step_def)
  qed (use assms(1) start finish empty in \<open>auto simp: json_step_def num_ends_def split: if_splits option.splits list.splits\<close>)
qed

lemma value_done_context: "b \<noteq> [] \<Longrightarrow> \<not> value_done (m, k @ b) c"
  by (simp add: value_done_def)

lemma value_run_context:
  "value_run lim (m, k) v = Some (m', k') \<Longrightarrow> b \<noteq> [] \<Longrightarrow> value_run (lim + length b) (m, k @ b) v = Some (m', k' @ b)"
proof (induction v arbitrary: m k)
  case (Cons c v)
  then obtain m1 k1 where one: "\<not> value_done (m, k) c" "json_step lim (m, k) c = Some (m1, k1)" "value_run lim (m1, k1) v = Some (m', k')"
    by (auto split: if_splits option.splits)
  from Cons.IH [OF one(3) Cons.prems(2)] json_step_context [OF one(2,1), of b] Cons.prems(2) show ?case
    by (simp add: value_done_context)
qed simp

lemma begin_value_mono: "begin_value lim k c = Some st \<Longrightarrow> lim \<le> lim' \<Longrightarrow> begin_value lim' k c = Some st"
  by (auto simp: begin_value_def push_def split: if_splits)

lemma json_step_mono:
  assumes "json_step lim st c = Some st'" and "lim \<le> lim'"
  shows "json_step lim' st c = Some st'"
proof -
  obtain m k where "st = (m, k)" by (cases st)
  with assms begin_value_mono [OF _ assms(2), of k c st'] show ?thesis
    by (cases m) (auto simp: json_step_def split: if_splits)
qed

lemma json_step_number: "num_ends m \<Longrightarrow> num_next m c = None \<Longrightarrow> json_step lim (m, k) c = end_value k c"
  by (cases m) (simp_all add: json_step_def num_ends_def)

lemma value_run_mono: "value_run lim st v = Some st' \<Longrightarrow> lim \<le> lim' \<Longrightarrow> value_run lim' st v = Some st'"
  by (induction v arbitrary: st) (auto split: if_splits option.splits dest: json_step_mono)

text \<open>A delimiter ends any value: in an object or an array it is the separator or the closing bracket, at the top level it ends a number.\<close>

definition delimiter :: "char \<Rightarrow> bool" where
  "delimiter c \<longleftrightarrow> c \<in> {CHR '','', CHR ''}'', CHR '']'', CHR 0x0A}"

lemma num_next_delimiter: "delimiter c \<Longrightarrow> num_next m c = None"
  by (cases m) (auto simp: delimiter_def num_next_def is_digit_def)

lemma json_value_take:
  assumes "json_value lim v" and "t = [] \<or> delimiter (hd t)"
  shows "take_value lim (BeginValue, []) (v @ t) = Some (v, t)"
proof -
  obtain st where st: "value_run lim (BeginValue, []) v = Some st" "value_end st"
    using assms(1) by (auto simp: json_value_def split: option.splits)
  have "t = [] \<or> value_done st (hd t)"
    using assms(2) st(2) num_next_delimiter [of "hd t" "fst st"] by (auto simp: value_end_def value_done_def)
  from take_value_run [OF st this] show ?thesis .
qed

lemma json_value_inside:
  assumes "json_value lim v" and "b \<noteq> []" and "lim + length b \<le> lim'" and "delimiter c" and "end_value b c = Some st'"
  shows "value_run lim' (BeginValue, b) (v @ c # t) = value_run lim' st' t"
proof -
  obtain m where m: "value_run lim (BeginValue, []) v = Some (m, [])" "m = EndValue \<or> num_ends m"
    using assms(1) by (auto simp: json_value_def value_end_def split: option.splits)
  have run: "value_run lim' (BeginValue, b) v = Some (m, b)"
    using value_run_mono [OF value_run_context [OF m(1) assms(2)] assms(3)] by simp
  have "json_step lim' (m, b) c = Some st'"
  proof (cases "m = EndValue")
    case False
    then have "num_ends m" "num_next m c = None" using m(2) num_next_delimiter [OF assms(4)] by auto
    then show ?thesis using assms(5) by (simp add: json_step_number)
  qed (simp add: json_step_def assms(5))
  then show ?thesis using run assms(2) by (simp add: value_run_append value_done_def)
qed

section \<open>UTF-8\<close>

text \<open>
  The length of the UTF-8 sequence a string begins with, 0 if it is not well-formed (a surrogate, an overlong form, a value above
  the last code point, a missing continuation byte).
\<close>

definition continuation :: "char \<Rightarrow> bool" where
  "continuation c \<longleftrightarrow> 128 \<le> (of_char c :: nat) \<and> (of_char c :: nat) \<le> 191"

definition seq_len :: "nat \<Rightarrow> nat" where
  "seq_len n = (if n < 128 then 1 else if n < 194 then 0 else if n < 224 then 2 else if n < 240 then 3 else if n < 245 then 4 else 0)"

definition second_range :: "nat \<Rightarrow> nat \<times> nat" where
  "second_range n =
     (if n = 224 then (160, 191) else if n = 237 then (128, 159) else if n = 240 then (144, 191) else if n = 244 then (128, 143)
      else (128, 191))"

definition rune_len :: "string \<Rightarrow> nat" where
  "rune_len s =
     (case s of
        [] \<Rightarrow> 0
      | c # r \<Rightarrow>
          (let n = of_char c; k = seq_len n in
           if k \<le> 1 then k
           else if k \<le> length s \<and> fst (second_range n) \<le> of_char (hd r) \<and> of_char (hd r) \<le> snd (second_range n) \<and>
             list_all continuation (take (k - 2) (tl r)) then k
           else 0))"

lemma rune_len_le: "rune_len s \<le> length s"
  by (cases s) (auto simp: rune_len_def Let_def)

lemma rune_len_ascii: "(of_char c :: nat) < 128 \<Longrightarrow> rune_len (c # s) = 1"
  by (simp add: rune_len_def seq_len_def)

lemma rune_len_take:
  assumes "rune_len s \<noteq> 0"
  shows "rune_len (take (rune_len s) s @ t) = rune_len s"
proof (cases s)
  case (Cons c r)
  show ?thesis
  proof (cases "rune_len s \<le> 1")
    case True
    with assms have "rune_len s = 1" by simp
    with Cons show ?thesis by (auto simp: rune_len_def Let_def split: if_splits)
  next
    case False
    let ?k = "seq_len (of_char c)"
    from False Cons have k: "rune_len s = ?k" "2 \<le> ?k" "?k \<le> Suc (length r)"
      by (auto simp: rune_len_def Let_def split: if_splits)
    then obtain a r' where r: "r = a # r'" by (cases r) auto
    obtain j where j: "?k = Suc (Suc j)" using k(2) by (metis add_2_eq_Suc le_Suc_ex)
    have "take ?k s @ t = c # a # take j r' @ t" using Cons r j by simp
    moreover have "take j (take j r' @ t) = take j r'" using k(3) r j by simp
    ultimately show ?thesis
      using False Cons r j k by (auto simp: rune_len_def Let_def split: if_splits)
  qed
qed (use assms in \<open>simp add: rune_len_def\<close>)

text \<open>The encoding of a code point; \<^verbatim>\<open>U+FFFD\<close> stands for what has none.\<close>

definition replacement :: string where
  "replacement = [CHR 0xEF, CHR 0xBF, CHR 0xBD]"

definition utf8_encode :: "nat \<Rightarrow> string" where
  "utf8_encode n =
     (if n < 128 then [char_of n]
      else if n < 2048 then [char_of (192 + n div 64), char_of (128 + n mod 64)]
      else if 55296 \<le> n \<and> n < 57344 \<or> 1114111 < n then replacement
      else if n < 65536 then [char_of (224 + n div 4096), char_of (128 + n div 64 mod 64), char_of (128 + n mod 64)]
      else [char_of (240 + n div 262144), char_of (128 + n div 4096 mod 64), char_of (128 + n div 64 mod 64), char_of (128 + n mod 64)])"

function valid_utf8 :: "string \<Rightarrow> bool" where
  "valid_utf8 [] = True"
| "valid_utf8 (c # s) = (rune_len (c # s) \<noteq> 0 \<and> valid_utf8 (drop (rune_len (c # s) - 1) s))"
  by pat_completeness auto
termination by (relation "measure length") auto

section \<open>Strings\<close>

text \<open>
  How the encoder writes a string, with the HTML characters escaped as \<^verbatim>\<open>json.Marshal\<close> and \<^verbatim>\<open>json.Encoder\<close> do. A byte that is not part of
  a well-formed sequence becomes the escape of \<^verbatim>\<open>U+FFFD\<close>, the two line separators of JavaScript are escaped as well.
\<close>

definition unicode_escape :: "nat \<Rightarrow> string" where
  "unicode_escape n =
     [CHR 0x5C, CHR ''u'', hex_digit (n div 4096), hex_digit (n div 256 mod 16), hex_digit (n div 16 mod 16), hex_digit (n mod 16)]"

definition html_safe :: "char \<Rightarrow> bool" where
  "html_safe c \<longleftrightarrow> 32 \<le> (of_char c :: nat) \<and> c \<notin> {CHR 0x22, CHR 0x5C, CHR ''<'', CHR ''>'', CHR ''&''}"

definition escape_ascii :: "char \<Rightarrow> string" where
  "escape_ascii c =
     (if html_safe c then [c]
      else if c = CHR 0x22 \<or> c = CHR 0x5C then [CHR 0x5C, c]
      else if c = CHR 0x08 then [CHR 0x5C, CHR ''b'']
      else if c = CHR 0x0C then [CHR 0x5C, CHR ''f'']
      else if c = CHR 0x0A then [CHR 0x5C, CHR ''n'']
      else if c = CHR 0x0D then [CHR 0x5C, CHR ''r'']
      else if c = CHR 0x09 then [CHR 0x5C, CHR ''t'']
      else unicode_escape (of_char c))"

definition line_separator :: "string \<Rightarrow> bool" where
  "line_separator s \<longleftrightarrow> s = [CHR 0xE2, CHR 0x80, CHR 0xA8] \<or> s = [CHR 0xE2, CHR 0x80, CHR 0xA9]"

function quote_body :: "string \<Rightarrow> string" where
  "quote_body [] = []"
| "quote_body (c # s) =
     (let k = rune_len (c # s); seq = take k (c # s) in
      if (of_char c :: nat) < 128 then escape_ascii c @ quote_body s
      else if k = 0 then unicode_escape 65533 @ quote_body s
      else (if line_separator seq then unicode_escape (8192 + 32 + of_char (last seq) mod 16) else seq) @ quote_body (drop (k - 1) s))"
  by pat_completeness auto
termination by (relation "measure length") auto

definition json_quote :: "string \<Rightarrow> string" where
  "json_quote s = [CHR 0x22] @ quote_body s @ [CHR 0x22]"

text \<open>
  How the decoder reads the inside of a string literal that the scanner has accepted. A surrogate pair of escapes is one code point, a
  lone surrogate is replaced.
\<close>

fun hex4 :: "string \<Rightarrow> nat option" where
  "hex4 (a # b # c # d # _) =
     (case (unhex a, unhex b, unhex c, unhex d) of
        (Some w, Some x, Some y, Some z) \<Rightarrow> Some (4096 * w + 256 * x + 16 * y + z)
      | _ \<Rightarrow> None)"
| "hex4 _ = None"

definition low_surrogate :: "string \<Rightarrow> nat option" where
  "low_surrogate s =
     (if HasPrefix s [CHR 0x5C, CHR ''u''] then
        (case hex4 (drop 2 s) of
           None \<Rightarrow> None
         | Some n \<Rightarrow> if 56320 \<le> n \<and> n < 57344 then Some n else None)
      else None)"

definition simple_escape :: "char \<Rightarrow> char" where
  "simple_escape e =
     (if e = CHR ''b'' then CHR 0x08 else if e = CHR ''f'' then CHR 0x0C else if e = CHR ''n'' then CHR 0x0A
      else if e = CHR ''r'' then CHR 0x0D else if e = CHR ''t'' then CHR 0x09 else e)"

function unquote_body :: "string \<Rightarrow> string" where
  "unquote_body [] = []"
| "unquote_body (c # s) =
     (if c = CHR 0x5C then
        (case s of
           [] \<Rightarrow> []
         | e # s' \<Rightarrow>
             if e \<noteq> CHR ''u'' then simple_escape e # unquote_body s'
             else (let n = (case hex4 s' of None \<Rightarrow> 65533 | Some n \<Rightarrow> n); rest = drop 4 s' in
               if 55296 \<le> n \<and> n < 56320 then
                 (case low_surrogate rest of
                    Some l \<Rightarrow> utf8_encode (65536 + (n - 55296) * 1024 + (l - 56320)) @ unquote_body (drop 6 rest)
                  | None \<Rightarrow> replacement @ unquote_body rest)
               else utf8_encode n @ unquote_body rest))
      else (let k = rune_len (c # s) in
        if k = 0 then replacement @ unquote_body s else take k (c # s) @ unquote_body (drop (k - 1) s)))"
  by pat_completeness auto
termination by (relation "measure length") auto

text \<open>The value of a string literal with its quotes.\<close>

definition json_unquote :: "string \<Rightarrow> string" where
  "json_unquote lit = unquote_body (butlast (tl lit))"

declare quote_body.simps(2) [simp del] unquote_body.simps(2) [simp del] valid_utf8.simps(2) [simp del]

lemma hex_digits_value: "4096 * (n div 4096) + 256 * (n div 256 mod 16) + 16 * (n div 16 mod 16) + n mod 16 = (n :: nat)"
proof -
  have "16 * (n div 16) + n mod 16 = n" by simp
  moreover have "16 * (n div 256) + n div 16 mod 16 = n div 16"
    using div_mult_mod_eq [of "n div 16" 16] by (simp add: div_mult2_eq [symmetric] mult.commute)
  moreover have "16 * (n div 4096) + n div 256 mod 16 = n div 256"
    using div_mult_mod_eq [of "n div 256" 16] by (simp add: div_mult2_eq [symmetric] mult.commute)
  ultimately show ?thesis by linarith
qed

lemma unicode_escape_text:
  assumes "n < 65536"
  obtains h where "unicode_escape n = CHR 0x5C # CHR ''u'' # h" and "length h = 4" and "\<And>t. hex4 (h @ t) = Some n"
    and "\<forall>c \<in> set h. unhex c \<noteq> None"
proof -
  let ?h = "[hex_digit (n div 4096), hex_digit (n div 256 mod 16), hex_digit (n div 16 mod 16), hex_digit (n mod 16)]"
  have digits: "unhex (hex_digit (n div 4096)) = Some (n div 4096)" using assms by (intro unhex_hex_digit) simp
  then have "hex4 (?h @ t) = Some n" for t using hex_digits_value [of n] by simp
  with digits show thesis by (intro that [of ?h]) (auto simp: unicode_escape_def)
qed

lemma unquote_unicode_escape:
  assumes "n < 55296 \<or> 57344 \<le> n" and "n < 65536"
  shows "unquote_body (unicode_escape n @ t) = utf8_encode n @ unquote_body t"
proof -
  obtain h where h: "unicode_escape n = CHR 0x5C # CHR ''u'' # h" "length h = 4" "hex4 (h @ t) = Some n"
    using unicode_escape_text [OF assms(2)] by metis
  from assms(1) show ?thesis by (elim disjE) (simp_all add: h unquote_body.simps(2) Let_def)
qed

lemma unquote_escape_ascii:
  assumes "(of_char c :: nat) < 128"
  shows "unquote_body (escape_ascii c @ t) = c # unquote_body t"
proof -
  have "utf8_encode (of_char c) = [c]" using assms by (simp add: utf8_encode_def)
  with unquote_unicode_escape [of "of_char c" t] assms show ?thesis
    by (simp add: escape_ascii_def unquote_body.simps(2) rune_len_ascii simple_escape_def html_safe_def)
qed

lemma unquote_sequence:
  assumes "rune_len s \<noteq> 0" and "hd s \<noteq> CHR 0x5C"
  shows "unquote_body (take (rune_len s) s @ t) = take (rune_len s) s @ unquote_body t"
proof -
  obtain c r where s: "s = c # r" using assms(1) by (cases s) (auto simp: rune_len_def)
  obtain k where k: "rune_len s = Suc k" using assms(1) by (cases "rune_len s") auto
  have len: "k \<le> length r" using rune_len_le [of s] s k by simp
  have "unquote_body (c # take k r @ t) = take (Suc k) (c # take k r @ t) @ unquote_body (drop k (take k r @ t))"
    using rune_len_take [OF assms(1), of t] assms(2) s k by (simp add: unquote_body.simps(2))
  with s k len show ?thesis by simp
qed

lemma line_separator_escape:
  "line_separator x \<Longrightarrow> unquote_body (unicode_escape (8192 + 32 + of_char (last x) mod 16) @ u) = x @ unquote_body u"
  by (auto simp: line_separator_def unquote_unicode_escape utf8_encode_def char_of_eq_iff)

lemma unquote_quote_body: "valid_utf8 s \<Longrightarrow> unquote_body (quote_body s @ t) = s @ unquote_body t"
proof (induction s arbitrary: t rule: quote_body.induct)
  case (2 c s)
  let ?k = "rune_len (c # s)"
  have valid: "?k \<noteq> 0" "valid_utf8 (drop (?k - 1) s)" using 2(4) by (simp_all add: valid_utf8.simps(2))
  show ?case
  proof (cases "(of_char c :: nat) < 128")
    case True
    then show ?thesis
      using 2(1) [OF refl refl True] valid rune_len_ascii [OF True, of s]
      by (simp add: quote_body.simps(2) unquote_escape_ascii)
  next
    case False
    let ?seq = "take ?k (c # s)"
    have rest: "?seq @ drop (?k - 1) s = c # s" using valid(1) by (cases ?k) simp_all
    have body: "unquote_body ((if line_separator ?seq then unicode_escape (8192 + 32 + of_char (last ?seq) mod 16) else ?seq) @ u) = ?seq @ unquote_body u" for u
    proof (cases "line_separator ?seq")
      case True
      then show ?thesis unfolding if_P [OF True] by (rule line_separator_escape)
    next
      case no: False
      have "hd (c # s) \<noteq> CHR 0x5C" using False by auto
      from unquote_sequence [OF valid(1) this] show ?thesis unfolding if_not_P [OF no] .
    qed
    have "unquote_body (quote_body (drop (?k - 1) s) @ t) = drop (?k - 1) s @ unquote_body t"
      using 2(3) [OF refl refl False valid(1)] valid(2) by simp
    moreover have "quote_body (c # s) =
        (if line_separator ?seq then unicode_escape (8192 + 32 + of_char (last ?seq) mod 16) else ?seq) @ quote_body (drop (?k - 1) s)"
      using False valid(1) by (simp add: quote_body.simps(2) Let_def del: take_Suc_Cons)
    ultimately show ?thesis using body [of "quote_body (drop (?k - 1) s) @ t"] rest by (metis append.assoc)
  qed
qed simp

lemma json_unquote_quote [simp]: "valid_utf8 s \<Longrightarrow> json_unquote (json_quote s) = s"
  using unquote_quote_body [of s "[]"] by (simp add: json_unquote_def json_quote_def)

text \<open>The scanner stays inside the string over whatever the encoder writes.\<close>

lemma json_step_string: "c \<noteq> CHR 0x22 \<Longrightarrow> c \<noteq> CHR 0x5C \<Longrightarrow> 32 \<le> (of_char c :: nat) \<Longrightarrow> json_step lim (InString, b) c = Some (InString, b)"
  by (simp add: json_step_def)

lemma value_done_inside [simp]:
  "\<not> value_done (InString, b) c" "\<not> value_done (InEscape, b) c" "\<not> value_done (InHex n, b) c" "\<not> value_done (BeginValue, b) c"
  "\<not> value_done (BeginKey, b) c" "\<not> value_done (BeginKeyOrEmpty, b) c" "\<not> value_done (BeginValueOrEmpty, b) c" "\<not> value_done (Lit l, b) c"
  by (simp_all add: value_done_def num_ends_def)

lemma value_run_hex:
  assumes "\<forall>c \<in> set h. unhex c \<noteq> None" and "length h = n" and "0 < n"
  shows "value_run lim (InHex n, b) (h @ t) = value_run lim (InString, b) t"
  using assms
proof (induction h arbitrary: n)
  case (Cons c h)
  show ?case
  proof (cases "h = []")
    case True
    with Cons.prems show ?thesis by (auto simp: json_step_def)
  next
    case False
    with Cons.prems Cons.IH [of "n - 1"] show ?thesis by (auto simp: json_step_def Suc_le_eq split: if_splits)
  qed
qed simp

lemma value_run_unicode_escape:
  assumes "n < 65536"
  shows "value_run lim (InString, b) (unicode_escape n @ t) = value_run lim (InString, b) t"
proof -
  obtain h where h: "unicode_escape n = CHR 0x5C # CHR ''u'' # h" "length h = 4" "\<forall>c \<in> set h. unhex c \<noteq> None"
    using unicode_escape_text [OF assms] by metis
  have "value_run lim (InHex 4, b) (h @ t) = value_run lim (InString, b) t" by (rule value_run_hex [OF h(3,2)]) simp_all
  then show ?thesis by (simp add: h(1) json_step_def)
qed

lemma value_run_escape_ascii:
  assumes "(of_char c :: nat) < 128"
  shows "value_run lim (InString, b) (escape_ascii c @ t) = value_run lim (InString, b) t"
  using assms value_run_unicode_escape [of "of_char c" lim b t]
  by (simp add: escape_ascii_def html_safe_def json_step_string) (simp add: json_step_def)

lemma value_run_plain:
  "\<forall>c \<in> set p. c \<noteq> CHR 0x22 \<and> c \<noteq> CHR 0x5C \<and> 32 \<le> (of_char c :: nat) \<Longrightarrow>
    value_run lim (InString, b) (p @ t) = value_run lim (InString, b) t"
  by (induction p) (simp_all add: json_step_string)

lemma rune_len_sequence:
  assumes "2 \<le> rune_len (d # s)"
  obtains a r where "s = a # r" and "take (rune_len (d # s)) (d # s) = d # a # take (rune_len (d # s) - 2) r" and "128 \<le> (of_char a :: nat)"
    and "\<forall>c \<in> set (take (rune_len (d # s) - 2) r). continuation c"
proof -
  let ?k = "rune_len (d # s)"
  have k: "?k = seq_len (of_char d)" "?k \<le> Suc (length s)" "fst (second_range (of_char d)) \<le> (of_char (hd s) :: nat)"
      "list_all continuation (take (?k - 2) (tl s))"
    using assms by (auto simp: rune_len_def Let_def split: if_splits)
  obtain a r where s: "s = a # r" using k(2) assms by (cases s) auto
  have "128 \<le> fst (second_range (of_char d))" by (simp add: second_range_def)
  with k(3) s have "128 \<le> (of_char a :: nat)" by simp
  moreover have "take ?k (d # s) = d # a # take (?k - 2) r"
    using assms s by (metis Suc_1 Suc_diff_le diff_Suc_Suc take_Suc_Cons le_Suc_ex add_2_eq_Suc diff_add_inverse)
  ultimately show thesis using k(4) s by (intro that) (simp_all add: list_all_iff)
qed

lemma rune_len_high:
  assumes "c \<in> set (take (rune_len (d # s)) (d # s))" and "128 \<le> (of_char d :: nat)"
  shows "128 \<le> (of_char c :: nat)"
proof (cases "2 \<le> rune_len (d # s)")
  case True
  then obtain a r where "take (rune_len (d # s)) (d # s) = d # a # take (rune_len (d # s) - 2) r" "128 \<le> (of_char a :: nat)"
      "\<forall>c \<in> set (take (rune_len (d # s) - 2) r). continuation c"
    by (rule rune_len_sequence)
  with assms show ?thesis by (auto simp: continuation_def)
next
  case False
  then have "rune_len (d # s) = 0 \<or> rune_len (d # s) = 1" by linarith
  with assms show ?thesis by auto
qed

lemma value_run_quote_body: "value_run lim (InString, b) (quote_body s @ t) = value_run lim (InString, b) t"
proof (induction s rule: quote_body.induct)
  case (2 c s)
  let ?k = "rune_len (c # s)"
  let ?seq = "take ?k (c # s)"
  show ?case
  proof (cases "(of_char c :: nat) < 128")
    case True
    then show ?thesis using 2(1) [OF refl refl True] by (simp add: quote_body.simps(2) value_run_escape_ascii)
  next
    case False
    show ?thesis
    proof (cases "?k = 0")
      case True
      then show ?thesis
        using 2(2) [OF refl refl False True] False by (simp add: quote_body.simps(2) value_run_unicode_escape)
    next
      case k: False
      have "value_run lim (InString, b) ((if line_separator ?seq then unicode_escape (8192 + 32 + of_char (last ?seq) mod 16) else ?seq) @ u) =
          value_run lim (InString, b) u" for u
      proof (cases "line_separator ?seq")
        case True
        have "of_char (last ?seq) mod 16 < (16 :: nat)" by simp
        then show ?thesis unfolding if_P [OF True] by (intro value_run_unicode_escape) linarith
      next
        case no: False
        have "\<forall>d \<in> set ?seq. d \<noteq> CHR 0x22 \<and> d \<noteq> CHR 0x5C \<and> 32 \<le> (of_char d :: nat)"
          using rune_len_high [of _ c s] False by fastforce
        then show ?thesis unfolding if_not_P [OF no] by (rule value_run_plain)
      qed
      moreover have "quote_body (c # s) =
          (if line_separator ?seq then unicode_escape (8192 + 32 + of_char (last ?seq) mod 16) else ?seq) @ quote_body (drop (?k - 1) s)"
        using False k by (simp add: quote_body.simps(2) Let_def del: take_Suc_Cons)
      ultimately show ?thesis using 2(3) [OF refl refl False k] by (metis append.assoc)
    qed
  qed
qed simp

lemma value_run_quote: "value_run lim (BeginValue, b) (json_quote s @ t) = value_run lim (EndValue, b) t"
  "value_run lim (BeginKey, b) (json_quote s @ t) = value_run lim (EndValue, b) t"
  "value_run lim (BeginKeyOrEmpty, b) (json_quote s @ t) = value_run lim (EndValue, b) t"
  by (simp_all add: json_quote_def json_step_def json_space_def begin_value_def value_run_quote_body)

lemma json_value_quote [simp]: "json_value lim (json_quote s)"
  using value_run_quote(1) [of lim "[]" s "[]"] by (simp add: json_value_def value_end_def) (simp add: json_quote_def json_space_def)

section \<open>Numbers and raw values\<close>

lemma value_run_digits:
  "list_all is_digit ds \<Longrightarrow> value_run lim (NumInt, b) ds = Some (NumInt, b)"
  by (induction ds) (simp_all add: value_done_def num_ends_def num_next_def json_step_def)

lemma dec_nat_head: "0 < n \<Longrightarrow> \<exists>d ds. dec_nat n = d # ds \<and> is_digit d \<and> d \<noteq> CHR ''0'' \<and> list_all is_digit ds"
proof (induction n rule: dec_nat.induct)
  case (1 n)
  show ?case
  proof (cases "n < 10")
    case True
    with 1(2) show ?thesis
      by (simp add: dec_nat.simps [of n]) (simp add: digit_char_def char_of_eq_iff take_bit_nat_eq_self)
  next
    case False
    then have "0 < n div 10" by (simp add: div_greater_zero_iff)
    with 1(1) [OF False] obtain d ds where "dec_nat (n div 10) = d # ds" "is_digit d" "d \<noteq> CHR ''0''" "list_all is_digit ds" by blast
    with False show ?thesis by (simp add: dec_nat.simps [of n])
  qed
qed

lemma value_run_dec_nat:
  assumes "m \<in> {BeginValue, NumNeg}"
  shows "\<exists>m'. value_run lim (m, b) (dec_nat n) = Some (m', b) \<and> num_ends m'"
proof (cases "n = 0")
  case True
  have "dec_nat 0 = ''0''" by (simp add: dec_nat.simps [of 0] digit_char_def char_of_eq_iff)
  moreover have "json_step lim (m, b) (CHR ''0'') = Some (NumZero, b)"
    using assms by (auto simp: json_step_def num_next_def begin_value_def json_space_def)
  moreover have "\<not> value_done (m, b) (CHR ''0'')" using assms by (auto simp: value_done_def num_ends_def)
  ultimately show ?thesis using True by (simp add: num_ends_def)
next
  case False
  then obtain d ds where d: "dec_nat n = d # ds" "is_digit d" "d \<noteq> CHR ''0''" "list_all is_digit ds"
    using dec_nat_head [of n] by auto
  then have "\<not> json_space d" "d \<noteq> CHR ''{''" "d \<noteq> CHR ''[''" "d \<noteq> CHR 0x22" "d \<noteq> CHR ''-''"
    by (auto simp: is_digit_def json_space_def)
  with d(2,3) have "json_step lim (BeginValue, b) d = Some (NumInt, b)" "json_step lim (NumNeg, b) d = Some (NumInt, b)"
    by (simp_all add: json_step_def num_next_def begin_value_def)
  then have "json_step lim (m, b) d = Some (NumInt, b)" "\<not> value_done (m, b) d"
    using assms by (auto simp: value_done_def num_ends_def)
  with value_run_digits [OF d(4), of lim b] show ?thesis by (simp add: d(1) num_ends_def)
qed

lemma json_value_itoa [simp]: "json_value lim (itoa i)"
proof -
  have digit: "\<not> json_space (hd (dec_nat n))" for n
    using dec_nat_digits [of n] dec_nat_not_Nil [of n] by (cases "dec_nat n") (auto simp: is_digit_def json_space_def)
  show ?thesis
  proof (cases "i < 0")
    case True
    obtain m where "value_run lim (NumNeg, []) (dec_nat (nat (- i))) = Some (m, [])" "num_ends m"
      using value_run_dec_nat [of NumNeg lim "[]"] by auto
    moreover have "json_step lim (BeginValue, []) (CHR ''-'') = Some (NumNeg, [])" by (simp add: json_step_def json_space_def begin_value_def)
    ultimately show ?thesis using True by (simp add: json_value_def itoa_def value_end_def) (simp add: json_space_def)
  next
    case False
    obtain m where "value_run lim (BeginValue, []) (dec_nat (nat i)) = Some (m, [])" "num_ends m"
      using value_run_dec_nat [of BeginValue lim "[]"] by auto
    with False digit show ?thesis by (simp add: json_value_def itoa_def value_end_def)
  qed
qed

lemma json_value_literals [simp]: "json_value lim ''true''" "json_value lim ''false''" "json_value lim ''null''"
  by (simp_all add: json_value_def json_step_def begin_value_def json_space_def is_digit_def value_end_def)

text \<open>
  \<^verbatim>\<open>json.Marshal\<close> writes a raw value without the white space outside of its strings and with the HTML characters and line
  separators escaped, if it is one valid value. \<open>None\<close> is the error.
\<close>

fun compact_loop :: "nat \<Rightarrow> jstate \<Rightarrow> string \<Rightarrow> string option" where
  "compact_loop lim st [] = (if value_end st then Some [] else None)"
| "compact_loop lim st (c # s) =
     (if value_done st c then (if list_all json_space (c # s) then Some [] else None)
      else case json_step lim st c of
        None \<Rightarrow> None
      | Some st' \<Rightarrow>
          if c \<in> {CHR ''<'', CHR ''>'', CHR ''&''} then map_option ((@) (unicode_escape (of_char c))) (compact_loop lim st' s)
          else if c = CHR 0xE2 \<and> line_separator (take 3 (c # s)) then
            map_option ((@) (unicode_escape (8192 + 32 + of_char (s ! 1) mod 16))) (compact_loop lim st' (drop 2 s))
          else if json_space c \<and> fst st \<noteq> InString then compact_loop lim st' s
          else map_option ((#) c) (compact_loop lim st' s))"

definition compact :: "string \<Rightarrow> string option" where
  "compact s = compact_loop max_nesting (BeginValue, []) s"

lemma compact_keep:
  assumes "json_step lim st c = Some st'" and "\<not> value_done st c" and "c \<notin> {CHR ''<'', CHR ''>'', CHR ''&'', CHR 0xE2}"
    and "json_space c \<longrightarrow> fst st = InString"
  shows "compact_loop lim st (c # s) = map_option ((#) c) (compact_loop lim st' s)"
  using assms by auto

lemma map_option_append_Nil [simp]: "map_option ((@) []) r = r"
  by (cases r) simp_all

lemma compact_prepend: "map_option ((@) p) (map_option ((@) q) r) = map_option ((@) (p @ q)) r" "map_option ((#) c) (map_option ((@) q) r) = map_option ((@) (c # q)) r"
  by (cases r; simp)+

lemma compact_join:
  assumes "\<And>u. compact_loop lim st (p @ u) = map_option ((@) p) (compact_loop lim st' u)"
    and "compact_loop lim st' (q @ t) = map_option ((@) q) (compact_loop lim st'' t)"
  shows "compact_loop lim st ((p @ q) @ t) = map_option ((@) (p @ q)) (compact_loop lim st'' t)"
  unfolding append.assoc assms compact_prepend ..

lemma compact_string_char:
  assumes "c \<notin> {CHR 0x22, CHR 0x5C, CHR ''<'', CHR ''>'', CHR ''&'', CHR 0xE2}" and "32 \<le> (of_char c :: nat)"
  shows "compact_loop lim (InString, b) (c # s) = map_option ((#) c) (compact_loop lim (InString, b) s)"
  using assms by (intro compact_keep) (auto simp: json_step_string)

lemma compact_string_chars:
  "\<forall>c \<in> set p. c \<notin> {CHR 0x22, CHR 0x5C, CHR ''<'', CHR ''>'', CHR ''&'', CHR 0xE2} \<and> 32 \<le> (of_char c :: nat) \<Longrightarrow>
    compact_loop lim (InString, b) (p @ t) = map_option ((@) p) (compact_loop lim (InString, b) t)"
  by (induction p) (simp_all add: compact_string_char compact_prepend del: compact_loop.simps(2))

lemma unhex_not_special: "unhex c \<noteq> None \<Longrightarrow> c \<notin> {CHR ''<'', CHR ''>'', CHR ''&'', CHR 0xE2} \<and> \<not> json_space c"
  by (auto simp: unhex_def json_space_def Let_def)

lemma compact_hex:
  assumes "\<forall>c \<in> set h. unhex c \<noteq> None" and "length h = n" and "0 < n"
  shows "compact_loop lim (InHex n, b) (h @ t) = map_option ((@) h) (compact_loop lim (InString, b) t)"
  using assms
proof (induction h arbitrary: n)
  case (Cons c h)
  let ?st = "if n \<le> 1 then (InString, b) else (InHex (n - 1), b)"
  have c: "unhex c \<noteq> None" using Cons.prems(1) by simp
  have "json_step lim (InHex n, b) c = Some ?st" using c by (auto simp: json_step_def)
  from compact_keep [OF this, of "h @ t"] unhex_not_special [OF c]
  have "compact_loop lim (InHex n, b) (c # h @ t) = map_option ((#) c) (compact_loop lim ?st (h @ t))" by simp
  moreover have "compact_loop lim ?st (h @ t) = map_option ((@) h) (compact_loop lim (InString, b) t)"
    using Cons by (cases "h = []") auto
  ultimately show ?case by (cases "compact_loop lim (InString, b) t") simp_all
qed simp

lemma compact_escape:
  assumes "json_step lim (InEscape, b) e = Some st'" and "e \<notin> {CHR ''<'', CHR ''>'', CHR ''&'', CHR 0xE2}" and "\<not> json_space e"
  shows "compact_loop lim (InString, b) (CHR 0x5C # e # s) = map_option ((@) [CHR 0x5C, e]) (compact_loop lim st' s)"
proof -
  have "compact_loop lim (InString, b) (CHR 0x5C # e # s) = map_option ((#) (CHR 0x5C)) (compact_loop lim (InEscape, b) (e # s))"
    by (rule compact_keep) (simp_all add: json_step_def json_space_def)
  also have "compact_loop lim (InEscape, b) (e # s) = map_option ((#) e) (compact_loop lim st' s)"
    using assms by (intro compact_keep) auto
  finally show ?thesis by (cases "compact_loop lim st' s") (simp_all del: compact_loop.simps(2))
qed

lemma compact_unicode_escape:
  assumes "n < 65536"
  shows "compact_loop lim (InString, b) (unicode_escape n @ t) = map_option ((@) (unicode_escape n)) (compact_loop lim (InString, b) t)"
proof -
  obtain h where h: "unicode_escape n = CHR 0x5C # CHR ''u'' # h" "length h = 4" "\<forall>c \<in> set h. unhex c \<noteq> None"
    using unicode_escape_text [OF assms] by metis
  have "json_step lim (InEscape, b) (CHR ''u'') = Some (InHex 4, b)" by (simp add: json_step_def)
  from compact_escape [OF this] compact_hex [OF h(3,2)] show ?thesis
    by (simp add: h(1) json_space_def compact_prepend del: compact_loop.simps(2))
qed

lemma compact_escape_ascii:
  assumes "(of_char c :: nat) < 128"
  shows "compact_loop lim (InString, b) (escape_ascii c @ t) = map_option ((@) (escape_ascii c)) (compact_loop lim (InString, b) t)"
proof -
  have escape: "compact_loop lim (InString, b) (CHR 0x5C # e # t) = map_option ((@) [CHR 0x5C, e]) (compact_loop lim (InString, b) t)"
    if "e \<in> {CHR 0x22, CHR 0x5C, CHR ''b'', CHR ''f'', CHR ''n'', CHR ''r'', CHR ''t''}" for e
    using that by (intro compact_escape) (auto simp: json_step_def json_space_def)
  show ?thesis
  proof (cases "html_safe c")
    case True
    then have "c \<noteq> CHR 0xE2" using assms by auto
    with True compact_string_char [of c lim b t] show ?thesis
      by (auto simp: escape_ascii_def html_safe_def simp del: compact_loop.simps(2))
        (cases "compact_loop lim (InString, b) t"; simp)
  next
    case False
    with compact_unicode_escape [of "of_char c" lim b t] assms show ?thesis
      by (auto simp: escape_ascii_def escape simp del: compact_loop.simps(2))
  qed
qed

lemma compact_sequence:
  assumes "128 \<le> (of_char c :: nat)" and "rune_len (c # s) \<noteq> 0"
  defines "seq \<equiv> take (rune_len (c # s)) (c # s)"
  assumes "\<not> line_separator seq"
  shows "compact_loop lim (InString, b) (seq @ t) = map_option ((@) seq) (compact_loop lim (InString, b) t)"
proof -
  have k: "rune_len (c # s) = seq_len (of_char c)" "2 \<le> seq_len (of_char c)"
    using assms(1,2) by (auto simp: rune_len_def Let_def seq_len_def split: if_splits)
  then have "2 \<le> rune_len (c # s)" by simp
  then obtain a r where seq: "s = a # r" "seq = c # a # take (rune_len (c # s) - 2) r" "128 \<le> (of_char a :: nat)"
      "\<forall>d \<in> set (take (rune_len (c # s) - 2) r). continuation d"
    unfolding seq_def by (rule rune_len_sequence)
  have range: "snd (second_range n) \<le> 191" for n by (simp add: second_range_def)
  have "(of_char a :: nat) \<le> 191"
    using assms(2) k range [of "of_char c"] seq(1) by (auto simp: rune_len_def Let_def split: if_splits)
  then have tail: "\<forall>d \<in> set (tl seq). d \<notin> {CHR 0x22, CHR 0x5C, CHR ''<'', CHR ''>'', CHR ''&'', CHR 0xE2} \<and> 32 \<le> (of_char d :: nat)"
    using seq(2-4) by (auto simp: continuation_def)
  have step: "json_step lim (InString, b) c = Some (InString, b)" using assms(1) by (intro json_step_string) auto
  have "compact_loop lim (InString, b) (c # tl seq @ t) = map_option ((#) c) (compact_loop lim (InString, b) (tl seq @ t))"
  proof (cases "c = CHR 0xE2")
    case False
    with step assms(1) show ?thesis by (intro compact_keep) auto
  next
    case True
    then have "rune_len (c # s) = 3" using k by (simp add: seq_len_def)
    then have "take 3 (c # tl seq @ t) = seq"
      using seq(1,2) rune_len_le [of "c # s"] by (cases r) auto
    with assms(4) step True show ?thesis by (auto simp: json_space_def)
  qed
  also have "compact_loop lim (InString, b) (tl seq @ t) = map_option ((@) (tl seq)) (compact_loop lim (InString, b) t)"
    by (rule compact_string_chars [OF tail])
  finally show ?thesis using seq(2) by (cases "compact_loop lim (InString, b) t") (simp_all del: compact_loop.simps(2))
qed

lemma compact_quote_body: "compact_loop lim (InString, b) (quote_body s @ t) = map_option ((@) (quote_body s)) (compact_loop lim (InString, b) t)"
proof (induction s rule: quote_body.induct)
  case (2 c s)
  let ?k = "rune_len (c # s)"
  let ?seq = "take ?k (c # s)"
  show ?case
  proof (cases "(of_char c :: nat) < 128")
    case True
    then show ?thesis using 2(1) [OF refl refl True]
      by (cases "compact_loop lim (InString, b) t") (simp_all add: quote_body.simps(2) compact_escape_ascii)
  next
    case False
    show ?thesis
    proof (cases "?k = 0")
      case True
      then show ?thesis
        using 2(2) [OF refl refl False True] False
        by (cases "compact_loop lim (InString, b) t") (simp_all add: quote_body.simps(2) compact_unicode_escape)
    next
      case k: False
      let ?out = "if line_separator ?seq then unicode_escape (8192 + 32 + of_char (last ?seq) mod 16) else ?seq"
      have "compact_loop lim (InString, b) (?out @ u) = map_option ((@) ?out) (compact_loop lim (InString, b) u)" for u
      proof (cases "line_separator ?seq")
        case True
        have "of_char (last ?seq) mod 16 < (16 :: nat)" by simp
        then show ?thesis unfolding if_P [OF True] by (intro compact_unicode_escape) linarith
      next
        case no: False
        from compact_sequence [OF _ k no, of lim b u] False show ?thesis unfolding if_not_P [OF no] by simp
      qed
      note out = compact_join [OF this 2(3) [OF refl refl False k]]
      have "quote_body (c # s) = ?out @ quote_body (drop (?k - 1) s)"
        using False k by (simp add: quote_body.simps(2) Let_def del: take_Suc_Cons)
      then show ?thesis using out by (simp only:)
    qed
  qed
qed (simp add: option.map_ident)

lemma compact_quote:
  assumes "m \<in> {BeginValue, BeginKey, BeginKeyOrEmpty}"
  shows "compact_loop lim (m, b) (json_quote s @ t) = map_option ((@) (json_quote s)) (compact_loop lim (EndValue, b) t)"
proof -
  have "json_step lim (m, b) (CHR 0x22) = Some (InString, b)" "\<not> value_done (m, b) (CHR 0x22)"
    using assms by (auto simp: json_step_def begin_value_def json_space_def)
  then have "compact_loop lim (m, b) (CHR 0x22 # u) = map_option ((#) (CHR 0x22)) (compact_loop lim (InString, b) u)" for u
    by (intro compact_keep) (simp_all add: json_space_def)
  moreover have "compact_loop lim (InString, b) (CHR 0x22 # u) = map_option ((#) (CHR 0x22)) (compact_loop lim (EndValue, b) u)" for u
    by (intro compact_keep) (simp_all add: json_step_def)
  ultimately show ?thesis
    unfolding json_quote_def
    by (cases "compact_loop lim (EndValue, b) t") (simp_all add: compact_quote_body del: compact_loop.simps(2))
qed

text \<open>
  Compacting gives a value again, and compacting that changes nothing more. In the run over the compacted text a number may still be open
  where white space has ended it in the original.
\<close>

definition proper_literal :: "jmode \<Rightarrow> bool" where
  "proper_literal m \<longleftrightarrow> (\<forall>l. m = Lit l \<longrightarrow> set l \<subseteq> set ''truefalsn'')"

lemma proper_literal_step:
  assumes "json_step lim (m, k) c = Some (m', k')" and "proper_literal m"
  shows "proper_literal m'"
proof (cases "\<exists>l. m' = Lit l")
  case True
  then obtain l where l: "m' = Lit l" by blast
  have begin_lit: "set l \<subseteq> set ''truefalsn''" if "begin_value lim k c = Some (Lit l, k')"
    using that by (auto simp: begin_value_def push_def split: if_splits)
  have end_lit: "end_value k c \<noteq> Some (Lit l, k')" by (auto simp: end_value_def split: list.splits jctx.splits)
  have num_lit: "num_next m c \<noteq> Some (Lit l)" by (cases m) (auto simp: num_next_def)
  show ?thesis
  proof (cases m)
    case (Lit l0)
    with assms l show ?thesis by (cases l0) (auto simp: json_step_def proper_literal_def split: if_splits)
  qed (use assms(1) l begin_lit end_lit num_lit in
      \<open>auto simp: json_step_def proper_literal_def split: if_splits option.splits list.splits jctx.splits\<close>)
qed (simp add: proper_literal_def)

lemma num_next_other: "\<not> is_digit c \<Longrightarrow> c \<notin> {CHR ''0'', CHR ''.'', CHR ''e'', CHR ''E'', CHR ''+'', CHR ''-''} \<Longrightarrow> num_next m c = None"
  by (cases m) (simp_all add: num_next_def)

lemma html_step:
  assumes "json_step lim (m, k) c = Some st" and "proper_literal m" and "c \<in> {CHR ''<'', CHR ''>'', CHR ''&'', CHR 0xE2}"
  shows "m = InString \<and> st = (InString, k)"
proof -
  have digit: "\<not> is_digit c" and plain: "\<not> json_space c" and hex: "unhex c = None"
    using assms(3) by (elim insertE; simp add: is_digit_def json_space_def unhex_def)+
  have others: "c \<notin> {CHR ''b'', CHR ''f'', CHR ''n'', CHR ''r'', CHR ''t'', CHR 0x5C, CHR ''/'', CHR 0x22}" "c \<noteq> CHR ''u''"
      "c \<notin> set ''truefalsn''" "c \<noteq> CHR '']''" "c \<noteq> CHR ''}''" "c \<noteq> CHR 0x22" "c \<noteq> CHR 0x5C" "c \<noteq> CHR '',''" "c \<noteq> CHR '':''"
      "c \<notin> {CHR ''{'', CHR ''['', CHR ''-'', CHR ''0'', CHR ''t'', CHR ''f'', CHR ''n'', CHR ''.'', CHR ''e'', CHR ''E'', CHR ''+''}"
    using assms(3) by (elim insertE; simp)+
  have begin_none: "begin_value lim k c = None" using others digit by (simp add: begin_value_def)
  have end_none: "end_value k c = None" using others plain by (simp add: end_value_def split: list.splits jctx.splits)
  have num: "num_next m c = None" using digit others by (intro num_next_other) auto
  show ?thesis
  proof (cases m)
    case InString
    then show ?thesis using assms(1) others(6,7) by (simp add: json_step_def split: if_splits)
  next
    case InEscape
    then show ?thesis using assms(1) others(1,2) by (simp add: json_step_def)
  next
    case (Lit l)
    then show ?thesis using assms(1,2) others(3) by (cases l) (auto simp: json_step_def proper_literal_def split: if_splits)
  qed (use assms(1) plain begin_none end_none num hex others(4-6) in \<open>simp_all add: json_step_def split: if_splits\<close>)
qed

lemma space_step:
  assumes "json_step lim (m, k) c = Some (m1, k1)" and "proper_literal m" and "json_space c" and "m \<noteq> InString"
  shows "k1 = k \<and> (m1 = m \<or> num_ends m \<and> m1 = EndValue)"
proof -
  have num: "num_next m c = None" using assms(3) by (cases m) (auto simp: num_next_def is_digit_def json_space_def)
  have finish: "end_value k c = Some (EndValue, k)" using assms(3) by (simp add: end_value_def)
  have hex: "unhex c = None" using assms(3) by (auto simp: unhex_def json_space_def)
  have others: "c \<notin> {CHR ''b'', CHR ''f'', CHR ''n'', CHR ''r'', CHR ''t'', CHR 0x5C, CHR ''/'', CHR 0x22}" "c \<noteq> CHR ''u''"
      "c \<notin> set ''truefalsn''" using assms(3) by (auto simp: json_space_def)
  show ?thesis
  proof (cases m)
    case InEscape
    then show ?thesis using assms(1) others(1,2) by (simp add: json_step_def)
  next
    case (Lit l)
    then show ?thesis using assms(1,2) others(3) by (cases l) (auto simp: json_step_def proper_literal_def split: if_splits)
  qed (use assms(1,3,4) num hex finish in \<open>simp_all add: json_step_def split: if_splits\<close>)
qed

lemma open_number_step:
  assumes "json_step lim (EndValue, k) c = Some st" and "num_ends m" and "\<not> json_space c"
  shows "json_step lim (m, k) c = Some st \<and> k \<noteq> []"
proof -
  have "c \<in> {CHR '','', CHR '':'', CHR ''}'', CHR '']''}" "k \<noteq> []"
    using assms(1,3) by (auto simp: json_step_def end_value_def split: list.splits jctx.splits if_splits)
  moreover from this(1) have "num_next m c = None" by (cases m) (auto simp: num_next_def is_digit_def)
  ultimately show ?thesis using assms(1,2) by (simp add: json_step_number) (simp add: json_step_def)
qed

lemma compact_high_head:
  assumes "compact_loop lim (InString, k) s = Some (x # out)" and "128 \<le> (of_char x :: nat)"
  obtains s' where "s = x # s'" and "compact_loop lim (InString, k) s' = Some out"
proof (cases s)
  case Nil
  with assms(1) show thesis by (simp add: value_end_def num_ends_def)
next
  case (Cons c s')
  have slash: "x \<noteq> CHR 0x5C" using assms(2) by auto
  obtain st' where st': "json_step lim (InString, k) c = Some st'"
    using assms(1) Cons by (cases "json_step lim (InString, k) c") auto
  have "c = x" "compact_loop lim st' s' = Some out"
    using assms(1) Cons st' slash by (auto simp: unicode_escape_def split: if_splits)
  moreover have "st' = (InString, k)" using st' assms(2) \<open>c = x\<close> by (auto simp: json_step_def split: if_splits)
  ultimately show thesis using Cons that by simp
qed

lemma compact_separator_kept:
  assumes "compact_loop lim (InString, k) s = Some out" and "line_separator (take 3 (c # out))"
  shows "line_separator (take 3 (c # s))"
proof -
  obtain a b out' where out: "out = a # b # out'" "128 \<le> (of_char a :: nat)" "128 \<le> (of_char b :: nat)"
    using assms(2) by (cases out; cases "tl out") (auto simp: line_separator_def)
  obtain s1 where "s = a # s1" "compact_loop lim (InString, k) s1 = Some (b # out')"
    using compact_high_head [of lim k s a "b # out'"] assms(1) out(1,2) by auto
  moreover from this(2) obtain s2 where "s1 = b # s2" using compact_high_head [of lim k s1 b out'] out(3) by auto
  ultimately show ?thesis using assms(2) out(1) by simp
qed

lemma compact_loop_again:
  assumes "compact_loop lim st s = Some out" and "proper_literal (fst st)"
    and "st' = st \<or> num_ends (fst st') \<and> fst st = EndValue \<and> snd st' = snd st"
  shows "(\<exists>e. value_run lim st' out = Some e \<and> value_end e) \<and> compact_loop lim st' out = Some out"
  using assms
proof (induction lim st s arbitrary: st' out rule: compact_loop.induct)
  case (1 lim st)
  then show ?case by (cases st') (auto simp: value_end_def split: if_splits)
next
  case (2 lim st c s)
  show ?case
  proof (cases "value_done st c")
    case True
    with 2(5,7) show ?thesis by (cases st') (auto simp: value_done_def value_end_def split: if_splits)
  next
    case no: False
    obtain m k where st: "st = (m, k)" by (cases st)
    obtain m1 k1 where step: "json_step lim (m, k) c = Some (m1, k1)"
      using 2(5) no st by (cases "json_step lim (m, k) c") auto
    have proper: "proper_literal m1" "proper_literal m" using proper_literal_step [OF step] 2(6) st by auto
    let ?html = "c \<in> {CHR ''<'', CHR ''>'', CHR ''&''}" and ?sep = "c = CHR 0xE2 \<and> line_separator (take 3 (c # s))"
    have escaped: "?thesis" if "out = unicode_escape n @ out1" "n < 65536" "m = InString" "(m1, k1) = (InString, k)"
      "(\<exists>e. value_run lim (m1, k1) out1 = Some e \<and> value_end e) \<and> compact_loop lim (m1, k1) out1 = Some out1" for n out1
    proof -
      have "st' = (InString, k)" using 2(7) that(3) st by auto
      then show ?thesis
        using that by (simp add: value_run_unicode_escape compact_unicode_escape del: compact_loop.simps(2))
    qed
    consider (html) ?html | (sep) "\<not> ?html" ?sep | (space) "\<not> ?html" "\<not> ?sep" "json_space c \<and> m \<noteq> InString"
      | (keep) "\<not> ?html" "\<not> ?sep" "\<not> (json_space c \<and> m \<noteq> InString)" by blast
    then show ?thesis
    proof cases
      case html
      then have inside: "m = InString" "(m1, k1) = (InString, k)" using html_step [OF step proper(2)] by auto
      obtain out1 where "compact_loop lim (m1, k1) s = Some out1" "out = unicode_escape (of_char c) @ out1"
        using 2(5) no step st html by (auto split: if_splits)
      moreover have "(of_char c :: nat) < 65536" using html by auto
      ultimately show ?thesis
        using 2(1) [OF no _ html, of "(m1, k1)" out1 "(m1, k1)"] step st proper(1)
        by (intro escaped [OF _ _ inside]) auto
    next
      case sep
      then have inside: "m = InString" "(m1, k1) = (InString, k)" using html_step [OF step proper(2)] by auto
      obtain out1 where "compact_loop lim (m1, k1) (drop 2 s) = Some out1" "out = unicode_escape (8192 + 32 + of_char (s ! 1) mod 16) @ out1"
        using 2(5) no step st sep by (auto split: if_splits)
      moreover have "8192 + 32 + of_char (s ! 1) mod 16 < (65536 :: nat)"
        using mod_less_divisor [of 16 "of_char (s ! 1)"] by linarith
      ultimately show ?thesis
        using 2(2) [OF no _ sep, of "(m1, k1)" out1 "(m1, k1)"] step st proper(1)
        by (intro escaped [OF _ _ inside]) auto
    next
      case space
      then have "compact_loop lim (m1, k1) s = Some out" using 2(5) no step st by (auto split: if_splits)
      moreover have "k1 = k" "m1 = m \<or> num_ends m \<and> m1 = EndValue" using space_step [OF step proper(2)] space by auto
      ultimately show ?thesis
        using 2(3) [OF no _ space(1,2), of "(m1, k1)" out st'] step st proper(1) space 2(7) by auto
    next
      case keep
      then obtain out1 where out1: "compact_loop lim (m1, k1) s = Some out1" "out = c # out1"
        using 2(5) no step st by (auto split: if_splits)
      have rest: "(\<exists>e. value_run lim (m1, k1) out1 = Some e \<and> value_end e) \<and> compact_loop lim (m1, k1) out1 = Some out1"
        using 2(4) [OF no _ keep(1,2), of "(m1, k1)" out1 "(m1, k1)"] keep step st proper(1) out1(1) by auto
      have here: "json_step lim st' c = Some (m1, k1) \<and> \<not> value_done st' c \<and> (json_space c \<longrightarrow> fst st' = InString)"
      proof (cases "st' = st")
        case True
        then show ?thesis using step no keep st by simp
      next
        case False
        then obtain m' where m: "st' = (m', k)" "num_ends m'" "m = EndValue" using 2(7) st by (cases st') auto
        with keep have "\<not> json_space c" by auto
        with open_number_step [of _ k c _ m'] step m show ?thesis by (auto simp: value_done_def)
      qed
      have "c = CHR 0xE2 \<longrightarrow> \<not> line_separator (take 3 (c # out1))"
      proof (intro impI notI)
        assume c: "c = CHR 0xE2" "line_separator (take 3 (c # out1))"
        then have "(m1, k1) = (InString, k)" using html_step [OF step proper(2)] by auto
        with compact_separator_kept [of lim k s out1 c] out1(1) c keep(2) show False by auto
      qed
      with rest here keep(1) out1(2) show ?thesis by auto
    qed
  qed
qed

lemma compact_head: "compact_loop lim (BeginValue, k) s = Some out \<Longrightarrow> out \<noteq> [] \<and> \<not> json_space (hd out)"
proof (induction s arbitrary: out)
  case Nil
  then show ?case by (simp add: value_end_def num_ends_def split: if_splits)
next
  case (Cons c s)
  show ?case
  proof (cases "json_space c")
    case True
    then have "json_step lim (BeginValue, k) c = Some (BeginValue, k)" "c \<notin> {CHR ''<'', CHR ''>'', CHR ''&'', CHR 0xE2}"
      by (auto simp: json_step_def json_space_def)
    with Cons True show ?thesis by auto
  next
    case False
    obtain st where st: "json_step lim (BeginValue, k) c = Some st"
      using Cons.prems by (cases "json_step lim (BeginValue, k) c") auto
    with html_step [of lim BeginValue k c st] have "c \<notin> {CHR ''<'', CHR ''>'', CHR ''&'', CHR 0xE2}"
      by (auto simp: proper_literal_def)
    with Cons.prems False st show ?thesis by auto
  qed
qed

lemma compact_loop_value:
  assumes "compact_loop lim (BeginValue, []) p = Some raw"
  shows "json_value lim raw" and "compact_loop lim (BeginValue, []) raw = Some raw"
proof -
  from compact_loop_again [OF assms, of "(BeginValue, [])"] compact_head [OF assms]
  show "json_value lim raw" "compact_loop lim (BeginValue, []) raw = Some raw"
    by (auto simp: json_value_def proper_literal_def)
qed

lemma compact_value:
  assumes "compact p = Some raw"
  shows "json_value max_nesting raw" and "compact raw = Some raw"
  using compact_loop_value [of max_nesting p raw] assms by (simp_all add: compact_def)

text \<open>A value can be compacted, and is then nested no deeper than before.\<close>

lemma compact_loop_run:
  assumes "value_run n st p = Some e" and "value_end e" and "proper_literal (fst st)" and "n \<le> lim"
  shows "\<exists>out. compact_loop n st p = Some out \<and> compact_loop lim st p = Some out"
  using assms
proof (induction n st p rule: compact_loop.induct)
  case (1 n st)
  then show ?case by simp
next
  case (2 n st c s)
  obtain m k where st: "st = (m, k)" by (cases st)
  obtain m1 k1 where run: "\<not> value_done st c" "json_step n st c = Some (m1, k1)" "value_run n (m1, k1) s = Some e"
    using 2(5) by (auto split: if_splits option.splits)
  have wide: "json_step lim st c = Some (m1, k1)" by (rule json_step_mono [OF run(2) 2(8)])
  have proper: "proper_literal m" "proper_literal m1" using 2(7) proper_literal_step [of n m k c m1 k1] run(2) st by auto
  let ?html = "c \<in> {CHR ''<'', CHR ''>'', CHR ''&''}" and ?sep = "c = CHR 0xE2 \<and> line_separator (take 3 (c # s))"
  consider (html) ?html | (sep) "\<not> ?html" ?sep | (space) "\<not> ?html" "\<not> ?sep" "json_space c \<and> fst st \<noteq> InString"
    | (keep) "\<not> ?html" "\<not> ?sep" "\<not> (json_space c \<and> fst st \<noteq> InString)" by blast
  then show ?case
  proof cases
    case html
    with 2(1) [OF run(1,2) html run(3) 2(6) _ 2(8)] proper(2) run(1,2) wide show ?thesis by auto
  next
    case sep
    then have inside: "(m1, k1) = (InString, k)" using html_step [of n m k c "(m1, k1)"] run(2) st proper(1) by auto
    from sep(2) obtain a b s2 where s: "s = a # b # s2" "a = CHR 0x80" "b = CHR 0xA8 \<or> b = CHR 0xA9"
      by (cases s; cases "tl s") (auto simp: line_separator_def)
    then have "value_run n (InString, k) ([a, b] @ s2) = value_run n (InString, k) s2" by (intro value_run_plain) auto
    then have "value_run n (m1, k1) (drop 2 s) = Some e" using run(3) inside s(1) by simp
    with 2(2) [OF run(1,2) sep _ 2(6) _ 2(8)] proper(2) run(1,2) wide sep show ?thesis by auto
  next
    case space
    with 2(3) [OF run(1,2) space run(3) 2(6) _ 2(8)] proper(2) run(1,2) wide show ?thesis by auto
  next
    case keep
    with 2(4) [OF run(1,2) keep run(3) 2(6) _ 2(8)] proper(2) run(1,2) wide show ?thesis by auto
  qed
qed

lemma compact_nested:
  assumes "json_value n p" and "n \<le> max_nesting"
  obtains raw where "compact p = Some raw" and "json_value n raw"
proof -
  obtain e where "value_run n (BeginValue, []) p = Some e" "value_end e" using assms(1) by (auto simp: json_value_def split: option.splits)
  from compact_loop_run [OF this _ assms(2)] obtain raw where "compact_loop n (BeginValue, []) p = Some raw" "compact p = Some raw"
    by (auto simp: proper_literal_def compact_def)
  with compact_loop_value(1) show thesis by (intro that)
qed

end
