(* ===== verification/Go_Json_Struct.thy ===== *)
theory Go_Json_Struct
  imports Go_Json
begin

text \<open>
  How \<^verbatim>\<open>encoding/json\<close> writes and reads structs: base64 for byte slices, the members of an object, the fields they
  are stored in, and the decoding of the first value of a stream and of a whole text. The lemmas show that a struct that is
  written as an object is read back.
\<close>

section \<open>Base64\<close>

text \<open>\<^verbatim>\<open>encoding/json\<close> writes a byte slice as a string in standard base64 with padding.\<close>

definition base64_char :: "nat \<Rightarrow> char" where
  "base64_char n =
     (if n < 26 then char_of (65 + n) else if n < 52 then char_of (71 + n) else if n < 62 then char_of (n - 4)
      else if n = 62 then CHR ''+'' else CHR ''/'')"

definition base64_val :: "char \<Rightarrow> nat option" where
  "base64_val c =
     (let n = (of_char c :: nat) in
      if 65 \<le> n \<and> n \<le> 90 then Some (n - 65) else if 97 \<le> n \<and> n \<le> 122 then Some (n - 71)
      else if 48 \<le> n \<and> n \<le> 57 then Some (n + 4) else if c = CHR ''+'' then Some 62 else if c = CHR ''/'' then Some 63 else None)"

fun base64_encode :: "nat list \<Rightarrow> string" where
  "base64_encode [] = []"
| "base64_encode [a] = [base64_char (a div 4), base64_char (a mod 4 * 16), CHR ''='', CHR ''='']"
| "base64_encode [a, b] = [base64_char (a div 4), base64_char (a mod 4 * 16 + b div 16), base64_char (b mod 16 * 4), CHR ''='']"
| "base64_encode (a # b # c # r) =
     [base64_char (a div 4), base64_char (a mod 4 * 16 + b div 16), base64_char (b mod 16 * 4 + c div 64), base64_char (c mod 64)] @
     base64_encode r"

text \<open>Line breaks are skipped before; the unused bits of the last character may be anything.\<close>

fun base64_groups :: "string \<Rightarrow> nat list option" where
  "base64_groups [] = Some []"
| "base64_groups (a # b # c # d # r) =
     (case (base64_val a, base64_val b) of
        (Some w, Some x) \<Rightarrow>
          if c = CHR ''='' then (if d = CHR ''='' \<and> r = [] then Some [w * 4 + x div 16] else None)
          else (case base64_val c of
              None \<Rightarrow> None
            | Some y \<Rightarrow>
                if d = CHR ''='' then (if r = [] then Some [w * 4 + x div 16, x mod 16 * 16 + y div 4] else None)
                else (case base64_val d of
                    None \<Rightarrow> None
                  | Some z \<Rightarrow> map_option ((@) [w * 4 + x div 16, x mod 16 * 16 + y div 4, y mod 4 * 64 + z]) (base64_groups r)))
      | _ \<Rightarrow> None)"
| "base64_groups _ = None"

definition base64_decode :: "string \<Rightarrow> nat list option" where
  "base64_decode s = base64_groups (filter (\<lambda>c. c \<noteq> CHR 0x0A \<and> c \<noteq> CHR 0x0D) s)"

lemma base64_char_range: "n < 64 \<Longrightarrow> of_char (base64_char n) \<in> {43, 47} \<union> {48..57} \<union> {65..90} \<union> {97..122 :: nat}"
  by (auto simp: base64_char_def take_bit_nat_eq_self)

lemma base64_val_char [simp]: "n < 64 \<Longrightarrow> base64_val (base64_char n) = Some n"
  by (auto simp: base64_char_def base64_val_def Let_def take_bit_nat_eq_self)

lemma base64_char_plain: "n < 64 \<Longrightarrow> base64_char n \<notin> {CHR ''='', CHR 0x0A, CHR 0x0D, CHR 0x22, CHR 0x5C, CHR ''<'', CHR ''>'', CHR ''&''} \<and>
    32 \<le> (of_char (base64_char n) :: nat) \<and> (of_char (base64_char n) :: nat) < 128"
  using base64_char_range [of n] by auto

lemma base64_quads:
  fixes a b c :: nat
  assumes "a < 256" and "b < 256" and "c < 256"
  shows "a div 4 < 64" and "a mod 4 * 16 + b div 16 < 64" and "b mod 16 * 4 + c div 64 < 64" and "c mod 64 < 64"
    and "a mod 4 * 16 < 64" and "b mod 16 * 4 < 64"
    and "a div 4 * 4 + (a mod 4 * 16 + b div 16) div 16 = a"
    and "(a mod 4 * 16 + b div 16) mod 16 * 16 + (b mod 16 * 4 + c div 64) div 4 = b"
    and "(b mod 16 * 4 + c div 64) mod 4 * 64 + c mod 64 = c"
    and "(a mod 4 * 16 + b div 16) mod 16 * 16 + b mod 16 * 4 div 4 = b"
    and "a div 4 * 4 + a mod 4 * 16 div 16 = a"
proof -
  have small: "a mod 4 < 4" "b div 16 < 16" "b mod 16 < 16" "c div 64 < 4" using assms by auto
  show "a div 4 < 64" "c mod 64 < 64" using assms by auto
  show "a mod 4 * 16 + b div 16 < 64" "b mod 16 * 4 + c div 64 < 64" "a mod 4 * 16 < 64" "b mod 16 * 4 < 64"
    using small by linarith+
  have parts: "(a mod 4 * 16 + b div 16) div 16 = a mod 4" "(a mod 4 * 16 + b div 16) mod 16 = b div 16"
    "(b mod 16 * 4 + c div 64) div 4 = b mod 16" "(b mod 16 * 4 + c div 64) mod 4 = c div 64"
    using small by (simp_all add: mod_mult_self3)
  show "a div 4 * 4 + (a mod 4 * 16 + b div 16) div 16 = a" unfolding parts by simp
  show "(a mod 4 * 16 + b div 16) mod 16 * 16 + (b mod 16 * 4 + c div 64) div 4 = b" unfolding parts by simp
  show "(b mod 16 * 4 + c div 64) mod 4 * 64 + c mod 64 = c" unfolding parts by simp
  show "(a mod 4 * 16 + b div 16) mod 16 * 16 + b mod 16 * 4 div 4 = b" unfolding parts by simp
  show "a div 4 * 4 + a mod 4 * 16 div 16 = a" by simp
qed

lemma base64_groups_encode: "\<forall>x \<in> set bs. x < 256 \<Longrightarrow> base64_groups (base64_encode bs) = Some bs"
proof (induction bs rule: base64_encode.induct)
  case (2 a)
  with base64_quads [of a 0 0] show ?case by (simp add: base64_char_plain)
next
  case (3 a b)
  with base64_quads [of a b 0] base64_char_plain [of "b mod 16 * 4"] show ?case by simp
next
  case (4 a b c r)
  with base64_quads [of a b c] base64_char_plain [of "b mod 16 * 4 + c div 64"] base64_char_plain [of "c mod 64"]
  show ?case by simp
qed simp

lemma base64_encode_chars:
  "\<forall>x \<in> set bs. x < 256 \<Longrightarrow> set (base64_encode bs) \<subseteq> insert (CHR ''='') (base64_char ` {..<64})"
proof (induction bs rule: base64_encode.induct)
  case (2 a)
  with base64_quads(1,5) [of a 0 0] show ?case by auto
next
  case (3 a b)
  with base64_quads(1,2,6) [of a b 0] show ?case by auto
next
  case (4 a b c r)
  with base64_quads(1-4) [of a b c] show ?case by auto
qed simp

lemma base64_roundtrip:
  assumes "\<forall>x \<in> set bs. x < 256"
  shows "base64_decode (base64_encode bs) = Some bs"
proof -
  have "c \<noteq> CHR 0x0A \<and> c \<noteq> CHR 0x0D" if "c \<in> set (base64_encode bs)" for c
    using subsetD [OF base64_encode_chars [OF assms] that] base64_char_plain by auto
  then have "filter (\<lambda>c. c \<noteq> CHR 0x0A \<and> c \<noteq> CHR 0x0D) (base64_encode bs) = base64_encode bs" by simp
  then show ?thesis by (simp add: base64_decode_def base64_groups_encode [OF assms])
qed

lemma valid_utf8_ascii: "\<forall>c \<in> set s. (of_char c :: nat) < 128 \<Longrightarrow> valid_utf8 s"
  by (induction s) (simp_all add: valid_utf8.simps(2) rune_len_ascii)

lemma base64_ascii:
  assumes "\<forall>x \<in> set bs. x < 256"
  shows "valid_utf8 (base64_encode bs)"
proof (rule valid_utf8_ascii, rule ballI)
  fix c
  assume "c \<in> set (base64_encode bs)"
  then consider "c = CHR ''=''" | n where "n < 64" "c = base64_char n"
    using base64_encode_chars [OF assms] by auto
  then show "(of_char c :: nat) < 128" using base64_char_plain by cases auto
qed

section \<open>Objects and arrays\<close>

text \<open>
  The members of an object from behind its opening brace, as pairs of the key's value and the text of the member's value, and the texts of the
  elements of an array from behind its opening bracket. They are applied to texts the scanner has accepted.
\<close>

abbreviation skip_space :: "string \<Rightarrow> string" where
  "skip_space \<equiv> dropWhile json_space"

abbreviation scan_value :: "string \<Rightarrow> (string \<times> string) option" where
  "scan_value \<equiv> take_value max_nesting (BeginValue, [])"

lemma skip_space_le: "length (skip_space s) \<le> length s"
  by (rule length_dropWhile_le)

lemma scan_value_le: "scan_value s = Some (v, r) \<Longrightarrow> length r \<le> length s"
  by (auto dest: take_value_append)

text \<open>One element up to its separator, of which the first component tells whether it is the comma.\<close>

definition scan_element :: "char \<Rightarrow> string \<Rightarrow> (string \<times> bool \<times> string) option" where
  "scan_element closing s =
     (case scan_value (skip_space s) of
        None \<Rightarrow> None
      | Some (v, r) \<Rightarrow>
          (case skip_space r of
             [] \<Rightarrow> None
           | c # r' \<Rightarrow> if c = CHR '','' then Some (v, True, r') else if c = closing then Some (v, False, r') else None))"

definition scan_key :: "string \<Rightarrow> (string \<times> string) option" where
  "scan_key s =
     (case scan_value (skip_space s) of
        None \<Rightarrow> None
      | Some (lit, r) \<Rightarrow>
          (case skip_space r of [] \<Rightarrow> None | c # r' \<Rightarrow> if c = CHR '':'' then Some (json_unquote lit, r') else None))"

lemma scan_element_less: "scan_element closing s = Some (v, more, r) \<Longrightarrow> length r < length s"
  using skip_space_le [of s] skip_space_le
  by (auto simp: scan_element_def split: option.splits list.splits if_splits dest!: scan_value_le) (metis Suc_le_lessD le_trans length_Cons)+

lemma scan_key_less: "scan_key s = Some (k, r) \<Longrightarrow> length r < length s"
  using skip_space_le [of s] skip_space_le
  by (auto simp: scan_key_def split: option.splits list.splits if_splits dest!: scan_value_le) (metis Suc_le_lessD le_trans length_Cons)+

function scan_members :: "string \<Rightarrow> (string \<times> string) list option" where
  "scan_members s =
     (if HasPrefix (skip_space s) ''}'' then Some []
      else (case scan_key s of
          None \<Rightarrow> None
        | Some (k, r) \<Rightarrow>
            (case scan_element (CHR ''}'') r of
               None \<Rightarrow> None
             | Some (v, more, r') \<Rightarrow> if more then map_option ((#) (k, v)) (scan_members r') else Some [(k, v)])))"
  by pat_completeness auto
termination
  by (relation "measure length") (auto dest!: scan_key_less scan_element_less)

function scan_elements :: "string \<Rightarrow> string list option" where
  "scan_elements s =
     (if HasPrefix (skip_space s) '']'' then Some []
      else (case scan_element (CHR '']'') s of
          None \<Rightarrow> None
        | Some (v, more, r) \<Rightarrow> if more then map_option ((#) v) (scan_elements r) else Some [v]))"
  by pat_completeness auto
termination
  by (relation "measure length") (auto dest!: scan_element_less)

declare scan_members.simps [simp del] scan_elements.simps [simp del]

section \<open>Structs\<close>

text \<open>
  A struct's fields are their names with functions that store the text of a value. A key selects
  the field with exactly its name, else the first one that differs in case only; the folding also maps the two letters outside ASCII that fold into
  it. A member without a field is ignored, a value of the wrong type is an error of the whole decoding.
\<close>

fun fold_name :: "string \<Rightarrow> string" where
  "fold_name [] = []"
| "fold_name (c # s) =
     (if 97 \<le> (of_char c :: nat) \<and> (of_char c :: nat) \<le> 122 then char_of (of_char c - 32 :: nat) # fold_name s
      else if HasPrefix (c # s) [CHR 0xC5, CHR 0xBF] then CHR ''S'' # fold_name (drop 1 s)
      else if HasPrefix (c # s) [CHR 0xE2, CHR 0x84, CHR 0xAA] then CHR ''K'' # fold_name (drop 2 s)
      else c # fold_name s)"

type_synonym 's field = "string \<times> (string \<Rightarrow> 's \<Rightarrow> 's option)"

definition find_field :: "'s field list \<Rightarrow> string \<Rightarrow> (string \<Rightarrow> 's \<Rightarrow> 's option) option" where
  "find_field fields k =
     (case map_of fields k of
        Some store \<Rightarrow> Some store
      | None \<Rightarrow> map_option snd (find (\<lambda>f. fold_name (fst f) = fold_name k) fields))"

fun store_members :: "'s field list \<Rightarrow> (string \<times> string) list \<Rightarrow> 's \<Rightarrow> 's option" where
  "store_members fields [] st = Some st"
| "store_members fields ((k, v) # ms) st =
     (case find_field fields k of
        None \<Rightarrow> store_members fields ms st
      | Some store \<Rightarrow> (case store v st of None \<Rightarrow> None | Some st' \<Rightarrow> store_members fields ms st'))"

definition decode_struct :: "'s field list \<Rightarrow> string \<Rightarrow> 's \<Rightarrow> 's option" where
  "decode_struct fields raw st =
     (if HasPrefix raw ''{'' then
        (case scan_members (tl raw) of None \<Rightarrow> None | Some ms \<Rightarrow> store_members fields ms st)
      else if raw = ''null'' then Some st else None)"

definition set_string :: "(string \<Rightarrow> 's \<Rightarrow> 's) \<Rightarrow> string \<Rightarrow> 's \<Rightarrow> 's option" where
  "set_string update raw st =
     (if HasPrefix raw [CHR 0x22] then Some (update (json_unquote raw) st) else if raw = ''null'' then Some st else None)"

text \<open>A \<^verbatim>\<open>json.RawMessage\<close> takes the text as it is.\<close>

definition set_raw :: "(bytes \<Rightarrow> 's \<Rightarrow> 's) \<Rightarrow> string \<Rightarrow> 's \<Rightarrow> 's option" where
  "set_raw update raw st = Some (update (bytes_of_string raw) st)"

definition parse_uint :: "nat \<Rightarrow> string \<Rightarrow> nat option" where
  "parse_uint limit raw = (if raw \<noteq> [] \<and> list_all is_digit raw \<and> dec_val raw < limit then Some (dec_val raw) else None)"

definition set_int :: "(int \<Rightarrow> 's \<Rightarrow> 's) \<Rightarrow> string \<Rightarrow> 's \<Rightarrow> 's option" where
  "set_int update raw st =
     (if raw = ''null'' then Some st else case atoi raw of None \<Rightarrow> None | Some i \<Rightarrow> Some (update i st))"

definition set_uint64 :: "(uint64 \<Rightarrow> 's \<Rightarrow> 's) \<Rightarrow> string \<Rightarrow> 's \<Rightarrow> 's option" where
  "set_uint64 update raw st =
     (if raw = ''null'' then Some st else case parse_uint (2 ^ 64) raw of None \<Rightarrow> None | Some n \<Rightarrow> Some (update (of_nat n) st))"

text \<open>A byte slice is a base64 string or an array of numbers; \<^verbatim>\<open>null\<close> clears it.\<close>

fun byte_elements :: "string list \<Rightarrow> nat list option" where
  "byte_elements [] = Some []"
| "byte_elements (v # vs) =
     (case (if v = ''null'' then Some 0 else parse_uint 256 v) of
        None \<Rightarrow> None
      | Some n \<Rightarrow> map_option ((#) n) (byte_elements vs))"

definition set_bytes :: "(bytes \<Rightarrow> 's \<Rightarrow> 's) \<Rightarrow> string \<Rightarrow> 's \<Rightarrow> 's option" where
  "set_bytes update raw st =
     (if raw = ''null'' then Some (update [] st)
      else (case (if HasPrefix raw [CHR 0x22] then base64_decode (json_unquote raw)
                  else if HasPrefix raw ''['' then Option.bind (scan_elements (tl raw)) byte_elements else None) of
          None \<Rightarrow> None
        | Some ns \<Rightarrow> Some (update (map of_nat ns) st)))"

definition set_struct :: "'t field list \<Rightarrow> ('s \<Rightarrow> 't) \<Rightarrow> ('t \<Rightarrow> 's \<Rightarrow> 's) \<Rightarrow> string \<Rightarrow> 's \<Rightarrow> 's option" where
  "set_struct fields get update raw st = map_option (\<lambda>t. update t st) (decode_struct fields raw (get st))"

text \<open>
  \<^verbatim>\<open>Decoder.Decode\<close> reads the first value of a stream, \<^verbatim>\<open>json.Unmarshal\<close> a whole text; both start from a zero struct here.
\<close>

definition json_Decode :: "'s field list \<Rightarrow> 's \<Rightarrow> string \<Rightarrow> 's option" where
  "json_Decode fields zero s = (case scan_value (skip_space s) of None \<Rightarrow> None | Some (v, _) \<Rightarrow> decode_struct fields v zero)"

definition json_Unmarshal :: "'s field list \<Rightarrow> 's \<Rightarrow> string \<Rightarrow> 's option" where
  "json_Unmarshal fields zero s =
     (case scan_value (skip_space s) of
        None \<Rightarrow> None
      | Some (v, rest) \<Rightarrow> if list_all json_space rest then decode_struct fields v zero else None)"

text \<open>An object as the encoder writes it: the fields in order, no white space.\<close>

definition json_member :: "string \<times> string \<Rightarrow> string" where
  "json_member kv = json_quote (fst kv) @ '':'' @ snd kv"

definition json_object :: "(string \<times> string) list \<Rightarrow> string" where
  "json_object ms = ''{'' @ Join (map json_member ms) '','' @ ''}''"

definition json_array :: "string list \<Rightarrow> string" where
  "json_array vs = ''['' @ Join vs '','' @ '']''"

subsection \<open>Reading what was written\<close>

lemma json_value_mono:
  assumes "json_value lim v" and "lim \<le> lim'"
  shows "json_value lim' v"
proof -
  obtain st where st: "value_run lim (BeginValue, []) v = Some st" "value_end st" "v \<noteq> []" "\<not> json_space (hd v)"
    using assms(1) by (auto simp: json_value_def split: option.splits)
  from value_run_mono [OF st(1) assms(2)] st(2-) show ?thesis by (simp add: json_value_def)
qed

lemma skip_space_value: "json_value lim v \<Longrightarrow> skip_space (v @ t) = v @ t"
  by (cases v) (auto simp: json_value_def)

lemma scan_value_value:
  assumes "json_value max_nesting v" and "t = [] \<or> delimiter (hd t)"
  shows "scan_value (skip_space (v @ t)) = Some (v, t)"
  unfolding skip_space_value [OF assms(1)] by (rule json_value_take [OF assms])

lemma delimiter_simps [simp]: "delimiter (CHR '','')" "delimiter (CHR ''}'')" "delimiter (CHR '']'')" "delimiter (CHR 0x0A)"
  by (simp_all add: delimiter_def)

lemma json_space_simps [simp]: "\<not> json_space (CHR '','')" "\<not> json_space (CHR ''}'')" "\<not> json_space (CHR '']'')" "\<not> json_space (CHR '':'')"
  "\<not> json_space (CHR ''{'')" "\<not> json_space (CHR ''['')" "\<not> json_space (CHR 0x22)" "json_space (CHR 0x0A)"
  by (simp_all add: json_space_def)

lemma scan_element_value:
  assumes "json_value max_nesting v" and "c = CHR '','' \<or> c = closing" and "closing \<in> {CHR ''}'', CHR '']''}"
  shows "scan_element closing (v @ c # t) = Some (v, c = CHR '','', t)"
proof -
  have "scan_value (skip_space (v @ c # t)) = Some (v, c # t)" using assms by (intro scan_value_value) auto
  then show ?thesis using assms(2,3) by (auto simp: scan_element_def)
qed

lemma scan_value_quote: "scan_value (json_quote s @ t) = Some (json_quote s, t)"
proof -
  have "value_run max_nesting (BeginValue, []) (json_quote s) = Some (EndValue, [])"
    using value_run_quote(1) [of max_nesting "[]" s "[]"] by simp
  from take_value_run [OF this] show ?thesis by (simp add: value_end_def value_done_def)
qed

lemma scan_key_quote: "valid_utf8 k \<Longrightarrow> scan_key (json_quote k @ '':'' @ t) = Some (k, t)"
  using scan_value_quote [of k "'':'' @ t"] skip_space_value [OF json_value_quote, of k "'':'' @ t"]
  by (simp add: scan_key_def)

lemma scan_members_text:
  assumes "\<forall>(k, v) \<in> set ms. valid_utf8 k \<and> json_value max_nesting v"
  shows "scan_members (Join (map json_member ms) '','' @ CHR ''}'' # t) = Some ms"
  using assms
proof (induction ms rule: induct_list012)
  case 1
  show ?case by (simp add: scan_members.simps)
next
  case (2 kv)
  then have kv: "valid_utf8 (fst kv)" "json_value max_nesting (snd kv)" by (auto simp: case_prod_unfold)
  have "\<not> HasPrefix (skip_space (json_quote (fst kv) @ '':'' @ snd kv @ CHR ''}'' # t)) ''}''"
    using skip_space_value [OF json_value_quote] by (simp add: json_quote_def)
  with scan_key_quote [OF kv(1)] scan_element_value [OF kv(2), of "CHR ''}''" "CHR ''}''"] show ?case
    by (simp add: scan_members.simps json_member_def)
next
  case (3 kv kv' ms)
  then have kv: "valid_utf8 (fst kv)" "json_value max_nesting (snd kv)" by (auto simp: case_prod_unfold)
  let ?rest = "Join (map json_member (kv' # ms)) '','' @ CHR ''}'' # t"
  have "\<not> HasPrefix (skip_space (json_quote (fst kv) @ '':'' @ snd kv @ CHR '','' # ?rest)) ''}''"
    using skip_space_value [OF json_value_quote] by (simp add: json_quote_def)
  moreover have "scan_members ?rest = Some (kv' # ms)" using 3 by (intro 3(2)) auto
  ultimately have "scan_members (json_quote (fst kv) @ '':'' @ snd kv @ CHR '','' # ?rest) = Some (kv # kv' # ms)"
    using scan_key_quote [OF kv(1)] scan_element_value [OF kv(2), of "CHR '',''" "CHR ''}''"]
    by (subst scan_members.simps) simp
  then show ?case by (simp add: json_member_def [of kv])
qed

text \<open>An object is a value, one level deeper than its members.\<close>

lemma value_run_members:
  assumes "\<forall>kv \<in> set ms. json_value lim (snd kv)" and "ms \<noteq> []" and "m = BeginKey \<or> m = BeginKeyOrEmpty" and "lim + length b < lim'"
  shows "value_run lim' (m, InKey # b) (Join (map json_member ms) '','' @ ''}'') = Some (EndValue, b)"
  using assms(1-3)
proof (induction ms arbitrary: m rule: induct_list012)
  case (2 kv)
  have key: "value_run lim' (m, InKey # b) (json_quote (fst kv) @ CHR '':'' # snd kv @ ''}'') = value_run lim' (BeginValue, InValue # b) (snd kv @ ''}'')"
    using 2(3) value_run_quote [of lim' "InKey # b"] by (auto simp: json_step_def end_value_def value_done_def)
  have "value_run lim' (BeginValue, InValue # b) (snd kv @ ''}'') = Some (EndValue, b)"
    using 2(1) assms(4) json_value_inside [of lim "snd kv" "InValue # b" lim' "CHR ''}''" "(EndValue, b)" "[]"] by (simp add: end_value_def)
  with key show ?case by (simp add: json_member_def)
next
  case (3 kv kv' ms)
  let ?rest = "Join (map json_member (kv' # ms)) '','' @ ''}''"
  have key: "value_run lim' (m, InKey # b) (json_quote (fst kv) @ CHR '':'' # snd kv @ CHR '','' # ?rest) =
      value_run lim' (BeginValue, InValue # b) (snd kv @ CHR '','' # ?rest)"
    using 3(5) value_run_quote [of lim' "InKey # b"] by (auto simp: json_step_def end_value_def value_done_def)
  have "value_run lim' (BeginValue, InValue # b) (snd kv @ CHR '','' # ?rest) = value_run lim' (BeginKey, InKey # b) ?rest"
    using 3(3) assms(4) json_value_inside [of lim "snd kv" "InValue # b" lim' "CHR '',''" "(BeginKey, InKey # b)" ?rest] by (simp add: end_value_def)
  moreover have "value_run lim' (BeginKey, InKey # b) ?rest = Some (EndValue, b)" using 3(3) by (intro 3(2)) simp_all
  ultimately show ?case using key by (simp add: json_member_def [of kv])
qed simp

lemma json_value_object:
  assumes "\<forall>kv \<in> set ms. json_value lim (snd kv)" and "lim < lim'"
  shows "json_value lim' (json_object ms)"
proof -
  have "json_step lim' (BeginValue, []) (CHR ''{'') = Some (BeginKeyOrEmpty, [InKey])"
    using assms(2) by (simp add: json_step_def begin_value_def push_def)
  moreover have "value_run lim' (BeginKeyOrEmpty, [InKey]) (Join (map json_member ms) '','' @ ''}'') = Some (EndValue, [])"
  proof (cases "ms = []")
    case True
    then show ?thesis by (simp add: json_step_def)
  next
    case False
    with value_run_members [OF assms(1) False, of BeginKeyOrEmpty "[]" lim'] assms(2) show ?thesis by simp
  qed
  ultimately show ?thesis by (simp add: json_value_def json_object_def value_end_def)
qed

lemma decode_struct_object:
  assumes "\<forall>(k, v) \<in> set ms. valid_utf8 k \<and> json_value max_nesting v"
  shows "decode_struct fields (json_object ms) st = store_members fields ms st"
  using scan_members_text [OF assms, of "[]"] by (simp add: decode_struct_def json_object_def)

lemma members_mono:
  assumes "\<forall>(k, v) \<in> set ms. valid_utf8 k \<and> json_value lim v" and "lim < max_nesting"
  shows "\<forall>(k, v) \<in> set ms. valid_utf8 k \<and> json_value max_nesting v"
  using assms(1) json_value_mono [OF _ less_imp_le [OF assms(2)]] by fastforce

lemma json_Decode_object:
  assumes "\<forall>(k, v) \<in> set ms. valid_utf8 k \<and> json_value lim v" and "lim < max_nesting" and "t = [] \<or> delimiter (hd t)"
  shows "json_Decode fields zero (json_object ms @ t) = store_members fields ms zero"
proof -
  have "json_value max_nesting (json_object ms)" using assms(1,2) by (intro json_value_object) auto
  from scan_value_value [OF this assms(3)] decode_struct_object [OF members_mono [OF assms(1,2)]] show ?thesis
    by (simp add: json_Decode_def)
qed

lemma json_Unmarshal_object:
  assumes "\<forall>(k, v) \<in> set ms. valid_utf8 k \<and> json_value lim v" and "lim < max_nesting"
  shows "json_Unmarshal fields zero (json_object ms) = store_members fields ms zero"
proof -
  have "json_value max_nesting (json_object ms)" using assms(1,2) by (intro json_value_object) auto
  from scan_value_value [OF this, of "[]"] decode_struct_object [OF members_mono [OF assms(1,2)]] show ?thesis
    by (simp add: json_Unmarshal_def)
qed

lemma set_string_quote [simp]: "valid_utf8 s \<Longrightarrow> set_string update (json_quote s) st = Some (update s st)"
  by (simp add: set_string_def) (simp add: json_quote_def)

lemma set_int_itoa [simp]: "- (2 ^ 63) \<le> i \<Longrightarrow> i < 2 ^ 63 \<Longrightarrow> set_int update (itoa i) st = Some (update i st)"
proof -
  assume "- (2 ^ 63) \<le> i" "i < 2 ^ 63"
  then have "atoi (itoa i) = Some i" by (rule atoi_itoa)
  moreover from this have "itoa i \<noteq> ''null''" by (auto simp: atoi_def is_digit_def)
  ultimately show ?thesis by (simp add: set_int_def)
qed

lemma set_uint64_itoa [simp]: "set_uint64 update (itoa (uint n)) st = Some (update n st)"
proof -
  have n: "itoa (uint n) = dec_nat (unat n)" by (simp add: itoa_def)
  have "unat n < 2 ^ 64" using unsigned_less [of n, where 'a = nat] by simp
  moreover have "dec_nat (unat n) \<noteq> ''null''"
    by (rule notI, drule arg_cong [of _ _ "list_all is_digit"]) (simp add: is_digit_def)
  ultimately show ?thesis by (simp add: set_uint64_def parse_uint_def n)
qed

lemma bytes_of_string_of_bytes [simp]: "bytes_of_string (string_of_bytes b) = b"
proof (induction b)
  case (Cons w b)
  have "unat w < 2 ^ 8" using unsigned_less [of w, where 'a = nat] by simp
  then have "unat w mod 256 = unat w" by simp
  with Cons show ?case by (simp add: bytes_of_string_def string_of_bytes_def)
qed (simp add: bytes_of_string_def string_of_bytes_def)

lemma set_bytes_base64 [simp]:
  "set_bytes update (json_quote (base64_encode (map unat b))) st = Some (update b st)"
proof -
  have "unat w < 256" for w :: "8 word" using unsigned_less [of w, where 'a = nat] by simp
  then have small: "\<forall>x \<in> set (map unat b). x < 256" by simp
  have "map (word_of_nat \<circ> unat) b = b" by (induction b) simp_all
  with base64_roundtrip [OF small] base64_ascii [OF small] show ?thesis
    by (simp add: set_bytes_def) (simp add: json_quote_def)
qed

text \<open>An object of strings as the encoder writes it is compact already, so it stays as it is inside another value.\<close>

lemma compact_colon: "compact_loop lim (EndValue, InKey # b) (CHR '':'' # t) = map_option ((#) (CHR '':'')) (compact_loop lim (BeginValue, InValue # b) t)"
  by (rule compact_keep) (simp_all add: json_step_def end_value_def value_done_def)

lemma compact_comma: "compact_loop lim (EndValue, InValue # b) (CHR '','' # t) = map_option ((#) (CHR '','')) (compact_loop lim (BeginKey, InKey # b) t)"
  by (rule compact_keep) (simp_all add: json_step_def end_value_def value_done_def)

lemma compact_close: "compact_loop lim (EndValue, [InValue]) ''}'' = Some ''}''"
  using compact_keep [of lim "(EndValue, [InValue])" "CHR ''}''" "(EndValue, [])" "[]"]
  by (simp add: json_step_def end_value_def value_done_def value_end_def)

lemma compact_member:
  assumes "m = BeginKey \<or> m = BeginKeyOrEmpty"
  shows "compact_loop lim (m, InKey # b) (json_member (k, json_quote s) @ t) =
    map_option ((@) (json_member (k, json_quote s))) (compact_loop lim (EndValue, InValue # b) t)"
proof -
  have "compact_loop lim (m, InKey # b) (json_quote k @ CHR '':'' # json_quote s @ t) =
      map_option ((@) (json_quote k)) (map_option ((#) (CHR '':'')) (map_option ((@) (json_quote s)) (compact_loop lim (EndValue, InValue # b) t)))"
    using assms by (simp add: compact_quote compact_colon del: compact_loop.simps)
  then show ?thesis by (cases "compact_loop lim (EndValue, InValue # b) t") (simp_all add: json_member_def del: compact_loop.simps)
qed

lemma compact_members:
  assumes "ms \<noteq> []" and "m = BeginKey \<or> m = BeginKeyOrEmpty"
  shows "compact_loop lim (m, [InKey]) (Join (map json_member (map (\<lambda>(k, s). (k, json_quote s)) ms)) '','' @ ''}'') =
    Some (Join (map json_member (map (\<lambda>(k, s). (k, json_quote s)) ms)) '','' @ ''}'')"
  using assms
proof (induction ms arbitrary: m rule: induct_list012)
  case (2 kv)
  then show ?case using compact_close by (cases kv) (simp add: compact_member del: compact_loop.simps)
next
  case (3 kv kv' ms)
  from 3(2) [of BeginKey] 3(4) show ?case
    by (cases kv) (simp add: compact_member compact_comma del: compact_loop.simps)
qed simp

lemma compact_string_object:
  assumes "ms \<noteq> []"
  shows "compact (json_object (map (\<lambda>(k, s). (k, json_quote s)) ms)) = Some (json_object (map (\<lambda>(k, s). (k, json_quote s)) ms))"
proof -
  have "compact_loop max_nesting (BeginValue, []) (CHR ''{'' # t) = map_option ((#) (CHR ''{'')) (compact_loop max_nesting (BeginKeyOrEmpty, [InKey]) t)" for t
    by (rule compact_keep) (simp_all add: json_step_def begin_value_def push_def max_nesting_def value_done_def num_ends_def)
  with compact_members [OF assms, of BeginKeyOrEmpty] show ?thesis
    by (simp add: compact_def json_object_def del: compact_loop.simps)
qed

end
