(* ===== verification/Wire_Format.thy ===== *)
theory Wire_Format
  imports Telemetry_Store Go_Json_Struct
begin

text \<open>
  The JSON texts of the services: publish requests, acknowledgements, replicated records, delivered messages, statistics, telemetry
  records and the list of GPUs, with the field names of the struct tags. \<open>go_json\<close> is the codec of the queue's handlers. The
  lemmas show that each text is read back as what was written, whatever well-formed UTF-8 the strings hold.
\<close>

section \<open>Messages\<close>

text \<open>The error of \<^verbatim>\<open>json.Marshal\<close> on a raw value that is not one value; its text is shortened.\<close>

definition ErrMarshalRaw :: go_error where
  "ErrMarshalRaw = Errorf ''json: error calling MarshalJSON for type json.RawMessage''"

definition marshal_raw :: "bytes \<Rightarrow> go_error + string" where
  "marshal_raw payload = (case compact (string_of_bytes payload) of None \<Rightarrow> Inl ErrMarshalRaw | Some raw \<Rightarrow> Inr raw)"

text \<open>The four structs with topic, ID, routing key and raw payload have the same JSON.\<close>

definition message_json :: "string \<Rightarrow> string \<Rightarrow> string \<Rightarrow> bytes \<Rightarrow> go_error + string" where
  "message_json topic mid key payload =
     sum_bind (marshal_raw payload) (\<lambda>raw.
       Inr (json_object [(''topic'', json_quote topic), (''id'', json_quote mid), (''routing_key'', json_quote key), (''payload'', raw)]))"

definition publish_fields :: "publishRequest field list" where
  "publish_fields =
     [(''topic'', set_string (\<lambda>s. pr_Topic_update (\<lambda>_. s))), (''id'', set_string (\<lambda>s. pr_ID_update (\<lambda>_. s))),
      (''routing_key'', set_string (\<lambda>s. pr_RoutingKey_update (\<lambda>_. s))), (''payload'', set_raw (\<lambda>b. pr_Payload_update (\<lambda>_. b)))]"

definition message_fields :: "Message field list" where
  "message_fields =
     [(''topic'', set_string (\<lambda>s. msg_Topic_update (\<lambda>_. s))), (''id'', set_string (\<lambda>s. msg_ID_update (\<lambda>_. s))),
      (''routing_key'', set_string (\<lambda>s. msg_RoutingKey_update (\<lambda>_. s))), (''payload'', set_raw (\<lambda>b. msg_Payload_update (\<lambda>_. b)))]"

definition zero_request :: publishRequest where
  "zero_request = \<lparr>pr_Topic = [], pr_ID = [], pr_RoutingKey = [], pr_Payload = []\<rparr>"

definition zero_message :: Message where
  "zero_message = \<lparr>msg_Topic = [], msg_ID = [], msg_RoutingKey = [], msg_Payload = []\<rparr>"

text \<open>The acknowledgement's only field, whose struct is the string itself.\<close>

definition ack_fields :: "string field list" where
  "ack_fields = [(''message_id'', set_string (\<lambda>s _. s))]"

definition ack_json :: "string \<Rightarrow> go_error + string" where
  "ack_json messageID = Inr (json_object [(''message_id'', json_quote messageID)])"

section \<open>Replicated records\<close>

text \<open>\<^verbatim>\<open>Record\<close> and \<^verbatim>\<open>Message\<close> have no struct tags: their field names are the Go names, and the payload is a byte slice.\<close>

definition stored_message_fields :: "Message field list" where
  "stored_message_fields =
     [(''Topic'', set_string (\<lambda>s. msg_Topic_update (\<lambda>_. s))), (''ID'', set_string (\<lambda>s. msg_ID_update (\<lambda>_. s))),
      (''RoutingKey'', set_string (\<lambda>s. msg_RoutingKey_update (\<lambda>_. s))), (''Payload'', set_bytes (\<lambda>b. msg_Payload_update (\<lambda>_. b)))]"

definition record_fields :: "Record field list" where
  "record_fields =
     [(''Offset'', set_uint64 (\<lambda>n. rec_Offset_update (\<lambda>_. n))),
      (''Message'', set_struct stored_message_fields rec_Message (\<lambda>m. rec_Message_update (\<lambda>_. m)))]"

definition replication_fields :: "(int \<times> Record) field list" where
  "replication_fields =
     [(''partition_id'', set_int (\<lambda>i (_, r). (i, r))), (''record'', set_struct record_fields snd (\<lambda>r (i, _). (i, r)))]"

definition stored_message_json :: "Message \<Rightarrow> string" where
  "stored_message_json m =
     json_object [(''Topic'', json_quote (msg_Topic m)), (''ID'', json_quote (msg_ID m)), (''RoutingKey'', json_quote (msg_RoutingKey m)),
       (''Payload'', json_quote (base64_encode (map unat (msg_Payload m))))]"

definition replication_json :: "int \<Rightarrow> Record \<Rightarrow> string" where
  "replication_json pid r =
     json_object [(''partition_id'', itoa pid), (''record'',
       json_object [(''Offset'', itoa (uint (rec_Offset r))), (''Message'', stored_message_json (rec_Message r))])]"

section \<open>Statistics\<close>

definition counters_json :: "QueueMetricsSnapshot \<Rightarrow> string" where
  "counters_json c =
     json_object [(''published'', itoa (uint (qm_Published c))), (''delivered'', itoa (uint (qm_Delivered c))),
       (''acked'', itoa (uint (qm_Acked c))), (''inflight'', itoa (uint (qm_Inflight c)))]"

definition partition_stats_json :: "RuntimePartitionStats \<Rightarrow> string" where
  "partition_stats_json p =
     json_object [(''id'', itoa (rps_ID p)), (''role'', json_quote (rps_Role p)), (''next_offset'', itoa (uint (rps_NextOffset p))),
       (''stored_messages'', itoa (uint (rps_StoredMessages p)))]"

definition consumer_partition_json :: "RuntimeConsumerPartitionStats \<Rightarrow> string" where
  "consumer_partition_json p =
     json_object [(''partition_id'', itoa (cps_PartitionID p)), (''next_offset'', itoa (uint (cps_NextOffset p))),
       (''inflight'', if cps_Inflight p then ''true'' else ''false'')]"

definition consumer_stats_json :: "RuntimeConsumerStats \<Rightarrow> string" where
  "consumer_stats_json c =
     json_object [(''topic'', json_quote (rcs_Topic c)), (''group'', json_quote (rcs_Group c)),
       (''partitions'', json_array (map consumer_partition_json (rcs_Partitions c)))]"

definition replication_stats_json :: "ReplicationMetrics \<Rightarrow> string" where
  "replication_stats_json m =
     json_object [(''Attempts'', itoa (uint (rm_Attempts m))), (''Successes'', itoa (uint (rm_Successes m))),
       (''Failures'', itoa (uint (rm_Failures m))), (''QuorumFailures'', itoa (uint (rm_QuorumFailures m)))]"

definition stats_json :: "RuntimeStats \<Rightarrow> ReplicationMetrics \<Rightarrow> string" where
  "stats_json stats m =
     json_object [(''counters'', counters_json (rs_Counters stats)),
       (''partitions'', json_array (map partition_stats_json (rs_Partitions stats))),
       (''consumers'', json_array (map consumer_stats_json (rs_Consumers stats))), (''replication'', replication_stats_json m)]"

section \<open>The codec of the queue\<close>

definition go_json :: json where
  "go_json =
     \<lparr>js_publish = json_Decode publish_fields zero_request, js_ack = json_Decode ack_fields [],
      js_replication = json_Decode replication_fields (0, \<lparr>rec_Offset = 0, rec_Message = zero_message\<rparr>),
      js_of_publish = (\<lambda>q. message_json (pr_Topic q) (pr_ID q) (pr_RoutingKey q) (pr_Payload q)),
      js_of_replication = (\<lambda>pid r. Inr (replication_json pid r)),
      js_of_message = (\<lambda>m. message_json (msg_Topic m) (msg_ID m) (msg_RoutingKey m) (msg_Payload m)),
      js_of_stats = (\<lambda>stats m. Inr (stats_json stats m))\<rparr>"

text \<open>What the consuming client decodes; the error's text is shortened.\<close>

definition ErrUnmarshal :: go_error where
  "ErrUnmarshal = Errorf ''json: cannot unmarshal''"

definition unmarshal_message :: "string \<Rightarrow> go_error + Message" where
  "unmarshal_message body = (case json_Decode message_fields zero_message body of None \<Rightarrow> Inl ErrUnmarshal | Some m \<Rightarrow> Inr m)"

section \<open>Telemetry records\<close>

definition telemetry_fields :: "TelemetryRecord field list" where
  "telemetry_fields =
     [(''timestamp'', set_string (\<lambda>s. tr_Timestamp_update (\<lambda>_. s))), (''metric_name'', set_string (\<lambda>s. tr_MetricName_update (\<lambda>_. s))),
      (''gpu_id'', set_string (\<lambda>s. tr_GPUID_update (\<lambda>_. s))), (''device'', set_string (\<lambda>s. tr_Device_update (\<lambda>_. s))),
      (''uuid'', set_string (\<lambda>s. tr_UUID_update (\<lambda>_. s))), (''modelName'', set_string (\<lambda>s. tr_ModelName_update (\<lambda>_. s))),
      (''Hostname'', set_string (\<lambda>s. tr_Hostname_update (\<lambda>_. s))), (''container'', set_string (\<lambda>s. tr_Container_update (\<lambda>_. s))),
      (''pod'', set_string (\<lambda>s. tr_Pod_update (\<lambda>_. s))), (''namespace'', set_string (\<lambda>s. tr_Namespace_update (\<lambda>_. s))),
      (''value'', set_string (\<lambda>s. tr_Value_update (\<lambda>_. s))), (''labels_raw'', set_string (\<lambda>s. tr_LabelsRaw_update (\<lambda>_. s)))]"

definition telemetry_json :: "TelemetryRecord \<Rightarrow> string" where
  "telemetry_json r =
     json_object (map (\<lambda>(name, v). (name, json_quote v))
       [(''timestamp'', tr_Timestamp r), (''metric_name'', tr_MetricName r), (''gpu_id'', tr_GPUID r), (''device'', tr_Device r),
        (''uuid'', tr_UUID r), (''modelName'', tr_ModelName r), (''Hostname'', tr_Hostname r), (''container'', tr_Container r),
        (''pod'', tr_Pod r), (''namespace'', tr_Namespace r), (''value'', tr_Value r), (''labels_raw'', tr_LabelsRaw r)])"

definition marshal_telemetry :: "TelemetryRecord \<Rightarrow> go_error + bytes" where
  "marshal_telemetry r = Inr (bytes_of_string (telemetry_json r))"

definition zero_telemetry :: TelemetryRecord where
  "zero_telemetry =
     \<lparr>tr_Timestamp = [], tr_MetricName = [], tr_GPUID = [], tr_Device = [], tr_UUID = [], tr_ModelName = [], tr_Hostname = [],
      tr_Container = [], tr_Pod = [], tr_Namespace = [], tr_Value = [], tr_LabelsRaw = []\<rparr>"

definition unmarshal_telemetry :: "bytes \<Rightarrow> go_error + TelemetryRecord" where
  "unmarshal_telemetry payload =
     (case json_Unmarshal telemetry_fields zero_telemetry (string_of_bytes payload) of None \<Rightarrow> Inl ErrUnmarshal | Some r \<Rightarrow> Inr r)"

section \<open>The list of GPUs\<close>

definition gpu_json :: "GPU \<Rightarrow> string" where
  "gpu_json g =
     json_object [(''id'', json_quote (gpu_ID g)), (''gpu_id'', json_quote (gpu_GPUID g)), (''device'', json_quote (gpu_Device g)),
       (''uuid'', json_quote (gpu_UUID g)), (''modelName'', json_quote (gpu_ModelName g)), (''Hostname'', json_quote (gpu_Hostname g))]"

definition gpus_json :: "GPU list \<Rightarrow> string" where
  "gpus_json gpus = json_object [(''items'', json_array (map gpu_json gpus))]"

section \<open>Round trips\<close>

lemma field_names_utf8 [simp]: "valid_utf8 ''topic''" "valid_utf8 ''id''" "valid_utf8 ''routing_key''" "valid_utf8 ''payload''" "valid_utf8 ''message_id''"
  "valid_utf8 ''Topic''" "valid_utf8 ''ID''" "valid_utf8 ''RoutingKey''" "valid_utf8 ''Payload''" "valid_utf8 ''Offset''" "valid_utf8 ''Message''"
  "valid_utf8 ''partition_id''" "valid_utf8 ''record''" "valid_utf8 ''timestamp''" "valid_utf8 ''metric_name''" "valid_utf8 ''gpu_id''"
  "valid_utf8 ''device''" "valid_utf8 ''uuid''" "valid_utf8 ''modelName''" "valid_utf8 ''Hostname''" "valid_utf8 ''container''" "valid_utf8 ''pod''"
  "valid_utf8 ''namespace''" "valid_utf8 ''value''" "valid_utf8 ''labels_raw''"
  by (rule valid_utf8_ascii, simp)+

lemma message_json_Inr:
  "message_json topic mid key payload = Inr body \<Longrightarrow> \<exists>raw. compact (string_of_bytes payload) = Some raw \<and>
    body = json_object [(''topic'', json_quote topic), (''id'', json_quote mid), (''routing_key'', json_quote key), (''payload'', raw)]"
  by (auto simp: message_json_def marshal_raw_def sum_bind_eq_Inr split: option.splits)

lemma publish_decode:
  assumes "message_json topic mid key payload = Inr body" and "valid_utf8 topic" and "valid_utf8 mid" and "valid_utf8 key"
    and "compact (string_of_bytes payload) = Some raw" and "json_value lim raw" and "lim < max_nesting" and "t = [] \<or> delimiter (hd t)"
  shows "json_Decode publish_fields zero_request (body @ t) =
    Some \<lparr>pr_Topic = topic, pr_ID = mid, pr_RoutingKey = key, pr_Payload = bytes_of_string raw\<rparr>"
  using message_json_Inr [OF assms(1)] assms(2-8)
  by (auto simp: json_Decode_object publish_fields_def find_field_def zero_request_def set_raw_def)

lemma message_decode:
  assumes "message_json topic mid key payload = Inr body" and "valid_utf8 topic" and "valid_utf8 mid" and "valid_utf8 key"
    and "compact (string_of_bytes payload) = Some raw" and "json_value lim raw" and "lim < max_nesting" and "t = [] \<or> delimiter (hd t)"
  shows "unmarshal_message (body @ t) = Inr \<lparr>msg_Topic = topic, msg_ID = mid, msg_RoutingKey = key, msg_Payload = bytes_of_string raw\<rparr>"
  using message_json_Inr [OF assms(1)] assms(2-8)
  by (auto simp: json_Decode_object message_fields_def find_field_def zero_message_def set_raw_def unmarshal_message_def)

lemma ack_decode:
  assumes "valid_utf8 mid" and "ack_json mid = Inr body"
  shows "json_Decode ack_fields [] body = Some mid"
proof -
  have "json_Decode ack_fields [] (json_object [(''message_id'', json_quote mid)] @ []) = store_members ack_fields [(''message_id'', json_quote mid)] []"
    using assms(1) by (intro json_Decode_object [where lim = 0]) (auto simp: max_nesting_def)
  then show ?thesis using assms by (auto simp: ack_json_def ack_fields_def find_field_def)
qed

lemma stored_message_value: "json_value (Suc 0) (stored_message_json m)"
  unfolding stored_message_json_def by (rule json_value_object [where lim = 0]) auto

lemma stored_message_decode:
  assumes "valid_utf8 (msg_Topic m)" and "valid_utf8 (msg_ID m)" and "valid_utf8 (msg_RoutingKey m)"
  shows "decode_struct stored_message_fields (stored_message_json m) zero_message = Some m"
  unfolding stored_message_json_def
  by (subst decode_struct_object) (auto simp: assms stored_message_fields_def find_field_def zero_message_def)

definition utf8_message :: "Message \<Rightarrow> bool" where
  "utf8_message m \<longleftrightarrow> valid_utf8 (msg_Topic m) \<and> valid_utf8 (msg_ID m) \<and> valid_utf8 (msg_RoutingKey m)"

lemma record_value: "json_value 2 (json_object [(''Offset'', itoa (uint (rec_Offset r))), (''Message'', stored_message_json (rec_Message r))])"
  by (rule json_value_object [where lim = "Suc 0"]) (auto simp: stored_message_value)

lemma replication_roundtrip:
  assumes "utf8_message (rec_Message r)" and "- (2 ^ 63) \<le> pid" and "pid < 2 ^ 63"
  shows "json_Decode replication_fields (0, \<lparr>rec_Offset = 0, rec_Message = zero_message\<rparr>) (replication_json pid r) = Some (pid, r)"
proof -
  let ?rc = "json_object [(''Offset'', itoa (uint (rec_Offset r))), (''Message'', stored_message_json (rec_Message r))]"
  let ?zero = "\<lparr>rec_Offset = 0, rec_Message = zero_message\<rparr>"
  have "json_Decode replication_fields (0, ?zero) (json_object [(''partition_id'', itoa pid), (''record'', ?rc)] @ []) =
      store_members replication_fields [(''partition_id'', itoa pid), (''record'', ?rc)] (0, ?zero)"
    by (rule json_Decode_object [where lim = 2]) (auto simp: record_value max_nesting_def)
  moreover have "decode_struct record_fields ?rc ?zero = Some r"
    using assms(1) stored_message_decode [of "rec_Message r"] json_value_mono [OF stored_message_value, of max_nesting]
    by (subst decode_struct_object) (auto simp: record_fields_def find_field_def set_struct_def utf8_message_def max_nesting_def)
  ultimately show ?thesis
    using assms(2,3) by (simp add: replication_json_def replication_fields_def find_field_def set_struct_def)
qed

subsection \<open>Telemetry records\<close>

definition utf8_telemetry :: "TelemetryRecord \<Rightarrow> bool" where
  "utf8_telemetry r \<longleftrightarrow> list_all valid_utf8 [tr_Timestamp r, tr_MetricName r, tr_GPUID r, tr_Device r, tr_UUID r, tr_ModelName r, tr_Hostname r,
     tr_Container r, tr_Pod r, tr_Namespace r, tr_Value r, tr_LabelsRaw r]"

lemma telemetry_value: "json_value (Suc 0) (telemetry_json r)"
  unfolding telemetry_json_def by (rule json_value_object [where lim = 0]) auto

lemma telemetry_compact: "compact (telemetry_json r) = Some (telemetry_json r)"
  unfolding telemetry_json_def by (rule compact_string_object) simp

lemma telemetry_decode:
  assumes "utf8_telemetry r"
  shows "json_Unmarshal telemetry_fields zero_telemetry (telemetry_json r) = Some r"
  unfolding telemetry_json_def using assms
  by (subst json_Unmarshal_object [where lim = 0])
     (auto simp: utf8_telemetry_def telemetry_fields_def find_field_def zero_telemetry_def max_nesting_def)

end
