(* ===== verification/Queue_Spec.thy ===== *)
theory Queue_Spec
  imports Runtime
begin

text \<open>
  What a queue node promises, without files, offsets and cursors. The abstract state has the messages of every
  partition and, for every reader (a topic and a consumer group) and partition, how many messages of the topic the reader has
  acknowledged and whether it holds the next one; an index says which reader's message an
  acknowledgement settles. \<open>queue_step\<close> is the abstract system. \<open>consumers_represent\<close> relates the consumer state of \<^verbatim>\<open>runtime.go\<close> to
  it, and the lemmas show that polling, acknowledging and appending are abstract steps. The
  runs of the abstract system deliver the messages of a topic in order and each once.
\<close>

section \<open>The abstract queue\<close>

type_synonym topic_reader = "string \<times> string"

record queue_spec =
  sp_log :: "int \<Rightarrow> Message list"
  sp_done :: "topic_reader \<Rightarrow> int \<Rightarrow> nat"
  sp_lent :: "topic_reader \<Rightarrow> int \<Rightarrow> bool"
  sp_index :: "string \<rightharpoonup> topic_reader \<times> int"

datatype queue_event =
    Appended int Message
  | Delivered topic_reader int Message
  | NothingDue topic_reader
  | Acknowledged topic_reader int string
  | NotInFlight string
  | NoEffect

definition topic_log :: "queue_spec \<Rightarrow> string \<Rightarrow> int \<Rightarrow> Message list" where
  "topic_log a topic p = filter (\<lambda>m. msg_Topic m = topic) (sp_log a p)"

definition due :: "queue_spec \<Rightarrow> topic_reader \<Rightarrow> int \<Rightarrow> bool" where
  "due a r p \<longleftrightarrow> \<not> sp_lent a r p \<and> sp_done a r p < length (topic_log a (fst r) p)"

definition append_log :: "queue_spec \<Rightarrow> int \<Rightarrow> Message \<Rightarrow> queue_spec" where
  "append_log a p m = a\<lparr>sp_log := (sp_log a)(p := sp_log a p @ [m])\<rparr>"

definition lend :: "queue_spec \<Rightarrow> topic_reader \<Rightarrow> int \<Rightarrow> string \<Rightarrow> queue_spec" where
  "lend a r p mid = a\<lparr>sp_lent := (sp_lent a)(r := (sp_lent a r)(p := True)), sp_index := (sp_index a)(mid \<mapsto> (r, p))\<rparr>"

definition settle :: "queue_spec \<Rightarrow> topic_reader \<Rightarrow> int \<Rightarrow> string \<Rightarrow> queue_spec" where
  "settle a r p mid = a\<lparr>sp_done := (sp_done a)(r := (sp_done a r)(p := Suc (sp_done a r p))),
     sp_lent := (sp_lent a)(r := (sp_lent a r)(p := False)), sp_index := (sp_index a)(mid := None)\<rparr>"

inductive queue_step :: "int list \<Rightarrow> queue_spec \<Rightarrow> queue_event \<Rightarrow> queue_spec \<Rightarrow> bool" for led where
  appended: "queue_step led a (Appended p m) (append_log a p m)"
| delivered: "find (due a r) led = Some p \<Longrightarrow> m = topic_log a (fst r) p ! sp_done a r p \<Longrightarrow>
    queue_step led a (Delivered r p m) (lend a r p (msg_ID m))"
| nothing_due: "find (due a r) led = None \<Longrightarrow> queue_step led a (NothingDue r) a"
| acknowledged: "sp_index a mid = Some (r, p) \<Longrightarrow> queue_step led a (Acknowledged r p mid) (settle a r p mid)"
| not_in_flight: "sp_index a mid = None \<Longrightarrow> queue_step led a (NotInFlight mid) a"
| no_effect: "queue_step led a NoEffect a"

inductive_cases queue_stepE: "queue_step led a e b"

section \<open>Runs of the abstract queue\<close>

text \<open>The messages a run delivers to a reader from a partition.\<close>

fun received :: "topic_reader \<Rightarrow> int \<Rightarrow> queue_event list \<Rightarrow> Message list" where
  "received r p [] = []"
| "received r p (Delivered r' p' m # es) = (if r' = r \<and> p' = p then m # received r p es else received r p es)"
| "received r p (_ # es) = received r p es"

text \<open>The messages a run appends to a partition.\<close>

fun appended_to :: "int \<Rightarrow> queue_event list \<Rightarrow> Message list" where
  "appended_to p [] = []"
| "appended_to p (Appended p' m # es) = (if p' = p then m # appended_to p es else appended_to p es)"
| "appended_to p (_ # es) = appended_to p es"

text \<open>How far a reader has got: what it has acknowledged and the message it holds.\<close>

definition position :: "queue_spec \<Rightarrow> topic_reader \<Rightarrow> int \<Rightarrow> nat" where
  "position a r p = sp_done a r p + of_bool (sp_lent a r p)"

text \<open>Whatever the index points to is held, and nobody holds a message that is not there.\<close>

definition index_lent :: "queue_spec \<Rightarrow> bool" where
  "index_lent a \<longleftrightarrow> (\<forall>mid r p. sp_index a mid = Some (r, p) \<longrightarrow> sp_lent a r p) \<and>
     (\<forall>mid mid' r p. sp_index a mid = Some (r, p) \<longrightarrow> sp_index a mid' = Some (r, p) \<longrightarrow> mid = mid') \<and>
     (\<forall>r p. position a r p \<le> length (topic_log a (fst r) p))"

lemma index_lentI:
  assumes "\<And>mid r p. sp_index a mid = Some (r, p) \<Longrightarrow> sp_lent a r p"
    and "\<And>mid mid' r p. sp_index a mid = Some (r, p) \<Longrightarrow> sp_index a mid' = Some (r, p) \<Longrightarrow> mid = mid'"
    and "\<And>r p. position a r p \<le> length (topic_log a (fst r) p)"
  shows "index_lent a"
  using assms unfolding index_lent_def by blast

lemma index_lentD:
  assumes "index_lent a"
  shows "sp_index a mid = Some (r, p) \<Longrightarrow> sp_lent a r p"
    and "sp_index a mid = Some (r, p) \<Longrightarrow> sp_index a mid' = Some (r, p) \<Longrightarrow> mid = mid'"
    and "position a r p \<le> length (topic_log a (fst r) p)"
  using assms unfolding index_lent_def by blast+

lemma spec_simps [simp]:
  "sp_log (append_log a p m) q = sp_log a q @ (if q = p then [m] else [])"
  "sp_log (lend a r p mid) = sp_log a" "sp_log (settle a r p mid) = sp_log a"
  "sp_done (append_log a p m) = sp_done a" "sp_done (lend a r p mid) = sp_done a"
  "sp_done (settle a r p mid) r' q = sp_done a r' q + of_bool (r' = r \<and> q = p)"
  "sp_lent (append_log a p m) = sp_lent a"
  "sp_lent (lend a r p mid) r' q \<longleftrightarrow> r' = r \<and> q = p \<or> sp_lent a r' q"
  "sp_lent (settle a r p mid) r' q \<longleftrightarrow> \<not> (r' = r \<and> q = p) \<and> sp_lent a r' q"
  "sp_index (append_log a p m) = sp_index a"
  "sp_index (lend a r p mid) mid' = (if mid' = mid then Some (r, p) else sp_index a mid')"
  "sp_index (settle a r p mid) mid' = (if mid' = mid then None else sp_index a mid')"
  by (simp_all add: append_log_def lend_def settle_def)

lemma topic_log_simps [simp]:
  "topic_log (append_log a p m) t q = topic_log a t q @ (if q = p \<and> msg_Topic m = t then [m] else [])"
  "topic_log (lend a r p mid) t q = topic_log a t q" "topic_log (settle a r p mid) t q = topic_log a t q"
  by (simp_all add: topic_log_def)

lemma position_simps [simp]:
  "position (append_log a p m) r q = position a r q"
  "\<not> sp_lent a r' p \<Longrightarrow> position (lend a r' p mid) r q = position a r q + of_bool (r = r' \<and> q = p)"
  "sp_lent a r' p \<Longrightarrow> position (settle a r' p mid) r q = position a r q"
  by (auto simp: position_def)

lemma index_lent_append:
  assumes "index_lent a"
  shows "index_lent (append_log a p m)"
proof (rule index_lentI)
  show "position (append_log a p m) r q \<le> length (topic_log (append_log a p m) (fst r) q)" for r q
    using index_lentD(3) [OF assms, of r q] by simp
qed (use index_lentD(1,2) [OF assms] in simp_all)

lemma find_due: "find (due a r) led = Some p \<Longrightarrow> p \<in> set led \<and> due a r p"
  by (auto simp: find_Some_iff)

lemma due_position: "due a r p \<Longrightarrow> \<not> sp_lent a r p \<and> position a r p = sp_done a r p \<and> position a r p < length (topic_log a (fst r) p)"
  by (simp add: due_def position_def)

lemma index_lent_lend:
  assumes "index_lent a" and "due a r p"
  shows "index_lent (lend a r p mid)"
proof (rule index_lentI)
  show "position (lend a r p mid) r' q \<le> length (topic_log (lend a r p mid) (fst r') q)" for r' q
    using index_lentD(3) [OF assms(1), of r' q] due_position [OF assms(2)] by (cases "r' = r \<and> q = p") auto
qed (use due_position [OF assms(2)] index_lentD(1,2) [OF assms(1)] in \<open>auto split: if_splits\<close>)

lemma index_lent_settle:
  assumes "index_lent a" and "sp_index a mid = Some (r, p)"
  shows "index_lent (settle a r p mid)"
  using index_lentD [OF assms(1)] index_lentD(1,2) [OF assms] 
  by (intro index_lentI) (auto split: if_splits)

text \<open>One step: the log only grows, and a delivery is the message at the reader's position.\<close>

lemma queue_step_inv: "queue_step led a e b \<Longrightarrow> index_lent a \<Longrightarrow> index_lent b"
  by (erule queue_stepE) (auto simp: index_lent_append index_lent_settle index_lent_lend dest!: find_due)

lemma queue_step_log: "queue_step led a e b \<Longrightarrow> sp_log b p = sp_log a p @ appended_to p [e]"
  by (erule queue_stepE) auto

lemma queue_step_position:
  assumes "queue_step led a e b" and "index_lent a"
  shows "received r p [e] = take (length (received r p [e])) (drop (position a r p) (topic_log a (fst r) p)) \<and>
    position b r p = position a r p + length (received r p [e])"
  using assms(1)
proof (cases rule: queue_step.cases)
  case (delivered r' p' m)
  with due_position [of a r' p'] show ?thesis
    by (auto dest!: find_due simp: Cons_nth_drop_Suc [symmetric])
next
  case (acknowledged mid r' p')
  with index_lentD(1) [OF assms(2)] show ?thesis by simp
qed simp_all

lemma appended_to_Cons: "appended_to p (e # es) = appended_to p [e] @ appended_to p es"
  by (cases e) auto

lemma run_log: "spec_run (queue_step led) a es b \<Longrightarrow> sp_log b p = sp_log a p @ appended_to p es"
proof (induction rule: spec_run.induct)
  case (spec_run_Cons a e b es c)
  with queue_step_log [OF spec_run_Cons.hyps(1), of p] appended_to_Cons [of p e es] show ?case by simp
qed simp

text \<open>Along a run, a reader receives exactly the stretch of its topic's messages from its old to its new position.\<close>

lemma received_Cons: "received r p (e # es) = received r p [e] @ received r p es"
  by (cases e) auto

lemma run_received:
  assumes "spec_run (queue_step led) a es b" and "index_lent a"
  shows "received r p es = take (length (received r p es)) (drop (position a r p) (topic_log b (fst r) p)) \<and>
    position b r p = position a r p + length (received r p es) \<and> position b r p \<le> length (topic_log b (fst r) p)"
  using assms
proof (induction rule: spec_run.induct)
  case (spec_run_Nil a)
  then show ?case by (simp add: index_lentD(3))
next
  case (spec_run_Cons a e b es c)
  have b: "index_lent b" by (rule queue_step_inv [OF spec_run_Cons.hyps(1) spec_run_Cons.prems])
  obtain ms1 where ms1: "topic_log b (fst r) p = topic_log a (fst r) p @ ms1"
    using queue_step_log [OF spec_run_Cons.hyps(1), of p] by (auto simp: topic_log_def)
  obtain ms2 where ms2: "topic_log c (fst r) p = topic_log b (fst r) p @ ms2"
    using run_log [OF spec_run_Cons.hyps(2), of p] by (auto simp: topic_log_def)
  let ?n = "position a r p" and ?one = "received r p [e]"
  have one: "?one = take (length ?one) (drop ?n (topic_log a (fst r) p))" "position b r p = ?n + length ?one"
    using queue_step_position [OF spec_run_Cons.hyps(1) spec_run_Cons.prems, of r p] by simp_all
  have "length ?one \<le> length (drop ?n (topic_log a (fst r) p))" by (subst one(1)) simp
  then have "?one = take (length ?one) (drop ?n (topic_log c (fst r) p))"
    using one(1) index_lentD(3) [OF spec_run_Cons.prems, of r p] by (simp add: ms1 ms2)
  then have "take (length ?one + length (received r p es)) (drop ?n (topic_log c (fst r) p)) = ?one @ received r p es"
    using spec_run_Cons.IH [OF b] unfolding take_add drop_drop add.commute [of "length ?one" ?n] one(2) by metis
  with spec_run_Cons.IH [OF b] one(2) show ?case
    by (simp add: received_Cons [of r p e es])
qed

section \<open>The consumer state represents the abstract readers\<close>

text \<open>
  A cursor has passed as many messages of the topic as the reader has acknowledged, and a
  delivery in flight is the message of the topic at the cursor.
\<close>

definition cursor_ok :: "string \<Rightarrow> Message list \<Rightarrow> partitionConsumerState \<Rightarrow> nat \<Rightarrow> bool \<Rightarrow> bool" where
  "cursor_ok topic ms v n lent \<longleftrightarrow>
     unat (pc_nextOffset v) \<le> length ms \<and> length (filter (\<lambda>m. msg_Topic m = topic) (take (unat (pc_nextOffset v)) ms)) = n \<and>
     (lent \<longleftrightarrow> pc_inflight v \<noteq> None) \<and>
     (\<forall>d. pc_inflight v = Some d \<longrightarrow> ds_offset d = pc_nextOffset v \<and> unat (pc_nextOffset v) < length ms \<and>
        msg_Topic (ms ! unat (pc_nextOffset v)) = topic)"

text \<open>Keys of topics without a zero byte, which separates topic and group, belong to one reader.\<close>

abbreviation plain_topic :: "string \<Rightarrow> bool" where
  "plain_topic topic \<equiv> CHR 0x00 \<notin> set topic"

definition reader_of :: "deliveryState \<Rightarrow> topic_reader \<times> int" where
  "reader_of d = (splitConsumerKey (ds_groupKey d), ds_partitionID d)"

definition consumers_represent :: "int list \<Rightarrow> queue_spec \<Rightarrow> consumerState \<Rightarrow> bool" where
  "consumers_represent led a c \<longleftrightarrow> index_sound c \<and>
     (\<forall>t g p. plain_topic t \<longrightarrow> p \<in> set led \<longrightarrow>
        cursor_ok t (sp_log a p) (view c (consumerKey t g) p) (sp_done a (t, g) p) (sp_lent a (t, g) p)) \<and>
     (\<forall>mid. sp_index a mid = map_option reader_of (Mapping.lookup (cs_inflight c) mid)) \<and>
     (\<forall>mid d. Mapping.lookup (cs_inflight c) mid = Some d \<longrightarrow>
        (\<exists>t g. plain_topic t \<and> ds_groupKey d = consumerKey t g) \<and> ds_partitionID d \<in> set led)"

lemma consumers_representI:
  assumes "index_sound c"
    and "\<And>t g p. plain_topic t \<Longrightarrow> p \<in> set led \<Longrightarrow>
      cursor_ok t (sp_log a p) (view c (consumerKey t g) p) (sp_done a (t, g) p) (sp_lent a (t, g) p)"
    and "\<And>mid. sp_index a mid = map_option reader_of (Mapping.lookup (cs_inflight c) mid)"
    and "\<And>mid d. Mapping.lookup (cs_inflight c) mid = Some d \<Longrightarrow>
      (\<exists>t g. plain_topic t \<and> ds_groupKey d = consumerKey t g) \<and> ds_partitionID d \<in> set led"
  shows "consumers_represent led a c"
  using assms unfolding consumers_represent_def by blast

lemma consumers_representD:
  assumes "consumers_represent led a c"
  shows "index_sound c"
    and "plain_topic t \<Longrightarrow> p \<in> set led \<Longrightarrow>
      cursor_ok t (sp_log a p) (view c (consumerKey t g) p) (sp_done a (t, g) p) (sp_lent a (t, g) p)"
    and "sp_index a mid = map_option reader_of (Mapping.lookup (cs_inflight c) mid)"
    and "Mapping.lookup (cs_inflight c) mid = Some d \<Longrightarrow>
      (\<exists>t g. plain_topic t \<and> ds_groupKey d = consumerKey t g) \<and> ds_partitionID d \<in> set led"
  using assms unfolding consumers_represent_def by blast+

lemma consumerKey_inject:
  "plain_topic t \<Longrightarrow> plain_topic t' \<Longrightarrow> consumerKey t g = consumerKey t' g' \<longleftrightarrow> t = t' \<and> g = g'"
  by (metis splitConsumerKey_consumerKey prod.inject)

lemma consumers_represent_new:
  assumes "\<And>r p. sp_done a r p = 0" and "\<And>r p. \<not> sp_lent a r p" and "sp_index a = Map.empty"
  shows "consumers_represent led a new_consumers"
  using assms index_sound_new
  by (intro consumers_representI) (auto simp: cursor_ok_def fresh_partition_def new_consumers_def lookup_empty view_def)

text \<open>Appending a message keeps the representation.\<close>

lemma cursor_ok_append: "cursor_ok t ms v n lent \<Longrightarrow> cursor_ok t (ms @ ms') v n lent"
  by (auto simp: cursor_ok_def nth_append)

lemma consumers_represent_append: "consumers_represent led a c \<Longrightarrow> consumers_represent led (append_log a p m) c"
  using consumers_representD [of led a c] by (intro consumers_representI) (simp_all add: cursor_ok_append)

section \<open>Polling\<close>

lemma filter_topic_split: "filter P ms = filter P (take n ms) @ filter P (drop n ms)"
  by (metis append_take_drop_id filter_append)

lemma cursor_ok_due:
  assumes "cursor_ok t ms v n lent"
  shows "pending t ms v \<noteq> None \<longleftrightarrow> \<not> lent \<and> n < length (filter (\<lambda>m. msg_Topic m = t) ms)"
    and "pending t ms v = Some k \<Longrightarrow> k < length ms \<and> ms ! k = filter (\<lambda>m. msg_Topic m = t) ms ! n \<and> msg_Topic (ms ! k) = t \<and>
      length (filter (\<lambda>m. msg_Topic m = t) (take k ms)) = n"
proof -
  let ?P = "\<lambda>m. msg_Topic m = t"
  let ?o = "unat (pc_nextOffset v)"
  have split: "filter ?P ms = filter ?P (take ?o ms) @ remaining t ms v"
    by (simp add: remaining_def flip: filter_topic_split)
  show "pending t ms v \<noteq> None \<longleftrightarrow> \<not> lent \<and> n < length (filter ?P ms)"
  proof (cases "pc_inflight v")
    case None
    with assms split pending_remaining(1) [OF None, of t ms] show ?thesis by (simp add: cursor_ok_def)
  next
    case (Some d)
    with assms show ?thesis by (simp add: cursor_ok_def pending_def)
  qed
  assume k: "pending t ms v = Some k"
  then have free: "pc_inflight v = None" by (simp add: pending_def split: if_splits)
  note rem = pending_remaining(2) [OF free k]
  have topic: "?P (ms ! k)" using k by (auto simp: pending_def find_Some_iff split: if_splits)
  have "filter ?P ms = filter ?P (take k ms) @ ms ! k # filter ?P (drop (Suc k) ms)"
    using rem topic filter_topic_split [of ?P ms k] by (simp flip: Cons_nth_drop_Suc)
  with split rem have "filter ?P (take k ms) = filter ?P (take ?o ms)" by simp
  with assms topic rem split show "k < length ms \<and> ms ! k = filter ?P ms ! n \<and> ?P (ms ! k) \<and> length (filter ?P (take k ms)) = n"
    by (simp add: cursor_ok_def nth_append)
qed

lemma cursor_ok_passed:
  assumes "cursor_ok t ms v n lent" and "passed t ms v v'" and "length ms < 2 ^ 64"
  shows "cursor_ok t ms v' n lent"
  using assms pending_remaining(1) [of v t ms] filter_topic_split [of "\<lambda>m. msg_Topic m = t" ms "unat (pc_nextOffset v)"]
  by (auto simp: cursor_ok_def passed_def remaining_def unat_of_nat_small)

lemma passed_inflight: "passed t ms v v' \<Longrightarrow> pc_inflight v' = pc_inflight v"
  by (auto simp: passed_def)

lemma poll_effect_inflight:
  assumes "poll_effect rt key topic log pids r rt'"
  shows "in_flight (rt_consumers rt') g q =
    (if g = key \<and> find (\<lambda>p. pending topic (log p) (view (rt_consumers rt) key p) \<noteq> None) pids = Some q
     then Some (delivery key q (of_nat (the (pending topic (log q) (view (rt_consumers rt) key q))))
       (msg_ID (log q ! the (pending topic (log q) (view (rt_consumers rt) key q)))))
     else in_flight (rt_consumers rt) g q)"
  using assms passed_inflight [of topic "log q" "view (rt_consumers rt) key q" "view (rt_consumers rt') key q"]
  by (auto simp: poll_effect_def Let_def simp del: not_None_eq)

lemma poll_effect_index_sound:
  assumes "poll_effect rt key topic log pids r rt'" and "index_sound (rt_consumers rt)"
  shows "index_sound (rt_consumers rt')"
proof (cases "find (\<lambda>p. pending topic (log p) (view (rt_consumers rt) key p) \<noteq> None) pids")
  case None
  with assms(1) have "cs_inflight (rt_consumers rt') = cs_inflight (rt_consumers rt)"
    by (simp add: poll_effect_def)
  then show ?thesis
    by (intro index_sound_cong [OF _ _ assms(2)]) (simp_all add: poll_effect_inflight [OF assms(1)] None del: not_None_eq)
next
  case (Some p)
  then have "in_flight (rt_consumers rt) key p = None"
    by (auto simp: find_Some_iff pending_def split: if_splits)
  moreover have "cs_inflight (rt_consumers rt') = Mapping.update (msg_ID (log p ! the (pending topic (log p) (view (rt_consumers rt) key p))))
      (delivery key p (of_nat (the (pending topic (log p) (view (rt_consumers rt) key p))))
        (msg_ID (log p ! the (pending topic (log p) (view (rt_consumers rt) key p))))) (cs_inflight (rt_consumers rt))"
    using assms(1) Some by (simp add: poll_effect_def Let_def)
  ultimately show ?thesis
    using assms(2) unfolding index_sound_def poll_effect_inflight [OF assms(1)] Some
    by (auto simp: lookup_update' split: if_splits)
qed

text \<open>A poll of a node is the abstract poll.\<close>

lemma poll_represents:
  assumes "consumers_represent led a (rt_consumers rt)" and "plain_topic t"
    and "\<And>p. p \<in> set led \<Longrightarrow> length (sp_log a p) < 2 ^ 64"
    and "poll_effect rt (consumerKey t g) t (sp_log a) led r rt'"
  shows "case find (due a (t, g)) led of
      None \<Rightarrow> r = None \<and> consumers_represent led a (rt_consumers rt')
    | Some p \<Rightarrow> (let m = topic_log a t p ! sp_done a (t, g) p
        in r = Some m \<and> consumers_represent led (lend a (t, g) p (msg_ID m)) (rt_consumers rt'))"
proof -
  let ?key = "consumerKey t g" and ?c = "rt_consumers rt" and ?c' = "rt_consumers rt'"
  let ?k = "\<lambda>p. pending t (sp_log a p) (view ?c ?key p)"
  have ok: "cursor_ok t (sp_log a p) (view ?c ?key p) (sp_done a (t, g) p) (sp_lent a (t, g) p)" if "p \<in> set led" for p
    by (rule consumers_representD(2) [OF assms(1,2) that])
  have found: "find (\<lambda>p. ?k p \<noteq> None) led = find (due a (t, g)) led"
    by (rule find_cong [OF refl]) (simp only: due_def topic_log_def fst_conv cursor_ok_due(1) [OF ok])
  note sound = poll_effect_index_sound [OF assms(4) consumers_representD(1) [OF assms(1)]]
  have same: "cursor_ok t' (sp_log a p) (view ?c' (consumerKey t' g') p) (sp_done a (t', g') p) (sp_lent a (t', g') p)"
    if "plain_topic t'" "p \<in> set led" "\<not> (t' = t \<and> g' = g \<and> find (due a (t, g)) led = Some p)" for t' g' p
  proof (cases "t' = t \<and> g' = g")
    case True
    with assms(4) that(3) found have "passed t (sp_log a p) (view ?c ?key p) (view ?c' ?key p)"
      by (auto simp: poll_effect_def Let_def simp del: not_None_eq)
    with True cursor_ok_passed [OF ok [OF that(2)] this assms(3) [OF that(2)]] show ?thesis by simp
  next
    case False
    then have "consumerKey t' g' \<noteq> ?key" using consumerKey_inject [OF that(1) assms(2)] by simp
    with assms(4) have "view ?c' (consumerKey t' g') p = view ?c (consumerKey t' g') p"
      by (simp add: poll_effect_def Let_def)
    with consumers_representD(2) [OF assms(1) that(1,2)] show ?thesis by simp
  qed
  show ?thesis
  proof (cases "find (due a (t, g)) led")
    case None
    with assms(4) found have c': "cs_inflight ?c' = cs_inflight ?c" "r = None" by (simp_all add: poll_effect_def)
    have "consumers_represent led a ?c'"
      using same None consumers_representD(3,4) [OF assms(1)] by (intro consumers_representI sound) (simp_all add: c'(1))
    with None c'(2) show ?thesis by simp
  next
    case (Some p)
    then have p: "p \<in> set led" by (simp add: find_due)
    obtain k where k: "?k p = Some k" using Some cursor_ok_due(1) [OF ok [OF p]] by (auto dest!: find_due simp: due_def topic_log_def)
    note at = cursor_ok_due(2) [OF ok [OF p] k]
    let ?m = "sp_log a p ! k"
    let ?d = "delivery ?key p (of_nat k) (msg_ID ?m)"
    have m: "topic_log a t p ! sp_done a (t, g) p = ?m" using at by (simp add: topic_log_def)
    have c': "r = Some ?m" "view ?c' ?key p = \<lparr>pc_nextOffset = of_nat k, pc_inflight = Some ?d\<rparr>"
      "cs_inflight ?c' = Mapping.update (msg_ID ?m) ?d (cs_inflight ?c)"
      using assms(4) found Some k by (simp_all add: poll_effect_def Let_def)
    have kk: "unat (of_nat k :: Offset) = k"
      using at assms(3) [OF p] by (intro unat_of_nat_small) simp
    have here: "cursor_ok t (sp_log a p) (view ?c' ?key p) (sp_done a (t, g) p) True"
      using at kk unfolding cursor_ok_def c'(2) by auto
    have key: "reader_of ?d = ((t, g), p)" by (simp add: reader_of_def splitConsumerKey_consumerKey [OF assms(2)])
    have "consumers_represent led (lend a (t, g) p (msg_ID ?m)) ?c'"
    proof (rule consumers_representI [OF sound])
      show "cursor_ok t' (sp_log (lend a (t, g) p (msg_ID ?m)) q) (view ?c' (consumerKey t' g') q)
          (sp_done (lend a (t, g) p (msg_ID ?m)) (t', g') q) (sp_lent (lend a (t, g) p (msg_ID ?m)) (t', g') q)"
        if "plain_topic t'" "q \<in> set led" for t' g' q
        using same [of t' q g'] here Some that by (cases "t' = t \<and> g' = g \<and> q = p") auto
      show "sp_index (lend a (t, g) p (msg_ID ?m)) mid = map_option reader_of (Mapping.lookup (cs_inflight ?c') mid)" for mid
        using consumers_representD(3) [OF assms(1), of mid] key by (simp add: c'(3) lookup_update')
      show "(\<exists>t g. plain_topic t \<and> ds_groupKey d = consumerKey t g) \<and> ds_partitionID d \<in> set led"
        if "Mapping.lookup (cs_inflight ?c') mid = Some d" for mid d
      proof (cases "mid = msg_ID ?m")
        case True
        with that have "d = ?d" by (simp add: c'(3) lookup_update)
        with p assms(2) show ?thesis by (metis delivery_simps(2,3))
      next
        case False
        with that consumers_representD(4) [OF assms(1), of mid d] show ?thesis by (simp add: c'(3) lookup_update_neq)
      qed
    qed
    with Some c'(1) m show ?thesis by simp
  qed
qed

text \<open>An acknowledgement is the abstract one.\<close>

lemma Ack_represents:
  assumes "consumers_represent led a (rt_consumers rt)" and "\<forall>p \<in> set led. length (sp_log a p) < 2 ^ 64"
  obtains (unknown) "sp_index a mid = None" "Ack None rt mid = (rt, Some ErrMessageNotInflight)"
  | (settled) r p rt' where "sp_index a mid = Some (r, p)" "Ack None rt mid = (rt', None)"
      "rt_partition rt' = rt_partition rt" "rt_replication rt' = rt_replication rt"
      "consumers_represent led (settle a r p mid) (rt_consumers rt')"
proof (cases "Mapping.lookup (cs_inflight (rt_consumers rt)) mid")
  case None
  then show ?thesis
    using consumers_representD(3) [OF assms(1), of mid] by (intro unknown) (simp_all add: Ack_def ack_def)
next
  case (Some d)
  let ?c = "rt_consumers rt"
  note sound = consumers_representD(1) [OF assms(1)]
  obtain t g where key: "plain_topic t" "ds_groupKey d = consumerKey t g" "ds_partitionID d \<in> set led"
    using consumers_representD(4) [OF assms(1) Some] by blast
  let ?p = "ds_partitionID d"
  have index: "sp_index a mid = Some ((t, g), ?p)"
    using consumers_representD(3) [OF assms(1), of mid] Some key(1,2) by (simp add: reader_of_def splitConsumerKey_consumerKey)
  have held: "in_flight ?c (consumerKey t g) ?p = Some d" using sound Some unfolding index_sound_def key(2) [symmetric] by blast
  obtain rt' where rt': "Ack None rt mid = (rt', None)" "rt_partition rt' = rt_partition rt" "rt_replication rt' = rt_replication rt"
      "\<And>g' q. view (rt_consumers rt') g' q = (if g' = consumerKey t g \<and> q = ?p
         then \<lparr>pc_nextOffset = ds_offset d + 1, pc_inflight = None\<rparr> else view ?c g' q)"
      "cs_inflight (rt_consumers rt') = Mapping.delete mid (cs_inflight ?c)"
    using Ack_acknowledges [OF index_sound_acknowledges [OF sound Some]] key(2) by auto
  let ?ms = "sp_log a ?p" and ?o = "unat (ds_offset d)"
  have ok: "cursor_ok t ?ms (view ?c (consumerKey t g) ?p) (sp_done a (t, g) ?p) (sp_lent a (t, g) ?p)"
    by (rule consumers_representD(2) [OF assms(1) key(1,3)])
  then have o: "?o < length ?ms" "msg_Topic (?ms ! ?o) = t" "length (filter (\<lambda>m. msg_Topic m = t) (take ?o ?ms)) = sp_done a (t, g) ?p"
    using held by (auto simp: cursor_ok_def)
  have "ds_offset d + 1 = of_nat (Suc ?o)" by (simp add: add.commute)
  then have "unat (ds_offset d + 1) = Suc ?o"
    using o(1) bspec [OF assms(2) key(3)] by (simp only:) (rule unat_of_nat_small, simp)
  then have here: "cursor_ok t ?ms \<lparr>pc_nextOffset = ds_offset d + 1, pc_inflight = None\<rparr> (Suc (sp_done a (t, g) ?p)) False"
    using o by (simp add: cursor_ok_def take_Suc_conv_app_nth)
  have "index_sound (rt_consumers rt')"
    using index_sound_ack [OF sound, of mid] rt'(1) by (auto simp: Ack_def split: prod.splits option.splits)
  then have "consumers_represent led (settle a (t, g) ?p mid) (rt_consumers rt')"
  proof (rule consumers_representI)
    fix t' g' q
    assume "plain_topic t'" "q \<in> set led"
    then show "cursor_ok t' (sp_log (settle a (t, g) ?p mid) q) (view (rt_consumers rt') (consumerKey t' g') q)
        (sp_done (settle a (t, g) ?p mid) (t', g') q) (sp_lent (settle a (t, g) ?p mid) (t', g') q)"
      using here consumers_representD(2) [OF assms(1)] consumerKey_inject [OF _ key(1), of t' g' g]
      by (cases "t' = t \<and> g' = g \<and> q = ?p") (auto simp: rt'(4))
  qed (use consumers_representD(3,4) [OF assms(1)] in \<open>auto simp: rt'(5) lookup_delete_if split: if_splits\<close>)
  with index rt'(1-3) show ?thesis by (rule settled)
qed

end
