(* ===== verification/Queue_Node.thy ===== *)
theory Queue_Node
  imports Queue_Handlers Queue_Spec
begin

text \<open>
  A queue node as its clients see it: the HTTP server of \<^verbatim>\<open>newQueueMux\<close> refines the abstract queue of
  \<open>Queue_Spec\<close>. \<open>represents\<close> relates the files, offsets and cursors of a node to an abstract state, \<open>explains\<close> says which event of the
  abstract queue accounts for a response. The interpretation of the locale \<open>simulation\<close> shows that every request, valid or not, is
  answered, and that its effect is the abstract step that its answer reports.

  The disk works and clients do not disconnect (\<open>io_ok\<close>, no context error); what decoders return as a message to store has a
  payload and fits into a record (\<open>admits\<close>).
\<close>

section \<open>Requests and events\<close>

definition request_reader :: "server_request \<Rightarrow> topic_reader" where
  "request_reader r = (first_value (sr_Query r) ''topic'', first_value (sr_Query r) ''group'')"

definition admits :: "json \<Rightarrow> server_request \<Rightarrow> bool" where
  "admits js r \<longleftrightarrow> sr_ctx r = None \<and> plain_topic (first_value (sr_Query r) ''topic'') \<and>
     (case js_publish js (sr_Body r) of None \<Rightarrow> True | Some q \<Rightarrow> pr_Payload q \<noteq> [] \<longrightarrow> storable (publish_message q)) \<and>
     (case js_replication js (sr_Body r) of None \<Rightarrow> True | Some (p, rc) \<Rightarrow> storable (rec_Message rc))"

definition message_response :: "json \<Rightarrow> Message \<Rightarrow> server_response" where
  "message_response js m =
     (case js_of_message js m of
        Inl e \<Rightarrow> http_Error (Error e) 500
      | Inr body \<Rightarrow> reply_body ''application/json'' (body @ [newline]))"

definition explains :: "json \<Rightarrow> PartitionManager \<Rightarrow> server_request \<Rightarrow> server_response \<Rightarrow> queue_event \<Rightarrow> bool" where
  "explains js pm r resp e \<longleftrightarrow>
     (case e of
        Appended p m \<Rightarrow>
          sr_Path r = ''/publish'' \<and> w_Status resp = 202 \<and> (\<exists>q. js_publish js (sr_Body r) = Some q \<and> m = publish_message q) \<and>
            Route (msg_Topic m) m (pm_partitions pm) = Inr p \<and> IsLeader pm p \<or>
          sr_Path r = ''/internal/replicate'' \<and> w_Status resp = 200 \<and> (\<exists>rc. js_replication js (sr_Body r) = Some (p, rc) \<and> m = rec_Message rc)
      | Delivered rd p m \<Rightarrow> sr_Path r = ''/consume'' \<and> rd = request_reader r \<and> resp = message_response js m
      | NothingDue rd \<Rightarrow> sr_Path r = ''/consume'' \<and> rd = request_reader r \<and> resp = reply 204
      | Acknowledged rd p mid \<Rightarrow> sr_Path r = ''/ack'' \<and> js_ack js (sr_Body r) = Some mid \<and> resp = reply 204
      | NotInFlight mid \<Rightarrow> sr_Path r = ''/ack'' \<and> js_ack js (sr_Body r) = Some mid \<and> w_Status resp = 404
      | NoEffect \<Rightarrow>
          (sr_Path r = ''/publish'' \<and> w_Status resp = 202 \<longrightarrow> (\<exists>q p. js_publish js (sr_Body r) = Some q \<and>
            Route (pr_Topic q) (publish_message q) (pm_partitions pm) = Inr p \<and> \<not> IsLeader pm p)) \<and>
          (sr_Path r = ''/internal/replicate'' \<longrightarrow> w_Status resp \<noteq> 200) \<and>
          (sr_Path r = ''/consume'' \<or> sr_Path r = ''/ack'' \<longrightarrow> w_Status resp = 400 \<or> w_Status resp = 405))"

section \<open>The node represents an abstract queue\<close>

definition led_by :: "PartitionManager \<Rightarrow> int list" where
  "led_by pm = sort (map part_ID (filter (\<lambda>p. IsLeader pm (part_ID p)) (pm_partitions pm)))"

definition represents :: "PartitionManager \<Rightarrow> int list \<Rightarrow> nat \<Rightarrow> queue_spec \<Rightarrow> queue_node \<Rightarrow> bool" where
  "represents pm ids k a n \<longleftrightarrow>
     rt_partition (qn_runtime n) = pm \<and> sorted (map part_ID (pm_partitions pm)) \<and> distinct (map part_ID (pm_partitions pm)) \<and>
     dom (st_states (qn_store n)) = part_ID ` set (pm_partitions pm) \<and>
     (\<forall>p \<in> part_ID ` set (pm_partitions pm). p \<in> set ids \<and> disk_holds (qn_fs n, qn_store n) p (sp_log a p) \<and> length (sp_log a p) + k < 2 ^ 64) \<and>
     consumers_represent (led_by pm) a (rt_consumers (qn_runtime n))"

lemma representsD:
  assumes "represents pm ids k a n"
  shows "rt_partition (qn_runtime n) = pm" and "sorted (map part_ID (pm_partitions pm))" and "distinct (map part_ID (pm_partitions pm))"
    and "dom (st_states (qn_store n)) = part_ID ` set (pm_partitions pm)"
    and "p \<in> part_ID ` set (pm_partitions pm) \<Longrightarrow> p \<in> set ids \<and> disk_holds (qn_fs n, qn_store n) p (sp_log a p) \<and> length (sp_log a p) + k < 2 ^ 64"
    and "consumers_represent (led_by pm) a (rt_consumers (qn_runtime n))"
  using assms unfolding represents_def by blast+

lemma led_by_mem: "p \<in> set (led_by pm) \<Longrightarrow> p \<in> part_ID ` set (pm_partitions pm)"
  by (auto simp: led_by_def)

lemma distinct_led_by: "distinct (map part_ID (pm_partitions pm)) \<Longrightarrow> distinct (led_by pm)"
  by (simp add: led_by_def distinct_map_filter)

lemma leaderPartitionIDs_led_by: "leaderPartitionIDs rt = led_by (rt_partition rt)"
  by (simp add: leaderPartitionIDs_def led_by_def PartitionManager_Partitions_def)

lemma represents_mono: "represents pm ids (Suc k) a n \<Longrightarrow> represents pm ids k a n"
  unfolding represents_def by auto

lemma represents_bound: "represents pm ids k a n \<Longrightarrow> p \<in> set (led_by pm) \<Longrightarrow> length (sp_log a p) < 2 ^ 64"
  using representsD(5) [of pm ids k a n p] led_by_mem [of p pm] by simp

text \<open>A step that changes only the consumers, or only appends to one partition.\<close>

lemma represents_consumers:
  assumes "represents pm ids k a n" and "rt_partition rt = pm" and "sp_log b = sp_log a" and "consumers_represent (led_by pm) b (rt_consumers rt)"
  shows "represents pm ids k b (n\<lparr>qn_runtime := rt\<rparr>)"
  using assms unfolding represents_def by simp

lemma represents_append:
  assumes "represents pm ids (Suc k) a n" and "disk_holds (fs, st) p (sp_log a p @ [m])"
    and "\<And>q ms. q \<noteq> p \<Longrightarrow> disk_holds (qn_fs n, qn_store n) q ms \<Longrightarrow> disk_holds (fs, st) q ms"
    and "dom (st_states st) = dom (st_states (qn_store n))" and "rt_partition rt = pm" and "rt_consumers rt = rt_consumers (qn_runtime n)"
  shows "represents pm ids k (append_log a p m) (n\<lparr>qn_fs := fs, qn_store := st, qn_runtime := rt\<rparr>)"
proof -
  have "q \<in> set ids \<and> disk_holds (fs, st) q (sp_log (append_log a p m) q) \<and> length (sp_log (append_log a p m) q) + k < 2 ^ 64"
    if "q \<in> part_ID ` set (pm_partitions pm)" for q
    using representsD(5) [OF assms(1) that] assms(2,3) by (cases "q = p") auto
  with assms representsD [OF assms(1)] show ?thesis
    by (simp add: represents_def consumers_represent_append)
qed

section \<open>Consuming and acknowledging\<close>

lemma consume_simulates:
  assumes "represents pm ids (Suc k) a n" and "admits js r" and "sr_Path r = ''/consume''"
  shows "\<exists>rt resp e b. ConsumeHandler_ServeHTTP js (PartitionStore_Read (sr_ctx r) io_ok (qn_fs n) (qn_store n)) (qn_runtime n) r = Some (rt, resp) \<and>
    queue_step (led_by pm) a e b \<and> represents pm ids k b (n\<lparr>qn_runtime := rt\<rparr>) \<and> explains js pm r resp e"
proof -
  let ?topic = "first_value (sr_Query r) ''topic''" and ?grp = "first_value (sr_Query r) ''group''"
  let ?rt = "qn_runtime n"
  have rd: "PartitionStore_Read (sr_ctx r) io_ok (qn_fs n) (qn_store n) = disk_read (qn_fs n, qn_store n)"
    using assms(2) by (auto simp: admits_def disk_read_def fun_eq_iff)
  note rep = represents_mono [OF assms(1)]
  show ?thesis
  proof (cases "sr_Method r = ''GET'' \<and> ?topic \<noteq> [] \<and> ?grp \<noteq> []")
    case False
    have "\<exists>resp. ConsumeHandler_ServeHTTP js (PartitionStore_Read (sr_ctx r) io_ok (qn_fs n) (qn_store n)) ?rt r = Some (?rt, resp) \<and>
        (w_Status resp = 400 \<or> w_Status resp = 405)"
      using False by (auto simp: ConsumeHandler_ServeHTTP_def Let_def MethodNotAllowed_def http_Error_def)
    then show ?thesis
      using rep by (fastforce intro: no_effect simp: explains_def assms(3))
  next
    case True
    have led: "leaderPartitionIDs ?rt = led_by pm"
      using representsD(1) [OF assms(1)] by (simp add: leaderPartitionIDs_led_by)
    have plain: "plain_topic ?topic" using assms(2) by (simp add: admits_def)
    note crep = representsD(6) [OF rep]
    have "disk_holds (qn_fs n, qn_store n) p (sp_log a p) \<and>
        unat (pc_nextOffset (view (rt_consumers ?rt) (consumerKey ?topic ?grp) p)) \<le> length (sp_log a p)" if "p \<in> set (led_by pm)" for p
      using representsD(5) [OF rep led_by_mem [OF that]] consumers_representD(2) [OF crep plain that, of ?grp]
      by (simp add: cursor_ok_def)
    from ps.poll_partitions_effect [OF distinct_led_by [OF representsD(3) [OF rep]] this, where topic = ?topic]
    obtain rt' res where poll: "poll_partitions (disk_read (qn_fs n, qn_store n)) ?rt (consumerKey ?topic ?grp) ?topic (led_by pm) = Some (rt', Inr res)"
        "poll_effect ?rt (consumerKey ?topic ?grp) ?topic (sp_log a) (led_by pm) res rt'"
      by blast
    have pm': "rt_partition rt' = pm"
      using poll(2) representsD(1) [OF rep] by (simp add: poll_effect_def Let_def)
    have handler: "ConsumeHandler_ServeHTTP js (PartitionStore_Read (sr_ctx r) io_ok (qn_fs n) (qn_store n)) ?rt r =
        Some (rt', case res of None \<Rightarrow> reply 204 | Some m \<Rightarrow> message_response js m)"
      using True poll(1) unfolding rd
      by (auto simp: ConsumeHandler_ServeHTTP_def Poll_def led message_response_def split: option.splits)
    note eff = poll_represents [OF crep plain represents_bound [OF rep] poll(2)]
    show ?thesis
    proof (cases "find (due a (?topic, ?grp)) (led_by pm)")
      case None
      with eff have "res = None" "consumers_represent (led_by pm) a (rt_consumers rt')" by simp_all
      with handler represents_consumers [OF rep pm' refl] nothing_due [OF None] show ?thesis
        by (fastforce simp: explains_def assms(3) request_reader_def)
    next
      case (Some p)
      let ?m = "topic_log a ?topic p ! sp_done a (?topic, ?grp) p"
      have res: "res = Some ?m" "consumers_represent (led_by pm) (lend a (?topic, ?grp) p (msg_ID ?m)) (rt_consumers rt')"
        using eff Some by (simp_all add: Let_def)
      have step: "queue_step (led_by pm) a (Delivered (?topic, ?grp) p ?m) (lend a (?topic, ?grp) p (msg_ID ?m))"
        using delivered [OF Some, of ?m] by simp
      have "represents pm ids k (lend a (?topic, ?grp) p (msg_ID ?m)) (n\<lparr>qn_runtime := rt'\<rparr>)"
        using res(2) by (intro represents_consumers [OF rep pm']) simp_all
      with handler res(1) step show ?thesis
        by (intro exI [of _ rt'] exI [of _ "message_response js ?m"] exI [of _ "Delivered (?topic, ?grp) p ?m"]
              exI [of _ "lend a (?topic, ?grp) p (msg_ID ?m)"]) (simp add: explains_def assms(3) request_reader_def)
    qed
  qed
qed

lemma ack_simulates:
  assumes "represents pm ids (Suc k) a n" and "admits js r" and "sr_Path r = ''/ack''"
  shows "\<exists>rt resp e b. AckHandler_ServeHTTP js (qn_runtime n) r = (rt, resp) \<and>
    queue_step (led_by pm) a e b \<and> represents pm ids k b (n\<lparr>qn_runtime := rt\<rparr>) \<and> explains js pm r resp e"
proof (cases "sr_Method r = ''POST'' \<and> (\<exists>mid. js_ack js (sr_Body r) = Some mid \<and> mid \<noteq> [])")
  case False
  then have "\<exists>resp. AckHandler_ServeHTTP js (qn_runtime n) r = (qn_runtime n, resp) \<and> (w_Status resp = 400 \<or> w_Status resp = 405)"
    by (auto simp: AckHandler_ServeHTTP_def MethodNotAllowed_def http_Error_def split: option.splits)
  then show ?thesis
    using represents_mono [OF assms(1)] by (fastforce intro: no_effect simp: explains_def assms(3))
next
  case True
  then obtain mid where mid: "js_ack js (sr_Body r) = Some mid" "mid \<noteq> []" by blast
  note rep = represents_mono [OF assms(1)]
  have ctx: "sr_ctx r = None" using assms(2) by (simp add: admits_def)
  have bound: "\<forall>p \<in> set (led_by pm). length (sp_log a p) < 2 ^ 64"
    using represents_bound [OF rep] by blast
  from representsD(6) [OF rep] bound show ?thesis
  proof (cases rule: Ack_represents [where mid = mid])
    case unknown
    then have "AckHandler_ServeHTTP js (qn_runtime n) r = (qn_runtime n, http_Error (Error ErrMessageNotInflight) 404)"
      using True mid by (simp add: AckHandler_ServeHTTP_def ctx)
    with rep not_in_flight [OF unknown(1)] mid show ?thesis
      by (fastforce simp: explains_def assms(3) http_Error_def)
  next
    case (settled rd p rt')
    then have "AckHandler_ServeHTTP js (qn_runtime n) r = (rt', reply 204)"
      using True mid by (simp add: AckHandler_ServeHTTP_def ctx)
    moreover have "represents pm ids k (settle a rd p mid) (n\<lparr>qn_runtime := rt'\<rparr>)"
      using settled(3,5) representsD(1) [OF rep] by (intro represents_consumers [OF rep]) simp_all
    ultimately show ?thesis
      using acknowledged [OF settled(1), of "led_by pm"] mid(1)
      by (fastforce simp: explains_def assms(3))
  qed
qed

section \<open>Publishing\<close>

definition publishes_here :: "json \<Rightarrow> PartitionManager \<Rightarrow> server_request \<Rightarrow> publishRequest \<Rightarrow> int \<Rightarrow> bool" where
  "publishes_here js pm r q p \<longleftrightarrow> sr_Method r = ''POST'' \<and> js_publish js (sr_Body r) = Some q \<and>
     pr_Topic q \<noteq> [] \<and> pr_ID q \<noteq> [] \<and> pr_Payload q \<noteq> [] \<and>
     Route (pr_Topic q) (publish_message q) (pm_partitions pm) = Inr p \<and> IsLeader pm p"

lemma publish_elsewhere:
  assumes "rt_partition rt = pm" and "\<nexists>q p. publishes_here js pm r q p"
  shows "\<exists>resp. PublishHandler_ServeHTTP js net send io ids nodes w fs st rt r = (w, fs, st, rt, resp) \<and>
    (w_Status resp = 202 \<longrightarrow> (\<exists>q p. js_publish js (sr_Body r) = Some q \<and>
       Route (pr_Topic q) (publish_message q) (pm_partitions pm) = Inr p \<and> \<not> IsLeader pm p))"
proof (cases "js_publish js (sr_Body r)")
  case None
  then show ?thesis by (simp add: PublishHandler_ServeHTTP_def MethodNotAllowed_def http_Error_def)
next
  case (Some q)
  have m: "publish_message q\<lparr>msg_Topic := pr_Topic q\<rparr> = publish_message q" by (simp add: publish_message_def)
  show ?thesis
  proof (cases "Route (pr_Topic q) (publish_message q) (pm_partitions pm)")
    case (Inl e)
    then have "PartitionLeader nodes rt (pr_Topic q) (publish_message q) = Inl e"
      by (simp add: PartitionLeader_def routePartition_def PartitionManager_Partitions_def assms(1) m)
    with Some show ?thesis by (simp add: PublishHandler_ServeHTTP_def MethodNotAllowed_def http_Error_def)
  next
    case (Inr p)
    show ?thesis
    proof (cases "IsLeader pm p")
      case True
      with assms(2) Some Inr have "\<not> (sr_Method r = ''POST'' \<and> pr_Topic q \<noteq> [] \<and> pr_ID q \<noteq> [] \<and> pr_Payload q \<noteq> [])"
        by (auto simp: publishes_here_def)
      with Some show ?thesis by (auto simp: PublishHandler_ServeHTTP_def MethodNotAllowed_def http_Error_def)
    next
      case False
      with Inr have "\<not> (case PartitionLeader nodes rt (pr_Topic q) (publish_message q) of Inl _ \<Rightarrow> False | Inr (_, _, local) \<Rightarrow> local)"
        by (simp add: PartitionLeader_def routePartition_def PartitionManager_Partitions_def assms(1) m split: option.splits sum.splits)
      with Some Inr False show ?thesis
        by (auto simp: PublishHandler_ServeHTTP_def split: sum.splits prod.splits)
    qed
  qed
qed

lemma PublishHandler_dom:
  "PublishHandler_ServeHTTP js net send io ids nodes w fs st rt r = (w', fs', st', rt', resp) \<Longrightarrow>
     dom (st_states st') = dom (st_states st) \<and> st_dataDir st' = st_dataDir st"
  unfolding PublishHandler_ServeHTTP_def Publish_def append_published_def Let_def
  by (auto split: option.splits sum.splits prod.splits if_splits dest!: PartitionStore_Append_dom)

lemma publish_simulates:
  fixes send :: "'w \<Rightarrow> RemoteReplicator \<Rightarrow> int \<Rightarrow> Record \<Rightarrow> 'w \<times> go_error option"
  assumes "represents pm ids (Suc k) a n" and "admits js r" and "sr_Path r = ''/publish''"
    and "PublishHandler_ServeHTTP js net send io_ok ids nodes w (qn_fs n) (qn_store n) (qn_runtime n) r = (w', fs, st, rt, resp)"
  shows "\<exists>e b. queue_step (led_by pm) a e b \<and> represents pm ids k b (n\<lparr>qn_fs := fs, qn_store := st, qn_runtime := rt\<rparr>) \<and> explains js pm r resp e"
proof -
  note pm = representsD(1) [OF assms(1)]
  have unchanged: "\<exists>e b. queue_step (led_by pm) a e b \<and> represents pm ids k b (n\<lparr>qn_fs := fs, qn_store := st, qn_runtime := rt\<rparr>) \<and> explains js pm r resp e"
    if "fs = qn_fs n" "st = qn_store n" "rt = qn_runtime n"
      "w_Status resp = 202 \<longrightarrow> (\<exists>q p. js_publish js (sr_Body r) = Some q \<and>
         Route (pr_Topic q) (publish_message q) (pm_partitions pm) = Inr p \<and> \<not> IsLeader pm p)"
    using that represents_mono [OF assms(1)] by (intro exI [of _ NoEffect] exI [of _ a]) (simp add: no_effect explains_def assms(3))
  show ?thesis
  proof (cases "\<exists>q p. publishes_here js pm r q p")
    case False
    with publish_elsewhere [OF pm, of js r net send io_ok ids nodes w "qn_fs n" "qn_store n"] assms(4) show ?thesis
      by (intro unchanged) auto
  next
    case True
    then obtain q p where q: "publishes_here js pm r q p" by blast
    let ?m = "publish_message q"
    have p: "p \<in> part_ID ` set (pm_partitions pm)" using q by (auto simp: publishes_here_def dest!: Route_Inr_mem)
    note part = representsD(5) [OF assms(1) p]
    have storable: "storable ?m" and ctx: "sr_ctx r = None" using assms(2) q by (auto simp: admits_def publishes_here_def)
    have "if w_Status resp = 202
      then disk_holds (fs, st) p (sp_log a p @ [?m]) \<and> rt = count_published (qn_runtime n) \<and>
        (\<forall>q ms'. q \<noteq> p \<longrightarrow> disk_holds (qn_fs n, qn_store n) q ms' \<longrightarrow> disk_holds (fs, st) q ms')
      else w_Status resp = 503 \<and> fs = qn_fs n \<and> st = qn_store n \<and> rt = qn_runtime n"
      by (rule publish_handler_local [OF _ ctx _ _ _ _ _ _ _ storable _ _ assms(4)])
         (use q part pm in \<open>auto simp: publishes_here_def routePartition_def PartitionManager_Partitions_def\<close>)
    then show ?thesis
    proof (cases "w_Status resp = 202")
      case False
      with \<open>if w_Status resp = 202 then _ else _\<close> show ?thesis by (intro unchanged) auto
    next
      case 202: True
      with \<open>if w_Status resp = 202 then _ else _\<close> have eff: "disk_holds (fs, st) p (sp_log a p @ [?m])" "rt = count_published (qn_runtime n)"
        "\<And>q ms. q \<noteq> p \<Longrightarrow> disk_holds (qn_fs n, qn_store n) q ms \<Longrightarrow> disk_holds (fs, st) q ms" by auto
      have "represents pm ids k (append_log a p ?m) (n\<lparr>qn_fs := fs, qn_store := st, qn_runtime := rt\<rparr>)"
        by (rule represents_append [OF assms(1) eff(1,3) PublishHandler_dom [OF assms(4), THEN conjunct1]]) (use pm eff(2) in \<open>simp_all add: count_published_def\<close>)
      moreover have "explains js pm r resp (Appended p ?m)"
        using q 202 by (auto simp: explains_def publishes_here_def assms(3)) (simp add: publish_message_def)
      ultimately show ?thesis using appended by blast
    qed
  qed
qed

section \<open>Replication and statistics\<close>

lemma replicate_simulates:
  assumes "represents pm ids (Suc k) a n" and "admits js r" and "sr_Path r = ''/internal/replicate''"
    and "ReplicationHandler_ServeHTTP js io_ok (qn_fs n) (qn_store n) r = (fs, st, resp)"
  shows "\<exists>e b. queue_step (led_by pm) a e b \<and> represents pm ids k b (n\<lparr>qn_fs := fs, qn_store := st\<rparr>) \<and> explains js pm r resp e"
proof -
  have unchanged: "\<exists>e b. queue_step (led_by pm) a e b \<and> represents pm ids k b (n\<lparr>qn_fs := fs, qn_store := st\<rparr>) \<and> explains js pm r resp e"
    if "fs = qn_fs n" "st = qn_store n" "w_Status resp \<noteq> 200"
    using that represents_mono [OF assms(1)] by (intro exI [of _ NoEffect] exI [of _ a]) (simp add: no_effect explains_def assms(3))
  show ?thesis
  proof (cases "sr_Method r = ''POST'' \<and> js_replication js (sr_Body r) \<noteq> None")
    case False
    with assms(4) show ?thesis
      by (intro unchanged) (auto simp: ReplicationHandler_ServeHTTP_def MethodNotAllowed_def http_Error_def split: option.splits if_splits)
  next
    case True
    then obtain p rc where rc: "js_replication js (sr_Body r) = Some (p, rc)" by auto
    have storable: "storable (rec_Message rc)" and ctx: "sr_ctx r = None" using assms(2) rc by (auto simp: admits_def)
    obtain s' e where app: "disk_append_record (qn_fs n, qn_store n) p rc = (s', e)" by (cases "disk_append_record (qn_fs n, qn_store n) p rc")
    have handler: "fs = fst s'" "st = snd s'" "resp = (case e of None \<Rightarrow> reply 200
        | Some e \<Rightarrow> http_Error (Error e) (if errors_Is e ErrUnexpectedOffset then 409 else 500))"
      using assms(4) True rc app by (auto simp: ReplicationHandler_ServeHTTP_def disk_append_record_def ctx split: prod.splits option.splits)
    show ?thesis
    proof (cases "p \<in> part_ID ` set (pm_partitions pm)")
      case False
      then have "st_states (qn_store n) p = None" using representsD(4) [OF assms(1)] by auto
      then have "s' = (qn_fs n, qn_store n)" "e \<noteq> None"
        using app by (auto simp: disk_append_record_def PartitionStore_AppendRecord_def)
      with handler show ?thesis by (intro unchanged) (auto simp: http_Error_def split: if_splits)
    next
      case p: True
      note part = representsD(5) [OF assms(1) p]
      show ?thesis
      proof (cases "rec_Offset rc = of_nat (length (sp_log a p))")
        case False
        with ps.reject_law [of "(qn_fs n, qn_store n)" p "sp_log a p" rc] part app
        have "s' = (qn_fs n, qn_store n)" "e \<noteq> None" by auto
        with handler show ?thesis by (intro unchanged) (auto simp: http_Error_def split: if_splits)
      next
        case expected: True
        have holds: "disk_holds (qn_fs n, qn_store n) p (sp_log a p)" and len: "length (sp_log a p) + 1 < 2 ^ 64" using part by auto
        from ps.accept_law [OF holds storable len expected] app
        have acc: "e = None" "disk_holds s' p (sp_log a p @ [rec_Message rc])"
          "\<And>q ms. q \<noteq> p \<Longrightarrow> disk_holds (qn_fs n, qn_store n) q ms \<Longrightarrow> disk_holds s' q ms" by auto
        have "PartitionStore_AppendRecord None io_ok (qn_fs n) (qn_store n) p rc = (fs, st, e)"
          using app handler(1,2) by (auto simp: disk_append_record_def split: prod.splits)
        then have "dom (st_states st) = dom (st_states (qn_store n))" by (rule PartitionStore_AppendRecord_dom [THEN conjunct1])
        then have "represents pm ids k (append_log a p (rec_Message rc)) (n\<lparr>qn_fs := fs, qn_store := st, qn_runtime := qn_runtime n\<rparr>)"
          using acc handler(1,2) representsD(1) [OF assms(1)] by (intro represents_append [OF assms(1)]) simp_all
        moreover have "explains js pm r resp (Appended p (rec_Message rc))"
          using handler(3) acc(1) rc by (auto simp: explains_def assms(3) reply_def)
        moreover have "n\<lparr>qn_fs := fs, qn_store := st, qn_runtime := qn_runtime n\<rparr> = n\<lparr>qn_fs := fs, qn_store := st\<rparr>" by (cases n) simp
        ultimately show ?thesis using appended [of "led_by pm" a p "rec_Message rc"] by metis
      qed
    qed
  qed
qed

lemma Stats_sorted:
  assumes "sorted (map part_ID (pm_partitions (rt_partition rt)))"
  shows "fst (Stats st ids rt) = rt"
  using assms by (simp add: Stats_def Let_def PartitionManager_Partitions_def sorted_sort_id sort_key_id_if_sorted)

section \<open>The simulation\<close>

definition node_exec ::
  "json \<Rightarrow> network \<Rightarrow> ('w \<Rightarrow> RemoteReplicator \<Rightarrow> int \<Rightarrow> Record \<Rightarrow> 'w \<times> go_error option) \<Rightarrow> int list \<Rightarrow> go_error + Node list \<Rightarrow>
     'w \<times> queue_node \<Rightarrow> server_request \<Rightarrow> (('w \<times> queue_node) \<times> server_response) option" where
  "node_exec js net send ids nodes s r =
     map_option (\<lambda>(w, n, resp). ((w, n), resp)) (newQueueMux js net send io_ok ids nodes (fst s) (snd s) r)"

text \<open>No request moves the node's data directory.\<close>

lemma node_exec_dataDir:
  assumes "node_exec js net send ids nodes s r = Some (s', resp)"
  shows "st_dataDir (qn_store (snd s')) = st_dataDir (qn_store (snd s))"
proof -
  have "st_dataDir st' = st_dataDir st" if "ReplicationHandler_ServeHTTP js io_ok fs st r = (fs', st', resp)" for fs st fs' st' resp
    using that PartitionStore_AppendRecord_dom
    by (fastforce simp: ReplicationHandler_ServeHTTP_def split: if_splits option.splits prod.splits)
  then show ?thesis
    using assms
    by (auto simp: node_exec_def newQueueMux_def split: if_splits prod.splits dest: PublishHandler_dom)
qed

lemma unchanged_simulates:
  assumes "represents pm ids (Suc k) a n" and "sr_Path r \<notin> {''/publish'', ''/internal/replicate'', ''/consume'', ''/ack''}"
  shows "\<exists>e b. queue_step (led_by pm) a e b \<and> represents pm ids k b n \<and> explains js pm r resp e"
  using assms represents_mono [OF assms(1)] by (intro exI [of _ NoEffect] exI [of _ a]) (simp add: no_effect explains_def)

lemma node_simulates:
  fixes send :: "'w \<Rightarrow> RemoteReplicator \<Rightarrow> int \<Rightarrow> Record \<Rightarrow> 'w \<times> go_error option"
  assumes "represents pm ids (Suc k) a n" and "admits js r"
  shows "\<exists>w' n' resp e b. newQueueMux js net send io_ok ids nodes w n r = Some (w', n', resp) \<and>
    queue_step (led_by pm) a e b \<and> represents pm ids k b n' \<and> explains js pm r resp e"
proof -
  have stats: "fst (Stats (qn_store n) ids (qn_runtime n)) = qn_runtime n"
    using representsD(1,2) [OF assms(1)] by (intro Stats_sorted) simp
  consider (publish) "sr_Path r = ''/publish''" | (replicate) "sr_Path r = ''/internal/replicate''" | (consume) "sr_Path r = ''/consume''"
    | (ack) "sr_Path r = ''/ack''" | (other) "sr_Path r \<notin> {''/publish'', ''/internal/replicate'', ''/consume'', ''/ack''}"
    by auto
  then show ?thesis
  proof cases
    case publish
    obtain w' fs st rt resp where h: "PublishHandler_ServeHTTP js net send io_ok ids nodes w (qn_fs n) (qn_store n) (qn_runtime n) r = (w', fs, st, rt, resp)"
      by (metis prod_cases5)
    with publish publish_simulates [OF assms publish h] show ?thesis by (simp add: newQueueMux_def)
  next
    case replicate
    obtain fs st resp where h: "ReplicationHandler_ServeHTTP js io_ok (qn_fs n) (qn_store n) r = (fs, st, resp)"
      by (metis prod_cases3)
    with replicate replicate_simulates [OF assms replicate h] show ?thesis by (simp add: newQueueMux_def)
  next
    case consume
    obtain rt resp where h: "ConsumeHandler_ServeHTTP js (PartitionStore_Read (sr_ctx r) io_ok (qn_fs n) (qn_store n)) (qn_runtime n) r = Some (rt, resp)"
        "\<exists>e b. queue_step (led_by pm) a e b \<and> represents pm ids k b (n\<lparr>qn_runtime := rt\<rparr>) \<and> explains js pm r resp e"
      using consume_simulates [OF assms consume] by blast
    with consume show ?thesis by (simp add: newQueueMux_def)
  next
    case ack
    obtain rt resp where h: "AckHandler_ServeHTTP js (qn_runtime n) r = (rt, resp)"
        "\<exists>e b. queue_step (led_by pm) a e b \<and> represents pm ids k b (n\<lparr>qn_runtime := rt\<rparr>) \<and> explains js pm r resp e"
      using ack_simulates [OF assms ack] by blast
    with ack show ?thesis by (simp add: newQueueMux_def)
  next
    case other
    have "\<exists>resp. newQueueMux js net send io_ok ids nodes w n r = Some (w, n, resp)"
      using other stats
      by (auto simp: newQueueMux_def StatsHandler_ServeHTTP_def MetricsHandler_ServeHTTP_def split: prod.splits)
    with unchanged_simulates [OF assms(1) other] show ?thesis by blast
  qed
qed

interpretation node: simulation "\<lambda>k a s. represents pm ids k a (snd s)" "queue_step (led_by pm)" "node_exec js net send ids nodes"
    "admits js" "explains js pm" for pm ids js net
    and send :: "'w \<Rightarrow> RemoteReplicator \<Rightarrow> int \<Rightarrow> Record \<Rightarrow> 'w \<times> go_error option" and nodes
proof
  fix k a and s :: "'w \<times> queue_node" and r
  assume "represents pm ids (Suc k) a (snd s)" "admits js r"
  from node_simulates [OF this, of net send nodes "fst s"]
  show "\<exists>s' resp e b. node_exec js net send ids nodes s r = Some (s', resp) \<and> queue_step (led_by pm) a e b \<and>
      represents pm ids k b (snd s') \<and> explains js pm r resp e"
    by (fastforce simp: node_exec_def)
qed

section \<open>Properties of a node\<close>


text \<open>A one-node cluster with one empty partition.\<close>

definition sample_queue :: queue_spec where
  "sample_queue = \<lparr>sp_log = (\<lambda>_. []), sp_done = (\<lambda>_ _. 0), sp_lent = (\<lambda>_ _. False), sp_index = Map.empty\<rparr>"

definition sample_queue_node :: queue_node where
  "sample_queue_node = \<lparr>qn_fs = fst (opened_disk 0), qn_store = snd (opened_disk 0), qn_runtime = sample_runtime,
     qn_metrics = no_replication\<rparr>"

lemma sample_partitions: "pm_partitions (rt_partition sample_runtime) = [\<lparr>part_ID = 0, part_Replicas = [assign_replica [sample_node] 0 0]\<rparr>]"
  by (simp add: sample_runtime_def NewRuntime_def NewPartitionManager_def AssignPartitions_def)

lemma opened_disk_dom: "dom (st_states (snd (opened_disk p))) = {p}"
proof -
  obtain fs st where o: "OpenPartition io_ok Map.empty sample_store p = (fs, st, None)" "partition_holds fs st p []"
      "\<forall>q. q \<noteq> p \<longrightarrow> st_states st q = None"
    using OpenPartition_holds [of sample_store p "[]" Map.empty "[]"] by auto
  then have "st_states st p \<noteq> None" by (auto simp: partition_holds_def)
  with o(3) have "dom (st_states st) = {p}" by auto
  with o(1) show ?thesis by (simp add: opened_disk_def)
qed

lemma sample_represents: "k < 2 ^ 64 \<Longrightarrow> represents (rt_partition sample_runtime) [0] k sample_queue sample_queue_node"
  unfolding represents_def
  by (auto simp: sample_partitions sample_queue_node_def sample_queue_def opened_disk_dom)
     (simp add: sample_runtime_def NewRuntime_def consumers_represent_new)

definition sample_get :: server_request where
  "sample_get = \<lparr>sr_Method = ''GET'', sr_Path = ''/consume'', sr_Query = [(''topic'', ''gpu''), (''group'', ''g'')], sr_Body = [], sr_ctx = None\<rparr>"

lemma sample_admits: "admits sample_json (sample_post path)" "admits sample_json sample_get"
  by (simp_all add: admits_def sample_json_def sample_post_def sample_get_def first_value_def)


end
