(* ===== verification/Client_Server.thy ===== *)
theory Client_Server
  imports Processor Wire_Format Queue_Node
begin

text \<open>
  The services together: the HTTP clients of the streamer and of the processor against the HTTP server of a queue node, with the JSON of the wire
  and the URLs they build. A client call sends one request; the server answers it and moves to its next state. The lemmas show that
  the processor over HTTP sees the consumer interface that the runner relies on, and that what a streamer publishes is what a processor persists.

  The parser of URLs is an argument; the lemmas need that it reads back the URLs which the clients print from the base URL (\<open>reachable_base\<close>).
\<close>

section \<open>One request over the network\<close>

text \<open>
  The request as the server sees it and the response as the client sees it. A server is a function from its
  state and a request to the next state and the response. \<open>answering\<close> is the client's view of the server in a state, \<open>served\<close> the server's state after the
  request.
\<close>

type_synonym 's http_server = "'s \<Rightarrow> server_request \<Rightarrow> ('s \<times> server_response) option"

definition received_request :: "url \<Rightarrow> http_request \<Rightarrow> server_request" where
  "received_request u req =
     \<lparr>sr_Method = req_Method req, sr_Path = url_Path u, sr_Query = ParseQuery (url_RawQuery u), sr_Body = req_Body req, sr_ctx = None\<rparr>"

definition received_response :: "server_response \<Rightarrow> http_response" where
  "received_response w =
     \<lparr>resp_StatusCode = w_Status w, resp_Status = itoa (w_Status w) @ '' '' @ StatusText (w_Status w), resp_Header = w_Header w,
      resp_Body = w_Body w\<rparr>"

definition answering :: "url_library \<Rightarrow> 's http_server \<Rightarrow> 's \<Rightarrow> network" where
  "answering lib server s =
     \<lparr>net_url_error = (\<lambda>text. case ul_Parse lib text of Inl e \<Rightarrow> Some e | Inr _ \<Rightarrow> None),
      net_do = (\<lambda>req. sum_bind (ul_Parse lib (req_URL req)) (\<lambda>u.
        case server s (received_request u req) of None \<Rightarrow> Inl (GoPanic ''no answer'') | Some (_, w) \<Rightarrow> Inr (received_response w)))\<rparr>"

definition served :: "url_library \<Rightarrow> 's http_server \<Rightarrow> 's \<Rightarrow> http_request \<Rightarrow> 's" where
  "served lib server s req =
     (case ul_Parse lib (req_URL req) of
        Inl _ \<Rightarrow> s
      | Inr u \<Rightarrow> (case server s (received_request u req) of None \<Rightarrow> s | Some (s1, _) \<Rightarrow> s1))"

text \<open>The clients' calls on a server with the base URL \<open>base\<close>.\<close>

definition http_client :: "url_library \<Rightarrow> url \<Rightarrow> 's http_server \<Rightarrow> 's \<Rightarrow> HTTPClient" where
  "http_client lib base server s = \<lparr>hc_client = answering lib server s, hc_baseURL = base\<rparr>"

definition http_consume :: "url_library \<Rightarrow> url \<Rightarrow> 's http_server \<Rightarrow> string \<Rightarrow> string \<Rightarrow> 's \<Rightarrow> 's \<times> (go_error + Message option)" where
  "http_consume lib base server topic grp s =
     (served lib server s (consume_request lib (http_client lib base server s) topic grp),
      HTTPClient_Consume unmarshal_message lib (http_client lib base server s) topic grp)"

definition http_ack :: "url_library \<Rightarrow> url \<Rightarrow> 's http_server \<Rightarrow> 's \<Rightarrow> string \<Rightarrow> 's \<times> go_error option" where
  "http_ack lib base server s mid =
     ((case ack_json mid of
         Inl _ \<Rightarrow> s
       | Inr body \<Rightarrow> served lib server s (post_json (ul_String lib (ack_endpoint (http_client lib base server s))) body)),
      HTTPClient_Ack ack_json lib (http_client lib base server s) mid)"

definition reachable_base :: "url_library \<Rightarrow> url \<Rightarrow> bool" where
  "reachable_base lib base \<longleftrightarrow> url_Path base \<in> {[], ''/''} \<and> url_RawQuery base = [] \<and>
     (\<forall>path \<in> {''/publish'', ''/consume'', ''/ack''}. \<forall>vs.
        let u = base\<lparr>url_Path := path, url_RawQuery := values_Encode vs\<rparr> in ul_Parse lib (ul_String lib u) = Inr u)"

lemma reachable_baseD:
  assumes "reachable_base lib base" and "path \<in> {''/publish'', ''/consume'', ''/ack''}"
  shows "ul_Parse lib (ul_String lib (base\<lparr>url_Path := path, url_RawQuery := values_Encode vs\<rparr>)) =
      Inr (base\<lparr>url_Path := path, url_RawQuery := values_Encode vs\<rparr>)"
    and "ul_Parse lib (ul_String lib (base\<lparr>url_Path := path\<rparr>)) = Inr (base\<lparr>url_Path := path\<rparr>)"
proof -
  from assms show parsed: "ul_Parse lib (ul_String lib (base\<lparr>url_Path := path, url_RawQuery := values_Encode vs\<rparr>)) =
      Inr (base\<lparr>url_Path := path, url_RawQuery := values_Encode vs\<rparr>)" for vs
    unfolding reachable_base_def Let_def by blast
  have "base\<lparr>url_Path := path, url_RawQuery := values_Encode []\<rparr> = base\<lparr>url_Path := path\<rparr>"
    using assms(1) by (cases base) (simp add: values_Encode_def reachable_base_def)
  with parsed [of "[]"] show "ul_Parse lib (ul_String lib (base\<lparr>url_Path := path\<rparr>)) = Inr (base\<lparr>url_Path := path\<rparr>)" by simp
qed

lemma join_root: "url_Path base \<in> {[], ''/''} \<Longrightarrow> path_Join (url_Path base) ''/consume'' = ''/consume''"
  "url_Path base \<in> {[], ''/''} \<Longrightarrow> path_Join (url_Path base) ''/ack'' = ''/ack''"
  by (auto simp: path_Join_def filepath_Join_def Clean_def clean_step_def)

lemma consume_endpoint_base:
  assumes "reachable_base lib base" and "hc_baseURL c = base"
  shows "ul_Parse lib (req_URL (consume_request lib c topic grp)) = Inr (consume_endpoint c topic grp)"
    and "url_Path (consume_endpoint c topic grp) = ''/consume''"
    and "first_value (ParseQuery (url_RawQuery (consume_endpoint c topic grp))) ''topic'' = topic"
    and "first_value (ParseQuery (url_RawQuery (consume_endpoint c topic grp))) ''group'' = grp"
proof -
  have "url_Path base \<in> {[], ''/''}" using assms(1) by (simp add: reachable_base_def)
  then have "consume_endpoint c topic grp = base\<lparr>url_Path := ''/consume'', url_RawQuery := values_Encode
      (values_Set ''group'' grp (values_Set ''topic'' topic (ParseQuery (url_RawQuery base))))\<rparr>"
    by (simp add: consume_endpoint_def assms(2) join_root Let_def)
  with reachable_baseD(1) [OF assms(1)] show
    "ul_Parse lib (req_URL (consume_request lib c topic grp)) = Inr (consume_endpoint c topic grp)"
    "url_Path (consume_endpoint c topic grp) = ''/consume''"
    "first_value (ParseQuery (url_RawQuery (consume_endpoint c topic grp))) ''topic'' = topic"
    "first_value (ParseQuery (url_RawQuery (consume_endpoint c topic grp))) ''group'' = grp"
    by (simp_all add: consume_request_def)
qed

lemma ack_endpoint_base:
  assumes "reachable_base lib base" and "hc_baseURL c = base"
  shows "ul_Parse lib (ul_String lib (ack_endpoint c)) = Inr (ack_endpoint c)" and "url_Path (ack_endpoint c) = ''/ack''"
proof -
  have "url_Path base \<in> {[], ''/''}" using assms(1) by (simp add: reachable_base_def)
  then have "ack_endpoint c = base\<lparr>url_Path := ''/ack''\<rparr>" by (simp add: ack_endpoint_def assms(2) join_root)
  with reachable_baseD(2) [OF assms(1)] show
    "ul_Parse lib (ul_String lib (ack_endpoint c)) = Inr (ack_endpoint c)" "url_Path (ack_endpoint c) = ''/ack''" by simp_all
qed

section \<open>The processor over HTTP\<close>

text \<open>
  A message that survives the way to a client: its strings are well-formed UTF-8, and its payload is one JSON value, which
  arrives in the compact form of the encoder.
\<close>

definition deliverable :: "Message \<Rightarrow> bool" where
  "deliverable m \<longleftrightarrow> utf8_message m \<and> msg_ID m \<noteq> [] \<and>
     (case compact (string_of_bytes (msg_Payload m)) of None \<Rightarrow> False | Some raw \<Rightarrow> json_value (max_nesting - 1) raw)"

definition arrived :: "Message \<Rightarrow> Message" where
  "arrived m =
     (case compact (string_of_bytes (msg_Payload m)) of None \<Rightarrow> m | Some raw \<Rightarrow> m\<lparr>msg_Payload := bytes_of_string raw\<rparr>)"

lemma arrived_ID [simp]: "msg_ID (arrived m) = msg_ID m"
  by (simp add: arrived_def split: option.splits)

lemma delivered_response:
  assumes "deliverable m"
  obtains body where "js_of_message go_json m = Inr body" and "unmarshal_message (body @ [newline]) = Inr (arrived m)"
proof -
  obtain raw where raw: "compact (string_of_bytes (msg_Payload m)) = Some raw" "json_value (max_nesting - 1) raw"
    using assms by (auto simp: deliverable_def split: option.splits)
  then obtain body where body: "message_json (msg_Topic m) (msg_ID m) (msg_RoutingKey m) (msg_Payload m) = Inr body"
    by (auto simp: message_json_def marshal_raw_def)
  have "delimiter newline" by code_simp
  then have "unmarshal_message (body @ [newline]) = Inr \<lparr>msg_Topic = msg_Topic m, msg_ID = msg_ID m, msg_RoutingKey = msg_RoutingKey m,
      msg_Payload = bytes_of_string raw\<rparr>"
    using assms raw by (intro message_decode [OF body]) (auto simp: deliverable_def utf8_message_def max_nesting_def)
  also have "\<lparr>msg_Topic = msg_Topic m, msg_ID = msg_ID m, msg_RoutingKey = msg_RoutingKey m, msg_Payload = bytes_of_string raw\<rparr> = arrived m"
    using raw(1) by (cases m) (simp add: arrived_def)
  finally show ?thesis using body by (intro that [of body]) (simp_all add: go_json_def)
qed

text \<open>A node as a server, whose disk works.\<close>

abbreviation node_server ::
  "network \<Rightarrow> ('w \<Rightarrow> RemoteReplicator \<Rightarrow> int \<Rightarrow> Record \<Rightarrow> 'w \<times> go_error option) \<Rightarrow> int list \<Rightarrow> go_error + Node list \<Rightarrow> ('w \<times> queue_node) http_server" where
  "node_server \<equiv> node_exec go_json"

abbreviation node_disk :: "queue_node \<Rightarrow> disk_store" where
  "node_disk n \<equiv> (qn_fs n, qn_store n)"

lemma node_consume:
  assumes "reachable_base lib base" and "topic \<noteq> []" and "grp \<noteq> []"
    and "Poll (disk_read (node_disk n)) (qn_runtime n) topic grp = Some (rt1, Inr res)" and "\<forall>m. res = Some m \<longrightarrow> deliverable m"
  shows "http_consume lib base (node_server net send ids peers) topic grp (w, n) = ((w, n\<lparr>qn_runtime := rt1\<rparr>), Inr (map_option arrived res))"
proof -
  let ?server = "node_server net send ids peers"
  let ?c = "http_client lib base ?server (w, n)"
  let ?u = "consume_endpoint ?c topic grp"
  have base: "hc_baseURL ?c = base" by (simp add: http_client_def)
  note ep = consume_endpoint_base [OF assms(1) base, of topic grp]
  let ?r = "received_request ?u (consume_request lib ?c topic grp)"
  have rd: "PartitionStore_Read None io_ok (qn_fs n) (qn_store n) = disk_read (node_disk n)"
    by (simp add: disk_read_def fun_eq_iff)
  have handled: "?server (w, n) ?r = Some ((w, n\<lparr>qn_runtime := rt1\<rparr>),
      case res of None \<Rightarrow> reply 204 | Some m \<Rightarrow> message_response go_json m)"
    using ep assms(2-4)
    by (auto simp: node_exec_def newQueueMux_def received_request_def consume_request_def ConsumeHandler_ServeHTTP_def rd message_response_def
        split: option.splits)
  have url: "ul_Parse lib (ul_String lib ?u) = Inr ?u" using ep(1) by (simp add: consume_request_def)
  have "HTTPClient_Consume unmarshal_message lib ?c topic grp = Inr (map_option arrived res)"
  proof (cases res)
    case None
    with handled url show ?thesis
      by (simp add: HTTPClient_Consume_def http_client_def answering_def consume_request_def received_response_def Let_def)
  next
    case (Some m)
    obtain body where "js_of_message go_json m = Inr body" "unmarshal_message (body @ [newline]) = Inr (arrived m)"
      using delivered_response assms(5) Some by blast
    with handled url Some show ?thesis
      by (simp add: HTTPClient_Consume_def http_client_def answering_def consume_request_def received_response_def Let_def
          message_response_def reply_body_def)
  qed
  moreover have "served lib ?server (w, n) (consume_request lib ?c topic grp) = (w, n\<lparr>qn_runtime := rt1\<rparr>)"
    using handled url by (simp add: served_def consume_request_def)
  ultimately show ?thesis by (simp add: http_consume_def)
qed

lemma node_ack:
  assumes "reachable_base lib base" and "valid_utf8 mid" and "mid \<noteq> []" and "Ack None (qn_runtime n) mid = (rt1, None)"
  shows "http_ack lib base (node_server net send ids peers) (w, n) mid = ((w, n\<lparr>qn_runtime := rt1\<rparr>), None)"
proof -
  let ?server = "node_server net send ids peers"
  let ?c = "http_client lib base ?server (w, n)"
  have base: "hc_baseURL ?c = base" by (simp add: http_client_def)
  note ep = ack_endpoint_base [OF assms(1) base]
  obtain body where body: "ack_json mid = Inr body" by (simp add: ack_json_def)
  let ?req = "post_json (ul_String lib (ack_endpoint ?c)) body"
  have "?server (w, n) (received_request (ack_endpoint ?c) ?req) = Some ((w, n\<lparr>qn_runtime := rt1\<rparr>), reply 204)"
    using ep(2) assms(3,4) ack_decode [OF assms(2) body]
    by (simp add: node_exec_def newQueueMux_def received_request_def post_json_def AckHandler_ServeHTTP_def go_json_def)
  with ep(1) body show ?thesis
    by (simp add: http_ack_def HTTPClient_Ack_def served_def http_client_def answering_def post_json_def received_response_def Let_def)
qed

text \<open>
  The processor's HTTP client and a node are a consumer in the sense of the runner: what it delivers are the messages that the node's own runtime
  delivers.
\<close>

definition http_ready :: "url_library \<Rightarrow> url \<Rightarrow> (int \<Rightarrow> Message list) \<Rightarrow> string \<Rightarrow> string \<Rightarrow> 'w \<times> queue_node \<Rightarrow> bool" where
  "http_ready lib base log topic grp s \<longleftrightarrow> reachable_base lib base \<and> local_ready (node_disk (snd s)) log topic grp (qn_runtime (snd s)) \<and>
     (\<forall>m \<in> set (backlog log topic (consumerKey topic grp) (qn_runtime (snd s))). deliverable m)"

interpretation http_consumer: message_consumer "http_consume lib base (node_server net send ids peers) topic grp"
    "http_ack lib base (node_server net send ids peers)" "http_ready lib base log topic grp"
    "\<lambda>s. map arrived (backlog log topic (consumerKey topic grp) (qn_runtime (snd s)))"
  for lib base net and send :: "'w \<Rightarrow> RemoteReplicator \<Rightarrow> int \<Rightarrow> Record \<Rightarrow> 'w \<times> go_error option" and ids peers topic grp log
proof
  fix s :: "'w \<times> queue_node"
  let ?backlog = "\<lambda>s. backlog log topic (consumerKey topic grp) (qn_runtime (snd s))"
  let ?server = "node_server net send ids peers"
  assume ready: "http_ready lib base log topic grp s"
  obtain w n where s: "s = (w, n)" by (cases s)
  have base: "reachable_base lib base" and local: "local_ready (node_disk n) log topic grp (qn_runtime n)"
    and msgs: "\<forall>m \<in> set (?backlog s). deliverable m"
    using ready by (simp_all add: http_ready_def s)
  have names: "topic \<noteq> []" "grp \<noteq> []" using local by (simp_all add: local_ready_def)
  show "\<exists>s1. http_consume lib base ?server topic grp s = (s1, Inr None) \<and> http_ready lib base log topic grp s1 \<and> map arrived (?backlog s1) = []"
    if "map arrived (?backlog s) = []"
  proof -
    have "?backlog s = []" using that by simp
    with local_turn [OF local] obtain rt1 where rt1: "Poll (disk_read (node_disk n)) (qn_runtime n) topic grp = Some (rt1, Inr None)"
        "local_ready (node_disk n) log topic grp rt1" "backlog log topic (consumerKey topic grp) rt1 = []"
      by (auto simp: s simp del: concat_eq_Nil_conv)
    from node_consume [OF base names rt1(1), of net send ids peers w] rt1(2,3) base show ?thesis
      by (auto simp: s http_ready_def simp del: concat_eq_Nil_conv set_concat)
  qed
  show "\<exists>s1 s2. http_consume lib base ?server topic grp s = (s1, Inr (Some m)) \<and> http_ack lib base ?server s1 (msg_ID m) = (s2, None) \<and>
      http_ready lib base log topic grp s2 \<and> map arrived (?backlog s2) = ms"
    if arrive: "map arrived (?backlog s) = m # ms" for m ms
  proof -
    obtain m0 ms0 where split: "?backlog s = m0 # ms0" "m = arrived m0" "ms = map arrived ms0"
      using arrive by (auto simp: map_eq_Cons_conv)
    with local_turn [OF local] obtain rt1 rt2 where rt2: "Poll (disk_read (node_disk n)) (qn_runtime n) topic grp = Some (rt1, Inr (Some m0))"
        "Ack None rt1 (msg_ID m0) = (rt2, None)" "local_ready (node_disk n) log topic grp rt2"
        "backlog log topic (consumerKey topic grp) rt2 = ms0"
      by (auto simp: s)
    have m0: "deliverable m0" and rest: "\<forall>m \<in> set ms0. deliverable m" using msgs split(1) by simp_all
    let ?n1 = "n\<lparr>qn_runtime := rt1\<rparr>" and ?n2 = "n\<lparr>qn_runtime := rt2\<rparr>"
    have consume: "http_consume lib base ?server topic grp s = ((w, ?n1), Inr (Some m))"
      using node_consume [OF base names rt2(1), of net send ids peers w] m0 by (simp add: s split(2))
    have ack: "http_ack lib base ?server (w, ?n1) (msg_ID m) = ((w, ?n2), None)"
      using node_ack [OF base, of "msg_ID m0" ?n1 rt2 net send ids peers w] m0 rt2(2)
      by (simp add: split(2) deliverable_def utf8_message_def)
    have "http_ready lib base log topic grp (w, ?n2)" "map arrived (?backlog (w, ?n2)) = ms"
      using base rt2(3,4) rest split(3) by (simp_all add: http_ready_def)
    with consume ack show ?thesis by blast
  qed
qed

text \<open>The environment of the runner in the processor's process: the HTTP client, \<^verbatim>\<open>json.Unmarshal\<close> and a store.\<close>

definition http_env ::
  "url_library \<Rightarrow> url \<Rightarrow> 's http_server \<Rightarrow> string \<Rightarrow> string \<Rightarrow> ('d \<Rightarrow> TelemetryRecord \<Rightarrow> 'd \<times> go_error option) \<Rightarrow> ('s, 'd) runner_env" where
  "http_env lib base server topic grp store =
     \<lparr>re_consume = http_consume lib base server topic grp, re_ack = http_ack lib base server, re_unmarshal = unmarshal_telemetry, re_insert = store\<rparr>"

text \<open>A queued record: its payload is the JSON of a record of well-formed strings, under an ID and a routing key of such strings.\<close>

definition carries :: "Message \<Rightarrow> TelemetryRecord \<Rightarrow> bool" where
  "carries m r \<longleftrightarrow> utf8_message m \<and> msg_ID m \<noteq> [] \<and> utf8_telemetry r \<and> msg_Payload m = bytes_of_string (telemetry_json r)"

lemma carries_deliverable: "carries m r \<Longrightarrow> deliverable m"
  using json_value_mono [OF telemetry_value [of r], of "max_nesting - 1"]
  by (simp add: carries_def deliverable_def telemetry_compact max_nesting_def)

lemma carries_decoded: "carries m r \<Longrightarrow> unmarshal_telemetry (msg_Payload (arrived m)) = Inr r"
  by (simp add: carries_def arrived_def telemetry_compact unmarshal_telemetry_def telemetry_decode)

lemma processor_over_http_run:
  fixes send :: "'w \<Rightarrow> RemoteReplicator \<Rightarrow> int \<Rightarrow> Record \<Rightarrow> 'w \<times> go_error option"
  assumes "reachable_base lib base" and "topic \<noteq> []" and "grp \<noteq> []"
    and "\<forall>p \<in> set (leaderPartitionIDs (qn_runtime n)). disk_holds (node_disk n) p (log p)"
    and "at_rest log (consumerKey topic grp) (qn_runtime n)"
    and "\<forall>m \<in> set (backlog log topic (consumerKey topic grp) (qn_runtime n)). carries m (record_of m)"
    and "\<forall>d r. store d r = (ins d r, None)"
    and "length (backlog log topic (consumerKey topic grp) (qn_runtime n)) \<le> turns"
  shows "\<exists>s' metrics'. processor_loop (replicate turns (http_env lib base (node_server net send ids peers) topic grp store, False)) (w, n) d metrics =
    (s', foldl ins d (map record_of (backlog log topic (consumerKey topic grp) (qn_runtime n))), metrics', False)"
proof -
  let ?backlog = "backlog log topic (consumerKey topic grp) (qn_runtime n)"
  let ?decoded = "\<lambda>m. case unmarshal_telemetry (msg_Payload m) of Inl _ \<Rightarrow> undefined | Inr r \<Rightarrow> r"
  have ready: "http_ready lib base log topic grp (w, n)"
    using assms(1-6) carries_deliverable by (auto simp: http_ready_def local_ready_def simp del: set_concat)
  have decoded: "\<forall>m \<in> set (map arrived ?backlog). unmarshal_telemetry (msg_Payload m) = Inr (?decoded m)"
    using assms(6) carries_decoded by (fastforce simp del: set_concat)
  have eq: "map ?decoded (map arrived ?backlog) = map record_of ?backlog"
    using assms(6) carries_decoded by (auto simp del: set_concat)
  have "length (map arrived ?backlog) \<le> turns" using assms(8) by simp
  from http_consumer.loop_persists [OF ready, unfolded snd_conv, OF decoded assms(7) this,
      where net = net and send = send and ids = ids and peers = peers and d = d and metrics = metrics]
  show ?thesis unfolding http_env_def eq by blast
qed

section \<open>The streamer over HTTP\<close>

text \<open>One publish of the HTTP producer, and one after the other.\<close>

definition http_publish :: "url_library \<Rightarrow> string \<Rightarrow> 's http_server \<Rightarrow> string \<Rightarrow> 's \<Rightarrow> Message \<Rightarrow> 's \<times> go_error option" where
  "http_publish lib publishURL server topic s m =
     ((case message_json topic (msg_ID m) (msg_RoutingKey m) (msg_Payload m) of
         Inl _ \<Rightarrow> s
       | Inr body \<Rightarrow> served lib server s (post_json publishURL body)),
      HTTPProducer_Publish (js_of_publish go_json) (answering lib server s) publishURL topic m)"

fun send_messages :: "('s \<Rightarrow> Message \<Rightarrow> 's \<times> go_error option) \<Rightarrow> 's \<Rightarrow> Message list \<Rightarrow> 's \<times> go_error option list" where
  "send_messages publish s [] = (s, [])"
| "send_messages publish s (m # ms) =
     (let (s1, e) = publish s m; (s2, es) = send_messages publish s1 ms in (s2, e # es))"

text \<open>No partition of the node waits for a follower.\<close>

definition unreplicated :: "Runtime \<Rightarrow> bool" where
  "unreplicated rt \<longleftrightarrow>
     (\<forall>replication pid c. rt_replication rt = Some replication \<longrightarrow> replication pid = Some c \<longrightarrow> rc_requiredFollowerAcks c \<le> 0)"

lemma producer_url:
  assumes "reachable_base lib base" and "ul_Parse lib queueURL = Inr base" and "NewHTTPProducer lib queueURL = Inr publishURL"
  shows "ul_Parse lib publishURL = Inr (base\<lparr>url_Path := ''/publish''\<rparr>)"
proof -
  have "url_Path base \<in> {[], ''/''}" using assms(1) by (simp add: reachable_base_def)
  then have "TrimRight (url_Path base) (CHR ''/'') @ ''/publish'' = ''/publish''"
    by (auto simp: TrimRight_def TrimRightP_def)
  with assms(2,3) reachable_baseD(2) [OF assms(1), of "''/publish''"] show ?thesis by (auto simp: NewHTTPProducer_def)
qed

lemma node_publish:
  fixes send :: "'w \<Rightarrow> RemoteReplicator \<Rightarrow> int \<Rightarrow> Record \<Rightarrow> 'w \<times> go_error option"
  assumes "ul_Parse lib publishURL = Inr u" and "url_Path u = ''/publish''" and "carries m r" and "msg_Topic m \<noteq> []"
    and "routePartition (qn_runtime n) (msg_Topic m) m = Inr pid" and "IsLeader (rt_partition (qn_runtime n)) pid"
    and "disk_holds (node_disk n) pid ms" and "storable m" and "length ms + 1 < 2 ^ 64" and "pid \<in> set ids" and "unreplicated (qn_runtime n)"
  shows "\<exists>w' n'. http_publish lib publishURL (node_server net send ids peers) (msg_Topic m) (w, n) m = ((w', n'), None) \<and>
    disk_holds (node_disk n') pid (ms @ [m]) \<and> qn_runtime n' = count_published (qn_runtime n) \<and>
    (\<forall>q ms'. q \<noteq> pid \<longrightarrow> disk_holds (node_disk n) q ms' \<longrightarrow> disk_holds (node_disk n') q ms')"
proof -
  let ?server = "node_server net send ids peers"
  have payload: "msg_Payload m = bytes_of_string (telemetry_json r)" and utf8: "utf8_message m" and mid: "msg_ID m \<noteq> []"
    using assms(3) by (simp_all add: carries_def)
  then obtain body where body: "message_json (msg_Topic m) (msg_ID m) (msg_RoutingKey m) (msg_Payload m) = Inr body"
    by (auto simp: message_json_def marshal_raw_def telemetry_compact)
  let ?request = "\<lparr>pr_Topic = msg_Topic m, pr_ID = msg_ID m, pr_RoutingKey = msg_RoutingKey m, pr_Payload = msg_Payload m\<rparr>"
  have m: "publish_message ?request = m" "m\<lparr>msg_Topic := msg_Topic m\<rparr> = m" by (simp_all add: publish_message_def)
  have "json_Decode publish_fields zero_request (body @ []) = Some ?request"
    using publish_decode [OF body, of "telemetry_json r" "Suc 0" "[]"] utf8 payload
    by (simp add: utf8_message_def telemetry_compact telemetry_value max_nesting_def)
  then have decode: "js_publish go_json body = Some ?request" by (simp add: go_json_def)
  have nonempty: "msg_Payload m \<noteq> []" using assms(8) by (simp add: storable_def)
  let ?r = "received_request u (post_json publishURL body)"
  obtain w1 fs1 st1 rt1 e where pub:
    "Publish send None io_ok ids w (qn_fs n) (qn_store n) (qn_runtime n) (msg_Topic m) m = (w1, fs1, st1, rt1, e)"
    by (metis prod_cases5)
  have "snd (coordinate send w c pid rc) = None" if "rt_replication (qn_runtime n) = Some replication" "replication pid = Some c" for replication c rc
    using assms(11) that by (auto simp: unreplicated_def coordinate_def)
  with Publish_local [where topic = "msg_Topic m" and message = m, unfolded m, OF assms(5-10) pub] have e: "e = None"
    and effect: "rt1 = count_published (qn_runtime n)" "disk_holds (fs1, st1) pid (ms @ [m])"
      "\<forall>q ms'. q \<noteq> pid \<longrightarrow> disk_holds (node_disk n) q ms' \<longrightarrow> disk_holds (fs1, st1) q ms'" by auto
  have "PublishHandler_ServeHTTP go_json net send io_ok ids peers w (qn_fs n) (qn_store n) (qn_runtime n) ?r = (w1, fs1, st1, rt1, reply 202)"
    using publish_handler_leader [of ?r go_json ?request "qn_runtime n" pid net send ids peers w "qn_fs n" "qn_store n", unfolded m] decode
      assms(4-6) mid nonempty pub e by (simp add: received_request_def post_json_def m)
  then have handled: "?server (w, n) ?r = Some ((w1, n\<lparr>qn_fs := fs1, qn_store := st1, qn_runtime := rt1\<rparr>), reply 202)"
    by (simp add: node_exec_def newQueueMux_def received_request_def assms(2))
  have url: "ul_Parse lib (req_URL (post_json publishURL body)) = Inr u" using assms(1) by (simp add: post_json_def)
  have "served lib ?server (w, n) (post_json publishURL body) = (w1, n\<lparr>qn_fs := fs1, qn_store := st1, qn_runtime := rt1\<rparr>)"
    using handled url by (simp add: served_def)
  moreover have "HTTPProducer_Publish (js_of_publish go_json) (answering lib ?server (w, n)) publishURL (msg_Topic m) m = None"
    using handled url body assms(1) by (simp add: HTTPProducer_Publish_def answering_def received_response_def go_json_def)
  ultimately show ?thesis
    using body effect
    by (intro exI [of _ w1] exI [of _ "n\<lparr>qn_fs := fs1, qn_store := st1, qn_runtime := rt1\<rparr>"]) (simp add: http_publish_def)
qed

section \<open>Replication over HTTP\<close>

text \<open>
  C30: Replication between two nodes, with the JSON of the wire: the leader's transport sends a record to the follower's server, which decodes
  exactly this record, and reports success exactly if the record's offset is the follower's next one. Then the follower's log has grown by
  the record's message; otherwise the follower is unchanged. A message whose strings are not well-formed UTF-8 would arrive altered.
\<close>

theorem replication_between_nodes:
  fixes send :: "'w \<Rightarrow> RemoteReplicator \<Rightarrow> int \<Rightarrow> Record \<Rightarrow> 'w \<times> go_error option"
    and net :: network and ids :: "int list" and peers :: "go_error + Node list" and w :: 'w
  assumes "disk_holds (node_disk n) pid ms" and "storable (rec_Message r)" and "length ms + 1 < 2 ^ 64" and "utf8_message (rec_Message r)"
    and "- (2 ^ 63) \<le> pid" and "pid < 2 ^ 63"
    and "ul_Parse lib (replication_url ''/internal/replicate'' follower) = Inr u" and "url_Path u = ''/internal/replicate''"
  defines "server \<equiv> node_server net send ids peers"
  defines "n' \<equiv> snd (served lib server (w, n) (post_json (replication_url ''/internal/replicate'' follower) (replication_json pid r)))"
  shows "(HTTPReplicationTransport_Replicate (js_of_replication go_json) (answering lib server (w, n)) ''/internal/replicate'' follower pid r = None
      \<longleftrightarrow> rec_Offset r = of_nat (length ms)) \<and>
    (if rec_Offset r = of_nat (length ms) then disk_holds (node_disk n') pid (ms @ [rec_Message r]) \<and> qn_runtime n' = qn_runtime n else n' = n)"
proof -
  let ?url = "replication_url ''/internal/replicate'' follower"
  let ?r = "received_request u (post_json ?url (replication_json pid r))"
  let ?req = "\<lparr>sr_Method = ''POST'', sr_Path = ''/internal/replicate'', sr_Query = [], sr_Body = replication_json pid r, sr_ctx = None\<rparr>"
  have same: "ReplicationHandler_ServeHTTP go_json io_ok fs st ?r = ReplicationHandler_ServeHTTP go_json io_ok fs st ?req" for fs st
    by (simp add: ReplicationHandler_ServeHTTP_def received_request_def post_json_def cong del: option.case_cong_weak prod.case_cong_weak)
  obtain fs' st' resp where handled: "ReplicationHandler_ServeHTTP go_json io_ok (qn_fs n) (qn_store n) ?req = (fs', st', resp)"
    by (metis prod_cases3)
  then have answer: "server (w, n) ?r = Some ((w, n\<lparr>qn_fs := fs', qn_store := st'\<rparr>), resp)"
    by (simp add: server_def node_exec_def newQueueMux_def same) (simp add: received_request_def assms(8))
  then have n': "n' = n\<lparr>qn_fs := fs', qn_store := st'\<rparr>"
    by (simp add: n'_def served_def assms(7) post_json_def)
  have "net_do (answering lib server (w, n)) (post_json ?url (replication_json pid r)) =
      Inr \<lparr>resp_StatusCode = w_Status resp, resp_Status = itoa (w_Status resp) @ '' '' @ StatusText (w_Status resp),
        resp_Header = w_Header resp, resp_Body = w_Body resp\<rparr>"
    using answer assms(7) by (simp add: answering_def post_json_def received_response_def)
  from replicate_over_http [OF assms(1-3) _ _ _ handled this] replication_roundtrip [OF assms(4-6)]
  show ?thesis by (cases n) (auto simp: go_json_def answering_def assms(7) n' split: if_splits)
qed

text \<open>A URL library that knows the URLs of one host.\<close>

definition sample_urls :: url_library where
  "sample_urls =
     \<lparr>ul_Parse = (\<lambda>s. if HasPrefix s ''http://q''
        then (let rest = drop 8 s in Inr \<lparr>url_Scheme = ''http'', url_Host = ''q'', url_Path = takeWhile (\<lambda>c. c \<noteq> CHR ''?'') rest,
            url_RawQuery = tl (dropWhile (\<lambda>c. c \<noteq> CHR ''?'') rest), url_rest = []\<rparr>)
        else Inl (Errorf ''parse'')),
      ul_String = (\<lambda>u. ''http://q'' @ url_Path u @ ''?'' @ url_RawQuery u)\<rparr>"

definition sample_base :: url where
  "sample_base = \<lparr>url_Scheme = ''http'', url_Host = ''q'', url_Path = [], url_RawQuery = [], url_rest = []\<rparr>"

lemma sample_base_reachable: "reachable_base sample_urls sample_base"
  by (auto simp: reachable_base_def sample_urls_def sample_base_def Let_def)

definition sample_follower :: Node where
  "sample_follower = \<lparr>node_ID = ''q-1'', node_Address = ''http://q/''\<rparr>"

theorem replication_between_nodes_witness:
  "HTTPReplicationTransport_Replicate (js_of_replication go_json)
      (answering sample_urls (node_server sample_network (\<lambda>w rr pid r. (w, None)) [0] (Inr [sample_node])) ((), sample_queue_node))
      ''/internal/replicate'' sample_follower 0 \<lparr>rec_Offset = 0, rec_Message = sample_message\<rparr> = None \<and>
    disk_holds (node_disk (snd (served sample_urls (node_server sample_network (\<lambda>w rr pid r. (w, None)) [0] (Inr [sample_node])) ((), sample_queue_node)
      (post_json ''http://q/internal/replicate'' (replication_json 0 \<lparr>rec_Offset = 0, rec_Message = sample_message\<rparr>))))) 0 [sample_message]"
proof -
  let ?r = "\<lparr>rec_Offset = 0, rec_Message = sample_message\<rparr>"
  have url: "replication_url ''/internal/replicate'' sample_follower = ''http://q/internal/replicate''" by code_simp
  obtain u where u: "ul_Parse sample_urls ''http://q/internal/replicate'' = Inr u" "url_Path u = ''/internal/replicate''"
    by (simp add: sample_urls_def Let_def)
  have utf8: "utf8_message sample_message" by code_simp
  have disk: "disk_holds (node_disk sample_queue_node) 0 []" using opened_disk_holds by (simp add: sample_queue_node_def)
  show ?thesis
    using replication_between_nodes [OF disk, of ?r sample_urls sample_follower u, unfolded url, OF _ _ _ _ _ u,
        where net = sample_network and send = "\<lambda>w rr pid r. (w, None)" and ids = "[0]" and peers = "Inr [sample_node]" and w = "()"]
    by (simp add: utf8)
qed

end
