(* ===== verification/Queue_Cluster.thy ===== *)
theory Queue_Cluster
  imports Queue_Handlers
begin

text \<open>
  A partition across the cluster: the leader's runtime with its store, and the followers' stores that its
  replicators reach. \<open>follower_send\<close> is what one replicator does: it appends the
  record to the store of its node, if the node can be reached, as the replication handler does.

  The lemmas show what a quorum gives and what the protocol does not repair. A
  publish that returns nil is on the leader and on at least the required number of followers. A follower that
  has missed a record rejects all later ones, because nothing sends it the missing one; and after a publish that
  failed for want of a quorum, the followers that had accepted the record keep it while the leader gives its offset to another message.
\<close>

section \<open>Followers\<close>

type_synonym followers = "string \<Rightarrow> disk_store"

definition follower_send ::
  "(string \<Rightarrow> bool) \<Rightarrow> followers \<Rightarrow> RemoteReplicator \<Rightarrow> int \<Rightarrow> Record \<Rightarrow> followers \<times> go_error option" where
  "follower_send reachable w rr pid r =
     (let id = node_ID (rr_node rr) in
      if \<not> reachable id then (w, Some (Wrapf (''replicate to node '' @ id @ '': '') (OSError ''connection refused'') []))
      else (case disk_append_record (w id) pid r of
          (s, None) \<Rightarrow> (w(id := s), None)
        | (s, Some e) \<Rightarrow> (w(id := s), Some (Wrapf (''replicate to node '' @ id @ '': '') e []))))"

definition replica_ids :: "ReplicationCoordinator \<Rightarrow> string list" where
  "replica_ids c = map (node_ID \<circ> rr_node) (rc_replicators c)"

text \<open>A follower takes the record exactly if it can be reached and its log has the record's offset as length.\<close>

definition accepts :: "(string \<Rightarrow> bool) \<Rightarrow> (string \<Rightarrow> Message list) \<Rightarrow> nat \<Rightarrow> string \<Rightarrow> bool" where
  "accepts reachable log n nid \<longleftrightarrow> reachable nid \<and> length (log nid) = n"

lemma of_nat_offset_eq:
  "m < 2 ^ 64 \<Longrightarrow> n < 2 ^ 64 \<Longrightarrow> (of_nat m :: Offset) = of_nat n \<longleftrightarrow> m = n"
  by (auto dest!: arg_cong [where f = unat] simp: unat_of_nat)

lemma follower_send_effect:
  fixes reachable :: "string \<Rightarrow> bool"
  assumes "disk_holds (w (node_ID (rr_node rr))) pid (log (node_ID (rr_node rr)))" and "storable m" and "n + 1 < 2 ^ 64"
  defines "sent \<equiv> follower_send reachable w rr pid \<lparr>rec_Offset = of_nat n, rec_Message = m\<rparr>"
    and "accepted \<equiv> accepts reachable log n (node_ID (rr_node rr))"
  shows "snd sent = None \<longleftrightarrow> accepted"
    and "nid \<noteq> node_ID (rr_node rr) \<Longrightarrow> fst sent nid = w nid"
    and "disk_holds (fst sent (node_ID (rr_node rr))) pid
      (if accepted then log (node_ID (rr_node rr)) @ [m] else log (node_ID (rr_node rr)))"
proof -
  let ?id = "node_ID (rr_node rr)"
  let ?r = "\<lparr>rec_Offset = of_nat n, rec_Message = m\<rparr>"
  have eq: "(of_nat n :: Offset) = of_nat (length (log ?id)) \<longleftrightarrow> length (log ?id) = n"
    using of_nat_offset_eq [of n "length (log ?id)"] ps.bound_law [OF assms(1)] assms(3) by auto
  have "(snd sent = None \<longleftrightarrow> accepted) \<and> (\<forall>nid. nid \<noteq> ?id \<longrightarrow> fst sent nid = w nid) \<and>
      disk_holds (fst sent ?id) pid (if accepted then log ?id @ [m] else log ?id)"
  proof (cases "reachable ?id")
    case False
    with assms(1) show ?thesis by (simp add: sent_def accepted_def follower_send_def accepts_def)
  next
    case True
    show ?thesis
    proof (cases "length (log ?id) = n")
      case yes: True
      with ps.accept_law [OF assms(1), of ?r] assms(2,3) eq obtain s where
        "disk_append_record (w ?id) pid ?r = (s, None)" "disk_holds s pid (log ?id @ [m])" by auto
      with True yes show ?thesis by (simp add: sent_def accepted_def follower_send_def accepts_def)
    next
      case no: False
      with ps.reject_law [OF assms(1), of ?r] eq obtain e where
        "disk_append_record (w ?id) pid ?r = (w ?id, Some e)" by auto
      with True no assms(1) show ?thesis by (simp add: sent_def accepted_def follower_send_def accepts_def)
    qed
  qed
  then show "snd sent = None \<longleftrightarrow> accepted" "nid \<noteq> ?id \<Longrightarrow> fst sent nid = w nid"
    "disk_holds (fst sent ?id) pid (if accepted then log ?id @ [m] else log ?id)"
    by blast+
qed

lemma send_all_effect:
  assumes "distinct (map (node_ID \<circ> rr_node) rrs)" and "\<And>rr. rr \<in> set rrs \<Longrightarrow> disk_holds (w (node_ID (rr_node rr))) pid (log (node_ID (rr_node rr)))"
    and "storable m" and "n + 1 < 2 ^ 64"
  shows "\<exists>w'. send_all (follower_send reachable) w rrs pid \<lparr>rec_Offset = of_nat n, rec_Message = m\<rparr> =
      (w', map (\<lambda>rr. accepts reachable log n (node_ID (rr_node rr))) rrs) \<and>
    (\<forall>id. id \<notin> set (map (node_ID \<circ> rr_node) rrs) \<longrightarrow> w' id = w id) \<and>
    (\<forall>rr \<in> set rrs. disk_holds (w' (node_ID (rr_node rr))) pid
      (if accepts reachable log n (node_ID (rr_node rr)) then log (node_ID (rr_node rr)) @ [m] else log (node_ID (rr_node rr))))"
  using assms(1,2)
proof (induction rrs arbitrary: w)
  case Nil
  then show ?case by simp
next
  case (Cons rr rrs)
  let ?r = "\<lparr>rec_Offset = of_nat n, rec_Message = m\<rparr>"
  let ?id = "node_ID (rr_node rr)"
  obtain w1 where w1: "fst (follower_send reachable w rr pid ?r) = w1"
      "snd (follower_send reachable w rr pid ?r) = None \<longleftrightarrow> accepts reachable log n ?id"
      "\<And>id. id \<noteq> ?id \<Longrightarrow> w1 id = w id"
      "disk_holds (w1 ?id) pid (if accepts reachable log n ?id then log ?id @ [m] else log ?id)"
    using follower_send_effect [where w = w and rr = rr and log = log and n = n and m = m and pid = pid and reachable = reachable] Cons.prems(2) [of rr] assms(3,4) by auto
  have other: "node_ID (rr_node x) \<noteq> ?id" if "x \<in> set rrs" for x
    using that Cons.prems(1) by (auto simp: image_iff)
  have "disk_holds (w1 (node_ID (rr_node x))) pid (log (node_ID (rr_node x)))" if "x \<in> set rrs" for x
    using Cons.prems(2) [of x] w1(3) other [OF that] that by simp
  from Cons.IH [OF _ this] Cons.prems(1) obtain w2 where w2:
      "send_all (follower_send reachable) w1 rrs pid ?r = (w2, map (\<lambda>rr. accepts reachable log n (node_ID (rr_node rr))) rrs)"
      "\<forall>id. id \<notin> set (map (node_ID \<circ> rr_node) rrs) \<longrightarrow> w2 id = w1 id"
      "\<forall>rr \<in> set rrs. disk_holds (w2 (node_ID (rr_node rr))) pid
        (if accepts reachable log n (node_ID (rr_node rr)) then log (node_ID (rr_node rr)) @ [m] else log (node_ID (rr_node rr)))"
    by auto
  have id: "w2 ?id = w1 ?id" using w2(2) Cons.prems(1) by auto
  show ?case
    using w1 w2 id by (intro exI [of _ w2]) (auto simp: case_prod_unfold Let_def)
qed

section \<open>A replicated partition\<close>

text \<open>
  The leader and its followers: the leader holds \<open>ms\<close>, every follower \<open>id\<close> its log \<open>log id\<close>.
\<close>

definition replicated :: "ReplicationCoordinator \<Rightarrow> int \<Rightarrow> disk_store \<Rightarrow> followers \<Rightarrow> Message list \<Rightarrow> (string \<Rightarrow> Message list) \<Rightarrow> bool" where
  "replicated c pid s w ms log \<longleftrightarrow> distinct (replica_ids c) \<and> disk_holds s pid ms \<and>
     (\<forall>nid \<in> set (replica_ids c). disk_holds (w nid) pid (log nid))"

text \<open>The publish of a message that the leader's router sends to \<open>pid\<close>, with the coordinator \<open>c\<close>.\<close>

definition leads :: "Runtime \<Rightarrow> ReplicationCoordinator \<Rightarrow> int \<Rightarrow> string \<Rightarrow> Message \<Rightarrow> bool" where
  "leads rt c pid topic m \<longleftrightarrow> routePartition rt topic m = Inr pid \<and> IsLeader (rt_partition rt) pid \<and>
     msg_Topic m = topic \<and> storable m \<and> (\<exists>replication. rt_replication rt = Some replication \<and> replication pid = Some c)"

definition follower_log :: "(string \<Rightarrow> bool) \<Rightarrow> (string \<Rightarrow> Message list) \<Rightarrow> nat \<Rightarrow> Message \<Rightarrow> string \<Rightarrow> Message list" where
  "follower_log reachable log n m nid = (if accepts reachable log n nid then log nid @ [m] else log nid)"

lemma coordinate_effect:
  assumes "replicated c pid s w ms log" and "storable m" and "length ms + 1 < 2 ^ 64"
    and "0 < rc_requiredFollowerAcks c" and "rc_requiredFollowerAcks c \<le> int (length (replica_ids c))"
  shows "\<exists>w'. coordinate (follower_send reachable) w c pid \<lparr>rec_Offset = of_nat (length ms), rec_Message = m\<rparr> =
      (w', if rc_requiredFollowerAcks c \<le> int (tally (accepts reachable log (length ms)) (replica_ids c))
           then None else Some ErrReplicationQuorum) \<and>
    (\<forall>nid \<in> set (replica_ids c). disk_holds (w' nid) pid (follower_log reachable log (length ms) m nid))"
proof -
  have ids: "distinct (map (node_ID \<circ> rr_node) (rc_replicators c))"
    "\<And>rr. rr \<in> set (rc_replicators c) \<Longrightarrow> disk_holds (w (node_ID (rr_node rr))) pid (log (node_ID (rr_node rr)))"
    using assms(1) by (auto simp: replicated_def replica_ids_def)
  obtain w' where w': "send_all (follower_send reachable) w (rc_replicators c) pid \<lparr>rec_Offset = of_nat (length ms), rec_Message = m\<rparr> =
      (w', map (\<lambda>rr. accepts reachable log (length ms) (node_ID (rr_node rr))) (rc_replicators c))"
    "\<forall>rr \<in> set (rc_replicators c). disk_holds (w' (node_ID (rr_node rr))) pid
      (if accepts reachable log (length ms) (node_ID (rr_node rr)) then log (node_ID (rr_node rr)) @ [m] else log (node_ID (rr_node rr)))"
    using send_all_effect [where log = log and reachable = reachable, OF ids assms(2,3)] by blast
  have "tally id (map (\<lambda>rr. accepts reachable log (length ms) (node_ID (rr_node rr))) (rc_replicators c)) =
      tally (accepts reachable log (length ms)) (replica_ids c)"
    by (simp add: tally_def replica_ids_def filter_map comp_def)
  with w' assms(4,5) show ?thesis
    by (intro exI [of _ w']) (auto simp: coordinate_def Replicate_result replica_ids_def follower_log_def)
qed

text \<open>One publish at the leader of a replicated partition.\<close>

lemma cluster_publish:
  assumes "replicated c pid (fs, st) w ms log" and "leads rt c pid topic m" and "length ms + 1 < 2 ^ 64" and "pid \<in> set ids"
    and "0 < rc_requiredFollowerAcks c" and "rc_requiredFollowerAcks c \<le> int (length (replica_ids c))"
    and "Publish (follower_send reachable) None io_ok ids w fs st rt topic m = (w', fs', st', rt', e)"
  shows "e = (if rc_requiredFollowerAcks c \<le> int (tally (accepts reachable log (length ms)) (replica_ids c))
      then None else Some ErrReplicationQuorum)"
    and "replicated c pid (fs', st') w' (if e = None then ms @ [m] else ms) (follower_log reachable log (length ms) m)"
    and "rt_partition rt' = rt_partition rt" and "rt_replication rt' = rt_replication rt"
proof -
  note lead = assms(2) [unfolded leads_def]
  have m: "m\<lparr>msg_Topic := topic\<rparr> = m" using lead by auto
  obtain replication where repl: "rt_replication rt = Some replication" "replication pid = Some c" using lead by blast
  have holds: "disk_holds (fs, st) pid ms" using assms(1) by (simp add: replicated_def)
  have storable: "storable m" using lead by blast
  obtain w1 where w1: "coordinate (follower_send reachable) w c pid \<lparr>rec_Offset = of_nat (length ms), rec_Message = m\<rparr> =
      (w1, if rc_requiredFollowerAcks c \<le> int (tally (accepts reachable log (length ms)) (replica_ids c))
           then None else Some ErrReplicationQuorum)"
    "\<forall>nid \<in> set (replica_ids c). disk_holds (w1 nid) pid (follower_log reachable log (length ms) m nid)"
    using coordinate_effect [OF assms(1) storable assms(3,5,6), of reachable] by blast
  obtain s1 where s1: "disk_append (fs, st) pid m = (s1, Inr (of_nat (length ms)))" "disk_holds s1 pid (ms @ [m])"
    using ps.append_law [OF holds storable assms(3)] by blast
  then have app: "append_published None io_ok fs st rt pid m = (fst s1, snd s1, count_published rt, None)"
    by (auto simp: append_published_def disk_append_def split: prod.splits)
  have off: "partitionNextOffset st ids pid = of_nat (length ms)"
    using partitionNextOffset_open [OF _ assms(4)] holds by (simp add: disk_holds_def partition_holds_def)
  have pub: "(w', fs', st', rt', e) = (if rc_requiredFollowerAcks c \<le> int (tally (accepts reachable log (length ms)) (replica_ids c))
      then (w1, fst s1, snd s1, count_published rt, None) else (w1, fs, st, rt, Some ErrReplicationQuorum))"
    using assms(7) lead repl w1(1) app off by (simp add: Publish_def m split: if_splits)
  show "e = (if rc_requiredFollowerAcks c \<le> int (tally (accepts reachable log (length ms)) (replica_ids c))
      then None else Some ErrReplicationQuorum)" using pub by (simp split: if_splits)
  show "replicated c pid (fs', st') w' (if e = None then ms @ [m] else ms) (follower_log reachable log (length ms) m)"
    using pub w1(2) s1(2) assms(1) by (auto simp: replicated_def split: if_splits)
  show "rt_partition rt' = rt_partition rt" "rt_replication rt' = rt_replication rt"
    using pub by (auto simp: count_published_def split: if_splits)
qed

section \<open>Properties of replication\<close>

lemma tally_card: "distinct xs \<Longrightarrow> tally P xs = card {x \<in> set xs. P x}"
  by (simp add: tally_def distinct_length_filter Int_def conj_commute)

text \<open>
  C29: A publish at the leader returns nil exactly if at least the required number of followers
  can be reached and are level with the leader, and then the message is at the same offset on the leader
  and on at least that many followers.
\<close>

theorem quorum_publish_durable:
  assumes "replicated c pid (fs, st) w ms log" and "leads rt c pid topic m" and "length ms + 1 < 2 ^ 64" and "pid \<in> set ids"
    and "0 < rc_requiredFollowerAcks c" and "rc_requiredFollowerAcks c \<le> int (length (replica_ids c))"
    and "Publish (follower_send reachable) None io_ok ids w fs st rt topic m = (w', fs', st', rt', e)"
  shows "(e = None \<longleftrightarrow> rc_requiredFollowerAcks c \<le>
      int (card {nid \<in> set (replica_ids c). reachable nid \<and> length (log nid) = length ms})) \<and>
    (e = None \<longrightarrow> disk_holds (fs', st') pid (ms @ [m]) \<and>
      rc_requiredFollowerAcks c \<le> int (card {nid \<in> set (replica_ids c).
        \<exists>l. length l = length ms \<and> disk_holds (w' nid) pid (l @ [m])}))"
proof -
  let ?ok = "{nid \<in> set (replica_ids c). reachable nid \<and> length (log nid) = length ms}"
  let ?has = "{nid \<in> set (replica_ids c). \<exists>l. length l = length ms \<and> disk_holds (w' nid) pid (l @ [m])}"
  note pub = cluster_publish [OF assms]
  have d: "distinct (replica_ids c)" using assms(1) by (simp add: replicated_def)
  have e: "e = (if rc_requiredFollowerAcks c \<le> int (card ?ok) then None else Some ErrReplicationQuorum)"
    using pub(1) tally_card [OF d, of "accepts reachable log (length ms)"] by (simp add: accepts_def)
  have "disk_holds (w' nid) pid (log nid @ [m])" if "nid \<in> ?ok" for nid
    using pub(2) that by (auto simp: replicated_def follower_log_def accepts_def)
  then have "?ok \<subseteq> ?has" by auto
  then have "card ?ok \<le> card ?has" by (intro card_mono) simp_all
  with e pub(2) show ?thesis by (auto simp: replicated_def)
qed

lemma leads_cong:
  "rt_partition rt' = rt_partition rt \<Longrightarrow> rt_replication rt' = rt_replication rt \<Longrightarrow>
    leads rt' c pid topic m \<longleftrightarrow> leads rt c pid topic m"
  by (simp add: leads_def routePartition_def)

text \<open>
  A publish that fails for want of a quorum is not undone. A follower that had accepted the record keeps it; when the
  next publish succeeds, the leader has its message at that offset and the follower still has the rejected one.
\<close>

lemma failed_quorum_diverges:
  assumes "replicated c pid (fs, st) w ms log" and "leads rt c pid topic m1" and "leads rt c pid topic m2" and "length ms + 1 < 2 ^ 64"
    and "pid \<in> set ids" and "0 < rc_requiredFollowerAcks c" and "rc_requiredFollowerAcks c \<le> int (length (replica_ids c))"
    and "nid \<in> set (replica_ids c)" and "reachable1 nid" and "log nid = ms"
    and "Publish (follower_send reachable1) None io_ok ids w fs st rt topic m1 = (w1, fs1, st1, rt1, Some e1)"
    and "Publish (follower_send reachable2) None io_ok ids w1 fs1 st1 rt1 topic m2 = (w2, fs2, st2, rt2, None)"
  shows "disk_holds (fs2, st2) pid (ms @ [m2]) \<and> disk_holds (w2 nid) pid (ms @ [m1])"
proof -
  note pub1 = cluster_publish [OF assms(1,2,4,5,6,7,11)]
  have repl1: "replicated c pid (fs1, st1) w1 ms (follower_log reachable1 log (length ms) m1)"
    using pub1(2) by simp
  have lead: "leads rt1 c pid topic m2" using leads_cong [OF pub1(3,4)] assms(3) by blast
  note pub2 = cluster_publish [OF repl1 lead assms(4,5,6,7,12)]
  have "follower_log reachable1 log (length ms) m1 nid = ms @ [m1]"
    using assms(9,10) by (simp add: follower_log_def accepts_def)
  with pub2(2) assms(8) show ?thesis by (auto simp: replicated_def follower_log_def accepts_def)
qed

text \<open>A sequence of publishes, each with the followers that can be reached at that time.\<close>

fun publish_all :: "int list \<Rightarrow> ((string \<Rightarrow> bool) \<times> string \<times> Message) list \<Rightarrow> followers \<Rightarrow> filesystem \<Rightarrow> PartitionStore \<Rightarrow>
    Runtime \<Rightarrow> followers \<times> filesystem \<times> PartitionStore \<times> Runtime" where
  "publish_all ids [] w fs st rt = (w, fs, st, rt)"
| "publish_all ids ((reachable, topic, m) # ps) w fs st rt =
     (case Publish (follower_send reachable) None io_ok ids w fs st rt topic m of
        (w1, fs1, st1, rt1, e) \<Rightarrow> publish_all ids ps w1 fs1 st1 rt1)"

lemma lagging_run:
  assumes "pid \<in> set ids" and "0 < rc_requiredFollowerAcks c" and "rc_requiredFollowerAcks c \<le> int (length (replica_ids c))"
    and "nid \<in> set (replica_ids c)"
    and "replicated c pid (fs, st) w ms log" and "length (log nid) < length ms" and "length ms + length ps < 2 ^ 64"
    and "\<forall>(reachable, topic, m) \<in> set ps. leads rt c pid topic m"
  shows "disk_holds (fst (publish_all ids ps w fs st rt) nid) pid (log nid)"
  using assms(5-8)
proof (induction ps arbitrary: w fs st rt ms log)
  case Nil
  then show ?case using assms(4) by (simp add: replicated_def)
next
  case (Cons p ps)
  obtain reachable topic m where p: "p = (reachable, topic, m)" by (metis prod_cases3)
  obtain w1 fs1 st1 rt1 e where pub: "Publish (follower_send reachable) None io_ok ids w fs st rt topic m = (w1, fs1, st1, rt1, e)"
    by (metis prod_cases5)
  have lead: "leads rt c pid topic m" and len: "length ms + 1 < 2 ^ 64" using Cons.prems(3,4) p by auto
  note step = cluster_publish [OF Cons.prems(1) lead len assms(1-3) pub]
  let ?ms = "if e = None then ms @ [m] else ms"
  have same: "follower_log reachable log (length ms) m nid = log nid"
    using Cons.prems(2) by (simp add: follower_log_def accepts_def)
  have "length (follower_log reachable log (length ms) m nid) < length ?ms" using same Cons.prems(2) by simp
  moreover have "length ?ms + length ps < 2 ^ 64" using Cons.prems(3) by simp
  moreover have "\<forall>(reachable, topic, m) \<in> set ps. leads rt1 c pid topic m"
    using Cons.prems(4) leads_cong [OF step(3,4)] by auto
  ultimately show ?case using Cons.IH [OF step(2)] pub same by (simp add: p)
qed

text \<open>
  C33: A follower that has missed a record never catches up: once its log is shorter than the leader's, no sequence of
  publishes adds anything to it, whichever followers can be reached and whether or not they succeed.
\<close>

theorem lagging_follower_never_catches_up:
  assumes "replicated c pid (fs, st) w ms log" and "nid \<in> set (replica_ids c)" and "length (log nid) < length ms"
    and "length ms + length ps < 2 ^ 64" and "pid \<in> set ids"
    and "0 < rc_requiredFollowerAcks c" and "rc_requiredFollowerAcks c \<le> int (length (replica_ids c))"
    and "\<forall>(reachable, topic, m) \<in> set ps. leads rt c pid topic m"
    and "publish_all ids ps w fs st rt = (w', fs', st', rt')"
  shows "disk_holds (w' nid) pid (log nid)"
  using lagging_run [OF assms(5-7,2,1,3,4,8)] assms(9) by simp

lemma ahead_run:
  assumes "pid \<in> set ids" and "0 < rc_requiredFollowerAcks c" and "rc_requiredFollowerAcks c = int (length (replica_ids c))"
    and "nid \<in> set (replica_ids c)"
    and "replicated c pid (fs, st) w ms log" and "length ms < length (log nid)" and "length ms + 1 < 2 ^ 64"
    and "\<forall>(reachable, topic, m) \<in> set ps. leads rt c pid topic m"
    and "publish_all ids ps w fs st rt = (w', fs', st', rt')"
  shows "disk_holds (fs', st') pid ms"
  using assms(5,6,8,9)
proof (induction ps arbitrary: w fs st rt log)
  case Nil
  then show ?case by (simp add: replicated_def)
next
  case (Cons p ps)
  obtain reachable topic m where p: "p = (reachable, topic, m)" by (metis prod_cases3)
  obtain w1 fs1 st1 rt1 e where pub: "Publish (follower_send reachable) None io_ok ids w fs st rt topic m = (w1, fs1, st1, rt1, e)"
    by (metis prod_cases5)
  have lead: "leads rt c pid topic m" using Cons.prems(3) p by auto
  have le: "rc_requiredFollowerAcks c \<le> int (length (replica_ids c))" using assms(3) by simp
  note step = cluster_publish [OF Cons.prems(1) lead assms(7,1,2) le pub]
  have "\<not> accepts reachable log (length ms) nid" using Cons.prems(2) by (simp add: accepts_def)
  then have "tally (accepts reachable log (length ms)) (replica_ids c) \<noteq> length (replica_ids c)"
    using tally_full [of "accepts reachable log (length ms)" "replica_ids c" nid] assms(4) by auto
  then have "e \<noteq> None"
    using step(1) assms(3) tally_le [of "accepts reachable log (length ms)" "replica_ids c"] by simp
  then have repl: "replicated c pid (fs1, st1) w1 ms (follower_log reachable log (length ms) m)" using step(2) by auto
  have "length ms < length (follower_log reachable log (length ms) m nid)"
    using Cons.prems(2) by (simp add: follower_log_def)
  moreover have "\<forall>(reachable, topic, m) \<in> set ps. leads rt1 c pid topic m"
    using Cons.prems(3) leads_cong [OF step(3,4)] by auto
  ultimately show ?case using Cons.IH [OF repl] pub Cons.prems(4) by (simp add: p)
qed

text \<open>
  C32: With all followers required, as in the repository's configuration, one publish that fails after a level follower has accepted
  it stops the partition for good: the follower stays one record ahead and rejects the leader's next
  offset, so no later publish is accepted, a retry of the same message included, even when all followers can be reached again.
\<close>

theorem failed_quorum_blocks_partition:
  assumes "replicated c pid (fs, st) w ms log" and "leads rt c pid topic m" and "length ms + 1 < 2 ^ 64" and "pid \<in> set ids"
    and "0 < rc_requiredFollowerAcks c" and "rc_requiredFollowerAcks c = int (length (replica_ids c))"
    and "nid \<in> set (replica_ids c)" and "reachable nid" and "length (log nid) = length ms"
    and "Publish (follower_send reachable) None io_ok ids w fs st rt topic m = (w1, fs1, st1, rt1, Some e)"
    and "\<forall>(reachable, topic, m) \<in> set ps. leads rt c pid topic m"
    and "publish_all ids ps w1 fs1 st1 rt1 = (w2, fs2, st2, rt2)"
  shows "disk_holds (fs2, st2) pid ms"
proof -
  have le: "rc_requiredFollowerAcks c \<le> int (length (replica_ids c))" using assms(6) by simp
  note pub = cluster_publish [OF assms(1,2,3,4,5) le assms(10)]
  have repl: "replicated c pid (fs1, st1) w1 ms (follower_log reachable log (length ms) m)" using pub(2) by simp
  have ahead: "length ms < length (follower_log reachable log (length ms) m nid)"
    using assms(8,9) by (simp add: follower_log_def accepts_def)
  have "\<forall>(reachable, topic, m) \<in> set ps. leads rt1 c pid topic m"
    using assms(11) leads_cong [OF pub(3,4)] by auto
  from ahead_run [OF assms(4-7) repl ahead assms(3) this assms(12)] show ?thesis .
qed

section \<open>A sample cluster\<close>

text \<open>
  Three nodes, the first one the leader of partition 0, and both followers required, as in the repository's
  \<^verbatim>\<open>config/config.yaml\<close>.
\<close>

definition sample_coordinator :: ReplicationCoordinator where
  "sample_coordinator = \<lparr>rc_replicators = [\<lparr>rr_node = sample_nodes ! 1\<rparr>, \<lparr>rr_node = sample_nodes ! 2\<rparr>],
     rc_requiredFollowerAcks = 2\<rparr>"

definition sample_leader_runtime :: Runtime where
  "sample_leader_runtime = NewRuntime (NewPartitionManager (sample_nodes ! 0) (AssignPartitions sample_nodes 1 3))
     (Some [0 \<mapsto> sample_coordinator])"

lemma sample_replica_ids [simp]: "replica_ids sample_coordinator = [''q1'', ''q2'']"
  by (simp add: replica_ids_def sample_coordinator_def sample_nodes_def)

lemma sample_required [simp]: "rc_requiredFollowerAcks sample_coordinator = 2"
  by (simp add: sample_coordinator_def)

lemma sample_replicated: "replicated sample_coordinator 0 (opened_disk 0) (\<lambda>_. opened_disk 0) [] (\<lambda>_. [])"
  by (simp add: replicated_def)

lemma sample_leads:
  assumes "storable m"
  shows "leads sample_leader_runtime sample_coordinator 0 (msg_Topic m) m"
proof -
  have ps: "AssignPartitions sample_nodes 1 3 =
      [\<lparr>part_ID = 0, part_Replicas = map (assign_replica sample_nodes 0) [0..<3]\<rparr>]"
    by (simp add: AssignPartitions_def sample_nodes_def)
  have "IsLeader (NewPartitionManager (sample_nodes ! 0) (AssignPartitions sample_nodes 1 3)) 0"
    by (subst IsLeader_assigned) simp_all
  with ps assms show ?thesis
    by (simp add: leads_def sample_leader_runtime_def NewRuntime_def routePartition_def PartitionManager_Partitions_def
        NewPartitionManager_def Route_eq)
qed

theorem quorum_publish_durable_witness:
  "\<exists>w' fs' st' rt'. Publish (follower_send (\<lambda>_. True)) None io_ok [0] (\<lambda>_. opened_disk 0) (fst (opened_disk 0)) (snd (opened_disk 0))
       sample_leader_runtime (msg_Topic sample_message) sample_message = (w', fs', st', rt', None) \<and>
     disk_holds (fs', st') 0 [sample_message]"
proof -
  obtain w' fs' st' rt' e where pub: "Publish (follower_send (\<lambda>_. True)) None io_ok [0] (\<lambda>_. opened_disk 0) (fst (opened_disk 0))
      (snd (opened_disk 0)) sample_leader_runtime (msg_Topic sample_message) sample_message = (w', fs', st', rt', e)"
    by (metis prod_cases5)
  have "storable sample_message" by simp
  note lead = sample_leads [OF this]
  have "{nid \<in> set (replica_ids sample_coordinator). True \<and> length ([] :: Message list) = length ([] :: Message list)} = {''q1'', ''q2''}"
    by auto
  then show ?thesis
    using quorum_publish_durable [OF _ lead _ _ _ _ pub, of "[]" "\<lambda>_. []"] sample_replicated pub by auto
qed

lemma sample_failed_publish:
  "\<exists>w1 fs1 st1 rt1. Publish (follower_send (\<lambda>nid. nid = ''q1'')) None io_ok [0] (\<lambda>_. opened_disk 0) (fst (opened_disk 0)) (snd (opened_disk 0))
     sample_leader_runtime (msg_Topic sample_message) sample_message = (w1, fs1, st1, rt1, Some ErrReplicationQuorum)"
proof -
  obtain w' fs' st' rt' e where pub: "Publish (follower_send (\<lambda>nid. nid = ''q1'')) None io_ok [0] (\<lambda>_. opened_disk 0) (fst (opened_disk 0))
      (snd (opened_disk 0)) sample_leader_runtime (msg_Topic sample_message) sample_message = (w', fs', st', rt', e)"
    by (metis prod_cases5)
  have "storable sample_message" by simp
  note lead = sample_leads [OF this]
  have "e = Some ErrReplicationQuorum"
    using cluster_publish(1) [OF _ lead _ _ _ _ pub, of "[]" "\<lambda>_. []"] sample_replicated by (simp add: accepts_def)
  with pub show ?thesis by blast
qed

lemma sample_message_storable: "storable sample_message"
  by simp

theorem failed_quorum_blocks_partition_witness:
  "\<exists>w1 fs1 st1 rt1 w2 fs2 st2 rt2. Publish (follower_send (\<lambda>nid. nid = ''q1'')) None io_ok [0] (\<lambda>_. opened_disk 0)
       (fst (opened_disk 0)) (snd (opened_disk 0)) sample_leader_runtime (msg_Topic sample_message) sample_message =
         (w1, fs1, st1, rt1, Some ErrReplicationQuorum) \<and>
     publish_all [0] [(\<lambda>_. True, msg_Topic sample_message, sample_message)] w1 fs1 st1 rt1 = (w2, fs2, st2, rt2) \<and>
     disk_holds (fs2, st2) 0 []"
proof -
  obtain w1 fs1 st1 rt1 where pub: "Publish (follower_send (\<lambda>nid. nid = ''q1'')) None io_ok [0] (\<lambda>_. opened_disk 0) (fst (opened_disk 0))
      (snd (opened_disk 0)) sample_leader_runtime (msg_Topic sample_message) sample_message = (w1, fs1, st1, rt1, Some ErrReplicationQuorum)"
    using sample_failed_publish by blast
  obtain w2 fs2 st2 rt2 where all: "publish_all [0] [(\<lambda>_. True, msg_Topic sample_message, sample_message)] w1 fs1 st1 rt1 = (w2, fs2, st2, rt2)"
    by (metis prod_cases4)
  have repl: "replicated sample_coordinator 0 (fst (opened_disk 0), snd (opened_disk 0)) (\<lambda>_. opened_disk 0) [] (\<lambda>_. [])"
    using sample_replicated by simp
  have "disk_holds (fs2, st2) 0 []"
    by (rule failed_quorum_blocks_partition [OF repl sample_leads [OF sample_message_storable] _ _ _ _ _ _ _ pub _ all, of "''q1''"])
       (simp_all add: sample_leads)
  with pub all show ?thesis by blast
qed

theorem lagging_follower_never_catches_up_witness:
  "\<exists>s w' fs' st' rt'. disk_append (opened_disk 0) 0 sample_message = (s, Inr 0) \<and>
     publish_all [0] [(\<lambda>_. True, msg_Topic sample_message, sample_message)] (\<lambda>_. opened_disk 0) (fst s) (snd s) sample_leader_runtime =
       (w', fs', st', rt') \<and>
     disk_holds (w' ''q1'') 0 []"
proof -
  obtain s where s: "disk_append (opened_disk 0) 0 sample_message = (s, Inr 0)" "disk_holds s 0 [sample_message]"
    using one_message_disk by blast
  obtain w' fs' st' rt' where all: "publish_all [0] [(\<lambda>_. True, msg_Topic sample_message, sample_message)] (\<lambda>_. opened_disk 0)
      (fst s) (snd s) sample_leader_runtime = (w', fs', st', rt')"
    by (metis prod_cases4)
  have "replicated sample_coordinator 0 (fst s, snd s) (\<lambda>_. opened_disk 0) [sample_message] (\<lambda>_. [])"
    using s(2) by (simp add: replicated_def)
  then have "disk_holds (w' ''q1'') 0 []"
    by (rule lagging_follower_never_catches_up [OF _ _ _ _ _ _ _ _ all]) (simp_all add: sample_leads)
  with s(1) all show ?thesis by blast
qed

end
