(* ===== verification/Telemetry_Api.thy ===== *)
theory Telemetry_Api
  imports Telemetry_Store "HOL-Library.Mapping"
begin

text \<open>
  The query API (package \<^verbatim>\<open>api\<close> and the routes of \<^verbatim>\<open>cmd/api\<close>): parsing of the time window and the limit, the
  handlers for GPUs and telemetry, and the HTTP metrics middleware with its histogram. Parsing
  an RFC 3339 time and a duration are arguments, and so are the store and the JSON encoder. A
  measured duration is a number of nanoseconds: a bucket's bound in seconds is the same bound
  in nanoseconds, and the sum is kept exactly where the code adds floating-point numbers.
\<close>

section \<open>Time windows and limits\<close>

record time_parsers =
  tp_time :: "string \<Rightarrow> int option"
  tp_duration :: "string \<Rightarrow> int option"
  tp_now :: int

abbreviation query_get :: "server_request \<Rightarrow> string \<Rightarrow> string" where
  "query_get r key \<equiv> first_value (sr_Query r) key"

definition firstQueryValue :: "server_request \<Rightarrow> string \<Rightarrow> string \<Rightarrow> string" where
  "firstQueryValue r primary fallback =
     (let v = query_get r primary in if v = [] \<and> fallback \<noteq> [] then query_get r fallback else v)"

definition parseRequiredTime :: "time_parsers \<Rightarrow> server_request \<Rightarrow> string \<Rightarrow> string \<Rightarrow> go_error + int" where
  "parseRequiredTime tp r primary fallback =
     (let v = firstQueryValue r primary fallback in
      if v = [] then Inl (Errorf (primary @ '' is required''))
      else (case tp_time tp v of
          None \<Rightarrow> Inl (Errorf (primary @ '' must be RFC3339''))
        | Some t \<Rightarrow> Inr t))"

definition parseTimeWindow ::
  "time_parsers \<Rightarrow> server_request \<Rightarrow> string \<Rightarrow> string \<Rightarrow> string \<Rightarrow> string \<Rightarrow> go_error + int \<times> int" where
  "parseTimeWindow tp r startPrimary startFallback endPrimary endFallback =
     (let windowValue = query_get r ''window'';
          startValue = firstQueryValue r startPrimary startFallback;
          endValue = firstQueryValue r endPrimary endFallback
      in if windowValue \<noteq> [] then
           (if startValue \<noteq> [] then Inl (Errorf (startPrimary @ '' cannot be used with window''))
            else (case tp_duration tp windowValue of
                None \<Rightarrow> Inl (Errorf ''window must be a positive duration such as 5m or 1h'')
              | Some duration \<Rightarrow>
                  if duration \<le> 0 then Inl (Errorf ''window must be a positive duration such as 5m or 1h'')
                  else if endValue = [] then Inr (tp_now tp - duration, tp_now tp)
                  else (case tp_time tp endValue of
                      None \<Rightarrow> Inl (Errorf (endPrimary @ '' must be RFC3339''))
                    | Some end \<Rightarrow> Inr (end - duration, end))))
         else sum_bind (parseRequiredTime tp r startPrimary startFallback) (\<lambda>start.
              sum_bind (parseRequiredTime tp r endPrimary endFallback) (\<lambda>end. Inr (start, end))))"

definition parseLimit :: "server_request \<Rightarrow> go_error + int" where
  "parseLimit r =
     (let raw = query_get r ''limit'' in
      if raw = [] then Inr 0
      else (case atoi raw of
          None \<Rightarrow> Inl (Errorf ''limit must be a non-negative integer'')
        | Some parsed \<Rightarrow> if parsed < 0 then Inl (Errorf ''limit must be a non-negative integer'') else Inr parsed))"

section \<open>Handlers\<close>

record 'a api_store =
  as_list :: "go_error + GPU list"
  as_query :: "Query \<Rightarrow> go_error + 'a list"
  as_of_gpus :: "GPU list \<Rightarrow> go_error + string"
  as_of_samples :: "'a list \<Rightarrow> go_error + string"
  as_of_gpu_samples :: "string \<Rightarrow> 'a list \<Rightarrow> go_error + string"

definition NotFound :: server_response where
  "NotFound = http_Error ''404 page not found'' 404"

definition write_json :: "go_error + string \<Rightarrow> server_response" where
  "write_json encoded =
     (case encoded of
        Inl e \<Rightarrow> http_Error (Error e) 500
      | Inr body \<Rightarrow> reply_body ''application/json'' (body @ [newline]))"

definition HealthHandler :: "server_request \<Rightarrow> server_response" where
  "HealthHandler r =
     (if sr_Method r \<noteq> ''GET'' then MethodNotAllowed
      else reply_body ''application/json''
        (''{'' @ [char_of (34 :: nat)] @ ''status'' @ [char_of (34 :: nat)] @ '':'' @ [char_of (34 :: nat)] @ ''ok'' @ [char_of (34 :: nat)] @ ''}''))"

definition window_query :: "server_request \<Rightarrow> string \<Rightarrow> int \<times> int \<Rightarrow> int \<Rightarrow> Query" where
  "window_query r uuid window limit =
     \<lparr>q_Start = fst window, q_End = snd window, q_MetricName = query_get r ''metric_name'', q_UUID = uuid,
      q_Hostname = query_get r ''hostname'', q_GPUID = query_get r ''gpu_id'', q_Device = query_get r ''device'',
      q_Limit = limit\<rparr>"

definition TelemetryHandler_ServeHTTP :: "time_parsers \<Rightarrow> 'a api_store \<Rightarrow> server_request \<Rightarrow> server_response" where
  "TelemetryHandler_ServeHTTP tp store r =
     (if sr_Method r \<noteq> ''GET'' then MethodNotAllowed
      else (case parseTimeWindow tp r ''start'' [] ''end'' [] of
          Inl e \<Rightarrow> http_Error (Error e) 400
        | Inr window \<Rightarrow>
            (case parseLimit r of
               Inl e \<Rightarrow> http_Error (Error e) 400
             | Inr limit \<Rightarrow>
                 (case as_query store (window_query r (query_get r ''uuid'') window limit) of
                    Inl e \<Rightarrow> http_Error (Error e) 500
                  | Inr results \<Rightarrow> write_json (as_of_samples store results)))))"

definition GPUListHandler_ServeHTTP :: "'a api_store \<Rightarrow> server_request \<Rightarrow> server_response" where
  "GPUListHandler_ServeHTTP store r =
     (if sr_Method r \<noteq> ''GET'' then MethodNotAllowed
      else if TrimSuffix (sr_Path r) ''/'' \<noteq> ''/api/v1/gpus'' then NotFound
      else (case as_list store of
          Inl e \<Rightarrow> http_Error (Error e) 500
        | Inr results \<Rightarrow> write_json (as_of_gpus store results)))"

definition gpuTelemetry :: "time_parsers \<Rightarrow> 'a api_store \<Rightarrow> server_request \<Rightarrow> string \<Rightarrow> server_response" where
  "gpuTelemetry tp store r gpuID =
     (case parseTimeWindow tp r ''start_time'' ''start'' ''end_time'' ''end'' of
        Inl e \<Rightarrow> http_Error (Error e) 400
      | Inr window \<Rightarrow>
          (case parseLimit r of
             Inl e \<Rightarrow> http_Error (Error e) 400
           | Inr limit \<Rightarrow>
               (case as_query store (window_query r gpuID window limit) of
                  Inl e \<Rightarrow> http_Error (Error e) 500
                | Inr results \<Rightarrow> write_json (as_of_gpu_samples store gpuID results))))"

definition gpu_path_parts :: "string \<Rightarrow> string list" where
  "gpu_path_parts path = Split (TrimPrefix path ''/api/v1/gpus/'') (CHR ''/'')"

definition GPUTelemetryHandler_ServeHTTP :: "time_parsers \<Rightarrow> 'a api_store \<Rightarrow> server_request \<Rightarrow> server_response" where
  "GPUTelemetryHandler_ServeHTTP tp store r =
     (if sr_Method r \<noteq> ''GET'' then MethodNotAllowed
      else (let parts = gpu_path_parts (TrimSuffix (sr_Path r) ''/'') in
        if length parts \<noteq> 2 \<or> parts ! 1 \<noteq> ''telemetry'' \<or> parts ! 0 = [] then NotFound
        else gpuTelemetry tp store r (parts ! 0)))"

section \<open>HTTP metrics\<close>

datatype requestMetricKey = requestMetricKey (rk_Method: string) (rk_Path: string) (rk_Status: string)

datatype durationMetricKey = durationMetricKey (dk_Method: string) (dk_Path: string)

text \<open>The orders of the sorted keys: path, method, status.\<close>

definition request_key_le :: "requestMetricKey \<Rightarrow> requestMetricKey \<Rightarrow> bool" where
  "request_key_le a b \<longleftrightarrow>
     (if rk_Path a \<noteq> rk_Path b then rk_Path a < rk_Path b
      else if rk_Method a \<noteq> rk_Method b then rk_Method a < rk_Method b
      else rk_Status a \<le> rk_Status b)"

definition duration_key_le :: "durationMetricKey \<Rightarrow> durationMetricKey \<Rightarrow> bool" where
  "duration_key_le a b \<longleftrightarrow> (if dk_Path a \<noteq> dk_Path b then dk_Path a < dk_Path b else dk_Method a \<le> dk_Method b)"

instantiation requestMetricKey :: linorder
begin

definition less_eq_requestMetricKey :: "requestMetricKey \<Rightarrow> requestMetricKey \<Rightarrow> bool" where
  "less_eq_requestMetricKey a b \<longleftrightarrow> request_key_le a b"

definition less_requestMetricKey :: "requestMetricKey \<Rightarrow> requestMetricKey \<Rightarrow> bool" where
  "less_requestMetricKey a b \<longleftrightarrow> a \<le> b \<and> a \<noteq> b"

instance
  by standard
     (auto simp: less_eq_requestMetricKey_def less_requestMetricKey_def request_key_le_def requestMetricKey.expand split: if_splits)

end

instantiation durationMetricKey :: linorder
begin

definition less_eq_durationMetricKey :: "durationMetricKey \<Rightarrow> durationMetricKey \<Rightarrow> bool" where
  "less_eq_durationMetricKey a b \<longleftrightarrow> duration_key_le a b"

definition less_durationMetricKey :: "durationMetricKey \<Rightarrow> durationMetricKey \<Rightarrow> bool" where
  "less_durationMetricKey a b \<longleftrightarrow> a \<le> b \<and> a \<noteq> b"

instance
  by standard
     (auto simp: less_eq_durationMetricKey_def less_durationMetricKey_def duration_key_le_def durationMetricKey.expand split: if_splits)

end

record durationHistogram =
  dh_Buckets :: "uint64 list"
  dh_Count :: uint64
  dh_Sum :: int

record HTTPMetrics =
  hm_requestCounts :: "(requestMetricKey, uint64) mapping"
  hm_durationHistograms :: "(durationMetricKey, durationHistogram) mapping"

definition NewHTTPMetrics :: HTTPMetrics where
  "NewHTTPMetrics = \<lparr>hm_requestCounts = Mapping.empty, hm_durationHistograms = Mapping.empty\<rparr>"

text \<open>The bounds in nanoseconds, with the text of the bound in seconds.\<close>

definition httpDurationBuckets :: "(int \<times> string) list" where
  "httpDurationBuckets =
     [(5000000, ''0.005''), (10000000, ''0.01''), (25000000, ''0.025''), (50000000, ''0.05''), (100000000, ''0.1''),
      (250000000, ''0.25''), (500000000, ''0.5''), (1000000000, ''1''), (2500000000, ''2.5''), (5000000000, ''5'')]"

definition fresh_histogram :: durationHistogram where
  "fresh_histogram = \<lparr>dh_Buckets = replicate (length httpDurationBuckets) 0, dh_Count = 0, dh_Sum = 0\<rparr>"

definition add_duration :: "durationHistogram \<Rightarrow> int \<Rightarrow> durationHistogram" where
  "add_duration h duration =
     \<lparr>dh_Buckets = map2 (\<lambda>(bound, _) n. if duration \<le> bound then n + 1 else n) httpDurationBuckets (dh_Buckets h),
      dh_Count = dh_Count h + 1, dh_Sum = dh_Sum h + duration\<rparr>"

definition lookup_or :: "'v \<Rightarrow> ('k, 'v) mapping \<Rightarrow> 'k \<Rightarrow> 'v" where
  "lookup_or v m k = (case Mapping.lookup m k of None \<Rightarrow> v | Some x \<Rightarrow> x)"

definition observe :: "HTTPMetrics \<Rightarrow> string \<Rightarrow> string \<Rightarrow> int \<Rightarrow> int \<Rightarrow> HTTPMetrics" where
  "observe m method path status duration =
     (let key = requestMetricKey method path (itoa status); histogramKey = durationMetricKey method path in
      \<lparr>hm_requestCounts = Mapping.update key (lookup_or 0 (hm_requestCounts m) key + 1) (hm_requestCounts m),
       hm_durationHistograms = Mapping.update histogramKey
         (add_duration (lookup_or fresh_histogram (hm_durationHistograms m) histogramKey) duration) (hm_durationHistograms m)\<rparr>)"

definition normalizeMetricPath :: "string \<Rightarrow> string" where
  "normalizeMetricPath path =
     (let trimmedPath = TrimSuffix path ''/'' in
      if trimmedPath = [] then ''/''
      else if trimmedPath \<in> set [''/api/v1/gpus'', ''/telemetry'', ''/health'', ''/metrics'', ''/openapi.json'', ''/swagger'', ''/swagger.json'']
        then trimmedPath
      else if HasPrefix trimmedPath ''/swagger/'' then ''/swagger''
      else if HasPrefix trimmedPath ''/api/v1/gpus/'' then
        (let parts = gpu_path_parts trimmedPath in
         if length parts = 2 \<and> parts ! 0 \<noteq> [] \<and> parts ! 1 = ''telemetry'' then ''/api/v1/gpus/{id}/telemetry'' else ''unmatched'')
      else ''unmatched'')"

definition shouldSkipMetricPath :: "string \<Rightarrow> bool" where
  "shouldSkipMetricPath path \<longleftrightarrow> path = ''/metrics'' \<or> path = ''/health''"

text \<open>\<open>elapsed\<close> is the time the inner handler took.\<close>

definition HTTPMetrics_Middleware ::
  "(server_request \<Rightarrow> server_response) option \<Rightarrow> HTTPMetrics option \<Rightarrow> server_request \<Rightarrow> int \<Rightarrow> HTTPMetrics option \<times> server_response" where
  "HTTPMetrics_Middleware next m r elapsed =
     (let next = (case next of None \<Rightarrow> (\<lambda>_. NotFound) | Some h \<Rightarrow> h);
          normalizedPath = normalizeMetricPath (sr_Path r); response = next r in
      if shouldSkipMetricPath normalizedPath then (m, response)
      else (map_option (\<lambda>m. observe m (sr_Method r) normalizedPath (w_Status response) elapsed) m, response))"

text \<open>The copy that the page is written from; no metrics are empty metrics.\<close>

definition HTTPMetrics_snapshot :: "HTTPMetrics option \<Rightarrow> HTTPMetrics" where
  "HTTPMetrics_snapshot m = (case m of None \<Rightarrow> \<lparr>hm_requestCounts = Mapping.empty, hm_durationHistograms = Mapping.empty\<rparr> | Some x \<Rightarrow> x)"

definition sortedRequestMetricKeys :: "(requestMetricKey, uint64) mapping \<Rightarrow> requestMetricKey list" where
  "sortedRequestMetricKeys values = Mapping.ordered_keys values"

definition sortedDurationMetricKeys :: "(durationMetricKey, durationHistogram) mapping \<Rightarrow> durationMetricKey list" where
  "sortedDurationMetricKeys values = Mapping.ordered_keys values"

definition request_line :: "HTTPMetrics \<Rightarrow> requestMetricKey \<Rightarrow> string" where
  "request_line m key =
     ''api_http_requests_total{method='' @ Quote (rk_Method key) @ '',path='' @ Quote (rk_Path key) @ '',status='' @
     Quote (rk_Status key) @ ''} '' @ itoa (uint (lookup_or 0 (hm_requestCounts m) key)) @ [newline]"

definition duration_lines :: "(int \<Rightarrow> string) \<Rightarrow> HTTPMetrics \<Rightarrow> durationMetricKey \<Rightarrow> string" where
  "duration_lines format6 m key =
     (let h = lookup_or fresh_histogram (hm_durationHistograms m) key;
          labels = ''{method='' @ Quote (dk_Method key) @ '',path='' @ Quote (dk_Path key);
          bucket = (\<lambda>le n. ''api_http_request_duration_seconds_bucket'' @ labels @ '',le='' @ Quote le @ ''} '' @ itoa (uint n) @ [newline])
      in concat (map2 (\<lambda>(_, le) n. bucket le n) httpDurationBuckets (dh_Buckets h)) @
         bucket ''+Inf'' (dh_Count h) @
         ''api_http_request_duration_seconds_sum'' @ labels @ ''} '' @ format6 (dh_Sum h) @ [newline] @
         ''api_http_request_duration_seconds_count'' @ labels @ ''} '' @ itoa (uint (dh_Count h)) @ [newline])"

definition HTTPMetrics_ServeHTTP :: "(int \<Rightarrow> string) \<Rightarrow> HTTPMetrics option \<Rightarrow> server_request \<Rightarrow> server_response" where
  "HTTPMetrics_ServeHTTP format6 metrics r =
     (if sr_Method r \<noteq> ''GET'' then MethodNotAllowed
      else let m = HTTPMetrics_snapshot metrics in
        reply_body ''text/plain; version=0.0.4''
        (''# HELP api_http_requests_total Total HTTP requests served by the API.'' @ [newline] @
         ''# TYPE api_http_requests_total counter'' @ [newline] @
         concat (map (request_line m) (sortedRequestMetricKeys (hm_requestCounts m))) @
         ''# HELP api_http_request_duration_seconds API HTTP request duration in seconds.'' @ [newline] @
         ''# TYPE api_http_request_duration_seconds histogram'' @ [newline] @
         concat (map (duration_lines format6 m) (sortedDurationMetricKeys (hm_durationHistograms m)))))"

section \<open>Routes\<close>

text \<open>
  \<^verbatim>\<open>newMux\<close>: a pattern that ends in a slash matches every path that begins with it, any other pattern only
  itself. The pages of the API description are arguments.
\<close>

definition api_newMux ::
  "time_parsers \<Rightarrow> (int \<Rightarrow> string) \<Rightarrow> 'a api_store \<Rightarrow> HTTPMetrics option \<Rightarrow> (server_request \<Rightarrow> server_response) \<Rightarrow>
     (server_request \<Rightarrow> server_response) \<Rightarrow> server_request \<Rightarrow> server_response" where
  "api_newMux tp format6 store metrics openapi swagger r =
     (let path = sr_Path r in
      if path = ''/api/v1/gpus'' then GPUListHandler_ServeHTTP store r
      else if HasPrefix path ''/api/v1/gpus/'' then GPUTelemetryHandler_ServeHTTP tp store r
      else if path = ''/telemetry'' then TelemetryHandler_ServeHTTP tp store r
      else if path = ''/metrics'' then HTTPMetrics_ServeHTTP format6 metrics r
      else if path = ''/openapi.json'' \<or> path = ''/swagger.json'' then openapi r
      else if path = ''/swagger'' then swagger r
      else if path = ''/health'' then HealthHandler r
      else NotFound)"

section \<open>Properties of the API\<close>

text \<open>The labels of the metrics are a fixed set, whatever paths clients ask for.\<close>

lemma normalizeMetricPath_range:
  "normalizeMetricPath path \<in> set [''/'', ''/api/v1/gpus'', ''/telemetry'', ''/health'', ''/metrics'', ''/openapi.json'',
     ''/swagger'', ''/swagger.json'', ''/api/v1/gpus/{id}/telemetry'', ''unmatched'']"
  by (auto simp: normalizeMetricPath_def Let_def)

text \<open>
  The list handler accepts a trailing slash, but the routes send that path to the other handler, which answers 404.
\<close>

lemma gpu_list_trailing_slash:
  assumes "sr_Method r = ''GET''" and "sr_Path r = ''/api/v1/gpus/''"
  shows "api_newMux tp format6 store metrics openapi swagger r = NotFound \<and>
    (\<forall>gpus body. as_list store = Inr gpus \<longrightarrow> as_of_gpus store gpus = Inr body \<longrightarrow> w_Status (GPUListHandler_ServeHTTP store r) = 200)"
  using assms
  by (simp add: api_newMux_def GPUTelemetryHandler_ServeHTTP_def gpu_path_parts_def TrimSuffix_def HasSuffix_def
      TrimPrefix_def GPUListHandler_ServeHTTP_def write_json_def)

type_synonym observation = "string \<times> string \<times> int \<times> int"

definition observe_all :: "observation list \<Rightarrow> HTTPMetrics" where
  "observe_all obs = foldl (\<lambda>m (method, path, status, duration). observe m method path status duration) NewHTTPMetrics obs"

definition seen :: "observation list \<Rightarrow> string \<Rightarrow> string \<Rightarrow> observation list" where
  "seen obs method path = filter (\<lambda>(m, p, _, _). m = method \<and> p = path) obs"

lemma lookup_or_update [simp]: "lookup_or v (Mapping.update k x m) k' = (if k' = k then x else lookup_or v m k')"
  by (simp add: lookup_or_def lookup_update')

lemma lookup_or_empty [simp]: "lookup_or v Mapping.empty k = v"
  by (simp add: lookup_or_def lookup_empty)

lemma observe_all_snoc:
  "observe_all (obs @ [(method, path, status, duration)]) = observe (observe_all obs) method path status duration"
  by (simp add: observe_all_def)

lemma seen_snoc:
  "seen (obs @ [(m, p, st, d)]) method path = seen obs method path @ (if m = method \<and> p = path then [(m, p, st, d)] else [])"
  by (simp add: seen_def)

lemma zip_map_self: "zip xs (map g xs) = map (\<lambda>x. (x, g x)) xs"
  by (induction xs) simp_all

text \<open>
  The metrics count every observation exactly once: the histogram's count is the number of observations of its method and path, the bucket of each bound the
  number of those that took at most that long, and the counter of each status the number with that status.
\<close>

lemma histogram_exact:
  "let h = lookup_or fresh_histogram (hm_durationHistograms (observe_all obs)) (durationMetricKey method path);
       reqs = seen obs method path
   in dh_Count h = of_nat (length reqs) \<and>
      dh_Buckets h = map (\<lambda>(bound, _). of_nat (length (filter (\<lambda>(_, _, _, d). d \<le> bound) reqs))) httpDurationBuckets \<and>
      dh_Sum h = sum_list (map (\<lambda>(_, _, _, d). d) reqs) \<and>
      lookup_or 0 (hm_requestCounts (observe_all obs)) (requestMetricKey method path (itoa status)) =
        of_nat (length (filter (\<lambda>(_, _, s, _). s = status) reqs))"
proof (induction obs rule: rev_induct)
  case Nil
  then show ?case
    by (simp add: observe_all_def NewHTTPMetrics_def fresh_histogram_def seen_def map_replicate_const case_prod_unfold)
next
  case (snoc o1 obs)
  obtain m p st d where o1: "o1 = (m, p, st, d)" by (metis prod_cases4)
  show ?case
  proof (cases "m = method \<and> p = path")
    case True
    with snoc show ?thesis
      by (auto simp: o1 observe_all_snoc seen_snoc observe_def Let_def add_duration_def case_prod_unfold zip_map_self add.commute)
  next
    case False
    with snoc show ?thesis
      by (auto simp: o1 observe_all_snoc seen_snoc observe_def Let_def)
  qed
qed

end
