(* ===== verification/Service_Config.thy ===== *)
theory Service_Config
  imports Queue_Cluster Processor Telemetry_Api
begin

text \<open>
  The configuration record and its validation (\<^verbatim>\<open>internal/config\<close>), the loggers and the request log (\<^verbatim>\<open>internal/logging\<close>) and
  the options of the streamer and the processor (\<^verbatim>\<open>cmd\<close>). The YAML decoder is an
  argument. The environment is the function \<^verbatim>\<open>os.Getenv\<close>.
\<close>

section \<open>Configuration\<close>

record LoggingConfig =
  lc_Level :: string
  lc_Format :: string
  lc_AddSource :: bool

record Config =
  cfg_Logging :: LoggingConfig
  cfg_DatabaseURL :: string
  cfg_DataDir :: string
  cfg_Partitions :: int
  cfg_SegmentSizeBytes :: int
  cfg_Factor :: int
  cfg_RequiredFollowerAcks :: int
  cfg_SpoolDir :: string
  cfg_MaxSpoolBytes :: int
  cfg_RetryInitial :: int
  cfg_RetryMax :: int
  cfg_Workers :: int
  cfg_PollInterval :: int
  cfg_RetryInterval :: int
  cfg_Host :: string
  cfg_Port :: int

definition normalizedLevel :: "LoggingConfig \<Rightarrow> string" where
  "normalizedLevel c = ToLower (TrimSpace (lc_Level c))"

definition normalizedFormat :: "LoggingConfig \<Rightarrow> string" where
  "normalizedFormat c = ToLower (TrimSpace (lc_Format c))"

definition Validate :: "Config \<Rightarrow> go_error option" where
  "Validate c =
     (if normalizedLevel (cfg_Logging c) \<notin> {[], ''debug'', ''info'', ''warn'', ''error''}
        then Some (Errorf ''logging level must be one of debug, info, warn, or error'')
      else if normalizedFormat (cfg_Logging c) \<notin> {[], ''text'', ''json''}
        then Some (Errorf ''logging format must be one of text or json'')
      else if cfg_DatabaseURL c = [] then Some (Errorf ''database url is required'')
      else if cfg_DataDir c = [] then Some (Errorf ''queue data directory is required'')
      else if cfg_Partitions c \<le> 0 then Some (Errorf ''queue partitions must be greater than zero'')
      else if cfg_SegmentSizeBytes c \<le> 0 then Some (Errorf ''queue segment size must be greater than zero'')
      else if cfg_Factor c \<le> 0 then Some (Errorf ''queue replication factor must be greater than zero'')
      else if cfg_Factor c > 1 \<and> cfg_RequiredFollowerAcks c \<le> 0
        then Some (Errorf ''queue required follower acknowledgements must be greater than zero when replication is enabled'')
      else if cfg_RequiredFollowerAcks c \<ge> cfg_Factor c
        then Some (Errorf ''queue required follower acknowledgements must be less than replication factor'')
      else if cfg_SpoolDir c = [] then Some (Errorf ''streamer spool directory is required'')
      else if cfg_MaxSpoolBytes c \<le> 0 then Some (Errorf ''streamer max spool size must be greater than zero'')
      else if cfg_RetryInitial c \<le> 0 then Some (Errorf ''streamer initial retry interval must be greater than zero'')
      else if cfg_RetryMax c < cfg_RetryInitial c
        then Some (Errorf ''streamer max retry interval must be greater than or equal to initial retry interval'')
      else if cfg_Workers c \<le> 0 then Some (Errorf ''collector workers must be greater than zero'')
      else if cfg_PollInterval c \<le> 0 then Some (Errorf ''processor poll interval must be greater than zero'')
      else if cfg_RetryInterval c \<le> 0 then Some (Errorf ''processor retry interval must be greater than zero'')
      else if cfg_Host c = [] then Some (Errorf ''api host is required'')
      else if cfg_Port c \<le> 0 \<or> cfg_Port c > 65535 then Some (Errorf ''api port must be between 1 and 65535'')
      else None)"

text \<open>\<open>data\<close> is the file's contents or the error of reading it.\<close>

definition Load :: "(string \<Rightarrow> go_error + Config) \<Rightarrow> go_error + string \<Rightarrow> go_error + Config" where
  "Load unmarshal data =
     (case data of
        Inl e \<Rightarrow> Inl (Wrapf ''read config file: '' e [])
      | Inr bytes \<Rightarrow>
          (case unmarshal bytes of
             Inl e \<Rightarrow> Inl (Wrapf ''parse config file: '' e [])
           | Inr cfg \<Rightarrow>
               (case Validate cfg of
                  Some e \<Rightarrow> Inl (Wrapf ''validate config: '' e [])
                | None \<Rightarrow> Inr cfg)))"

section \<open>Logging\<close>

datatype log_level = LevelDebug | LevelInfo | LevelWarn | LevelError

datatype log_format = TextHandler | JSONHandler

definition parseLevel :: "string \<Rightarrow> go_error + log_level" where
  "parseLevel v =
     (let l = ToLower (TrimSpace v) in
      if l = [] \<or> l = ''info'' then Inr LevelInfo
      else if l = ''debug'' then Inr LevelDebug
      else if l = ''warn'' then Inr LevelWarn
      else if l = ''error'' then Inr LevelError
      else Inl (Errorf (''unsupported log level '' @ Quote v)))"

definition normalizeFormat :: "string \<Rightarrow> string" where
  "normalizeFormat v = ToLower (TrimSpace v)"

text \<open>
  A logger: its handler, the lowest level it writes, whether it adds the source, and the attributes it adds to every line. \<^verbatim>\<open>Configure\<close>
  installs the default logger, from which \<^verbatim>\<open>Component\<close> makes the loggers of the components.
\<close>

record Logger =
  lo_format :: log_format
  lo_level :: log_level
  lo_addSource :: bool
  lo_attrs :: "(string \<times> string) list"

definition Configure :: "LoggingConfig \<Rightarrow> go_error + Logger" where
  "Configure c =
     sum_bind (parseLevel (lc_Level c)) (\<lambda>level.
       let f = normalizeFormat (lc_Format c) in
       if f = [] \<or> f = ''text'' then Inr \<lparr>lo_format = TextHandler, lo_level = level, lo_addSource = lc_AddSource c, lo_attrs = []\<rparr>
       else if f = ''json'' then Inr \<lparr>lo_format = JSONHandler, lo_level = level, lo_addSource = lc_AddSource c, lo_attrs = []\<rparr>
       else Inl (Errorf (''unsupported log format '' @ Quote (lc_Format c))))"

definition Component :: "Logger \<Rightarrow> string \<Rightarrow> Logger" where
  "Component default_logger name =
     (if name = [] then default_logger
      else default_logger\<lparr>lo_attrs := lo_attrs default_logger @ [(''component'', name)]\<rparr>)"

fun severity :: "log_level \<Rightarrow> int" where
  "severity LevelDebug = - 4"
| "severity LevelInfo = 0"
| "severity LevelWarn = 4"
| "severity LevelError = 8"

text \<open>
  The request log: one line per request that the logger writes if its level is enabled; \<open>elapsed\<close> is the time the handler took, in nanoseconds.
\<close>

record request_log =
  lg_attrs :: "(string \<times> string) list"
  lg_level :: log_level
  lg_method :: string
  lg_path :: string
  lg_status :: int
  lg_duration_ms :: int
  lg_bytes :: nat

definition request_line_log :: "Logger \<Rightarrow> server_request \<Rightarrow> server_response \<Rightarrow> int \<Rightarrow> request_log option" where
  "request_line_log logger r response elapsed =
     (let level = (if w_Status response \<ge> 500 then LevelError else if w_Status response \<ge> 400 then LevelWarn else LevelInfo)
      in if severity (lo_level logger) \<le> severity level
         then Some \<lparr>lg_attrs = lo_attrs logger, lg_level = level, lg_method = sr_Method r, lg_path = sr_Path r, lg_status = w_Status response,
                    lg_duration_ms = elapsed div 1000000, lg_bytes = length (w_Body response)\<rparr>
         else None)"

definition logging_Middleware ::
  "Logger \<Rightarrow> Logger option \<Rightarrow> (server_request \<Rightarrow> server_response) \<Rightarrow> server_request \<Rightarrow> int \<Rightarrow> request_log option \<times> server_response" where
  "logging_Middleware default_logger logger next r elapsed =
     (let logger = (case logger of None \<Rightarrow> Component default_logger ''http'' | Some l \<Rightarrow> l); response = next r
      in (request_line_log logger r response elapsed, response))"

section \<open>Options of the programs\<close>

record processorOptions =
  po_queueURL :: string
  po_topic :: string
  po_group :: string
  po_databaseURL :: string
  po_metricsAddr :: string

definition resolveProcessorOptions :: "(string \<Rightarrow> string) \<Rightarrow> Config \<Rightarrow> processorOptions" where
  "resolveProcessorOptions env cfg =
     \<lparr>po_queueURL = env_or env ''PROCESSOR_QUEUE_URL'' (''http://127.0.0.1:'' @ itoa (cfg_Port cfg)),
      po_topic = env_or env ''PROCESSOR_TOPIC'' ''gpu'',
      po_group = env_or env ''PROCESSOR_GROUP'' ''processor'',
      po_databaseURL = env_or env ''PROCESSOR_DATABASE_URL'' (cfg_DatabaseURL cfg),
      po_metricsAddr = env_or env ''PROCESSOR_METRICS_ADDR'' '':9090''\<rparr>"

record streamerOptions =
  so_csvPath :: string
  so_queueURL :: string
  so_topic :: string

definition resolveStreamerOptions :: "(string \<Rightarrow> string) \<Rightarrow> Config \<Rightarrow> go_error + streamerOptions" where
  "resolveStreamerOptions env cfg =
     (if env ''STREAMER_CSV_PATH'' = [] then Inl (Errorf ''STREAMER_CSV_PATH is required'')
      else Inr \<lparr>so_csvPath = env ''STREAMER_CSV_PATH'',
                so_queueURL = env_or env ''STREAMER_QUEUE_URL'' (''http://127.0.0.1:'' @ itoa (cfg_Port cfg)),
                so_topic = env_or env ''STREAMER_TOPIC'' ''gpu''\<rparr>)"

text \<open>The text behind the last hyphen, if there is a hyphen.\<close>

definition after_last_hyphen :: "string \<Rightarrow> string option" where
  "after_last_hyphen s =
     (if CHR ''-'' \<in> set s then Some (rev (takeWhile (\<lambda>c. c \<noteq> CHR ''-'') (rev s))) else None)"

definition parseStatefulSetOrdinal :: "string \<Rightarrow> go_error + int" where
  "parseStatefulSetOrdinal podName =
     (case after_last_hyphen podName of
        None \<Rightarrow> Inl (Errorf (''POD_NAME '' @ Quote podName @ '' does not contain a StatefulSet ordinal''))
      | Some suffix \<Rightarrow>
          if suffix = [] then Inl (Errorf (''POD_NAME '' @ Quote podName @ '' does not contain a StatefulSet ordinal''))
          else (case atoi suffix of
              None \<Rightarrow> Inl (Errorf (''POD_NAME '' @ Quote podName @ '' does not contain a valid StatefulSet ordinal''))
            | Some ordinal \<Rightarrow> Inr ordinal))"

definition shard_count :: "(string \<Rightarrow> string) \<Rightarrow> go_error + int" where
  "shard_count env =
     (let raw = env ''STREAMER_SHARD_COUNT'' in
      if raw = [] then Inr 1
      else (case atoi raw of
          None \<Rightarrow> Inl (Errorf ''STREAMER_SHARD_COUNT must be a positive integer'')
        | Some parsed \<Rightarrow> if parsed \<le> 0 then Inl (Errorf ''STREAMER_SHARD_COUNT must be a positive integer'') else Inr parsed))"

definition resolveShardConfig :: "(string \<Rightarrow> string) \<Rightarrow> go_error + int \<times> int" where
  "resolveShardConfig env =
     sum_bind (shard_count env) (\<lambda>shardCount.
       let raw = env ''STREAMER_SHARD_INDEX'' in
       if raw \<noteq> [] then
         (case atoi raw of
            None \<Rightarrow> Inl (Errorf ''STREAMER_SHARD_INDEX must be an integer'')
          | Some shardIndex \<Rightarrow>
              if shardIndex < 0 \<or> shardCount \<le> shardIndex
              then Inl (Errorf ''STREAMER_SHARD_INDEX must be between 0 and STREAMER_SHARD_COUNT - 1'')
              else Inr (shardIndex, shardCount))
       else if shardCount = 1 then Inr (0, 1)
       else (let podName = env ''POD_NAME'' in
         if podName = [] then Inl (Errorf ''POD_NAME is required when STREAMER_SHARD_COUNT is greater than 1'')
         else sum_bind (parseStatefulSetOrdinal podName) (\<lambda>shardIndex.
           if shardCount \<le> shardIndex
           then Inl (Errorf (''pod ordinal '' @ itoa shardIndex @ '' must be less than STREAMER_SHARD_COUNT '' @ itoa shardCount))
           else Inr (shardIndex, shardCount))))"

section \<open>Properties of the configuration\<close>

lemma digits_atoi_nonneg: "CHR ''-'' \<notin> set s \<Longrightarrow> atoi s = Some i \<Longrightarrow> 0 \<le> i"
  by (cases s) (auto simp: atoi_def Let_def split: if_splits)

lemma after_last_hyphen_no_hyphen: "after_last_hyphen s = Some t \<Longrightarrow> CHR ''-'' \<notin> set t"
  by (auto simp: after_last_hyphen_def split: if_splits dest: set_takeWhileD)

text \<open>A shard configuration that is accepted is one that the replayer accepts.\<close>

lemma resolveShardConfig_valid:
  assumes "resolveShardConfig env = Inr (shardIndex, shardCount)"
  shows "0 \<le> shardIndex \<and> shardIndex < shardCount"
proof -
  have "0 \<le> i" if "parseStatefulSetOrdinal s = Inr i" for s i
    using that digits_atoi_nonneg after_last_hyphen_no_hyphen
    by (auto simp: parseStatefulSetOrdinal_def split: option.splits if_splits)
  with assms show ?thesis
    by (auto simp: resolveShardConfig_def sum_bind_eq_Inr Let_def split: if_splits option.splits)
qed

text \<open>The logger accepts every configuration that validation accepts.\<close>

lemma Validate_Configure: "Validate c = None \<Longrightarrow> \<exists>logger. Configure (cfg_Logging c) = Inr logger"
  by (auto simp: Validate_def Configure_def parseLevel_def normalizeFormat_def normalizedLevel_def normalizedFormat_def
      Let_def split: if_splits)

end
