(* ===== verification/Queue_Startup.thy ===== *)
theory Queue_Startup
  imports Service_Config Queue_Node
begin

text \<open>
  Starting a queue node (\<^verbatim>\<open>run\<close> of \<^verbatim>\<open>cmd/queue/main.go\<close>): from a validated configuration and the discovered nodes to the
  opened partitions, the coordinators of the partitions the node leads, and the runtime. The lemmas show that the quorum of
  a valid configuration can be reached, and follow a node from its start on files that a crash may have torn through
  any sequence of requests.
\<close>

section \<open>Starting a queue node\<close>

fun open_partitions :: "io \<Rightarrow> filesystem \<Rightarrow> PartitionStore \<Rightarrow> Partition list \<Rightarrow> filesystem \<times> PartitionStore \<times> go_error option" where
  "open_partitions io fs st [] = (fs, st, None)"
| "open_partitions io fs st (p # parts) =
     (case OpenPartition io fs st (part_ID p) of
        (fs1, st1, Some e) \<Rightarrow> (fs1, st1, Some (Wrapf (''open partition '' @ itoa (part_ID p) @ '': '') e []))
      | (fs1, st1, None) \<Rightarrow> open_partitions io fs1 st1 parts)"

definition coordinators :: "Config \<Rightarrow> PartitionManager \<Rightarrow> Node list \<Rightarrow> Partition list \<Rightarrow> int \<rightharpoonup> ReplicationCoordinator" where
  "coordinators cfg pm nodes parts =
     map_of (map (\<lambda>p. (part_ID p, \<lparr>rc_replicators = ForPartition p nodes, rc_requiredFollowerAcks = cfg_RequiredFollowerAcks cfg\<rparr>))
       (rev (filter (\<lambda>p. IsLeader pm (part_ID p)) parts)))"

text \<open>
  The part of \<^verbatim>\<open>run\<close> between discovery and the HTTP server. \<open>hostname\<close> is the environment's \<^verbatim>\<open>HOSTNAME\<close>.
\<close>

definition start_node :: "io \<Rightarrow> filesystem \<Rightarrow> Config \<Rightarrow> Node list \<Rightarrow> string \<Rightarrow> go_error + filesystem \<times> PartitionStore \<times> Runtime" where
  "start_node io fs cfg nodes hostname =
     (if hostname = [] then Inl (Errorf ''HOSTNAME is required'')
      else sum_bind (findLocalNode nodes hostname) (\<lambda>localNode.
        let partitions = AssignPartitions nodes (cfg_Partitions cfg) (cfg_Factor cfg);
            pm = NewPartitionManager localNode partitions;
            st = NewPartitionStore (cfg_DataDir cfg)
              \<lparr>qc_SegmentSizeBytes = cfg_SegmentSizeBytes cfg, qc_ReplicationFactor = cfg_Factor cfg,
               qc_RequiredFollowerAcks = cfg_RequiredFollowerAcks cfg\<rparr>
        in case open_partitions io fs st partitions of
             (fs1, st1, Some e) \<Rightarrow> Inl e
           | (fs1, st1, None) \<Rightarrow> Inr (fs1, st1, NewRuntime pm (Some (coordinators cfg pm nodes partitions)))))"

section \<open>Properties of start-up\<close>

lemma await_nodes_enough: "await_nodes c factor polls = Inr nodes \<Longrightarrow> factor \<le> int (length nodes)"
  by (induction polls) (auto split: sum.splits if_splits)

lemma map_of_filtered:
  assumes "distinct (map key xs)" and "x \<in> set xs" and "P x"
  shows "map_of (map (\<lambda>x. (key x, f x)) (rev (filter P xs))) (key x) = Some (f x)"
proof (rule map_of_is_SomeI)
  have "distinct (map key (filter P xs))" using assms(1) by (rule distinct_map_filter)
  then have "distinct (rev (map key (filter P xs)))" by simp
  then show "distinct (map fst (map (\<lambda>x. (key x, f x)) (rev (filter P xs))))" by (simp add: comp_def rev_map)
  show "(key x, f x) \<in> set (map (\<lambda>x. (key x, f x)) (rev (filter P xs)))" using assms(2,3) by auto
qed

lemma start_node_runtime:
  assumes "start_node io fs cfg nodes hostname = Inr (fs', st', rt)"
  defines "ps \<equiv> AssignPartitions nodes (cfg_Partitions cfg) (cfg_Factor cfg)"
  shows "\<exists>n. findLocalNode nodes hostname = Inr n \<and>
    rt = NewRuntime (NewPartitionManager n ps) (Some (coordinators cfg (NewPartitionManager n ps) nodes ps))"
proof -
  obtain fs1 st1 e where opened: "open_partitions io fs (NewPartitionStore (cfg_DataDir cfg)
      \<lparr>qc_SegmentSizeBytes = cfg_SegmentSizeBytes cfg, qc_ReplicationFactor = cfg_Factor cfg,
       qc_RequiredFollowerAcks = cfg_RequiredFollowerAcks cfg\<rparr>) ps = (fs1, st1, e)"
    by (metis prod_cases3)
  with assms(1) show ?thesis
    by (cases e) (auto simp: start_node_def ps_def sum_bind_eq_Inr Let_def split: if_splits)
qed


definition sample_config :: Config where
  "sample_config =
     \<lparr>cfg_Logging = \<lparr>lc_Level = ''info'', lc_Format = ''json'', lc_AddSource = True\<rparr>, cfg_DatabaseURL = ''postgres'',
      cfg_DataDir = ''data'', cfg_Partitions = 1, cfg_SegmentSizeBytes = 67108864, cfg_Factor = 2, cfg_RequiredFollowerAcks = 1,
      cfg_SpoolDir = ''spool'', cfg_MaxSpoolBytes = 1073741824, cfg_RetryInitial = 1000000000, cfg_RetryMax = 30000000000,
      cfg_Workers = 2, cfg_PollInterval = 250000000, cfg_RetryInterval = 1000000000, cfg_Host = ''0.0.0.0'', cfg_Port = 8080\<rparr>"

definition sample_pods :: "Node list" where
  "sample_pods = map (pod_node sample_kubernetes) [sample_pod ''q-0'', sample_pod ''q-1'']"

lemma sample_await: "await_nodes sample_kubernetes (cfg_Factor sample_config) [Inr [sample_pod ''q-1'', sample_pod ''q-0'']] = Inr sample_pods"
  by (simp add: KubernetesCluster_Nodes_def sample_pod_def podDiscoverable_def sample_config_def sample_pods_def)

lemma sample_pods_ids: "map node_ID sample_pods = [''q-0'', ''q-1'']"
  by (simp add: sample_pods_def sample_pod_def)

lemma sample_start:
  "\<exists>fs' st' rt. start_node io_ok Map.empty sample_config sample_pods ''q-0'' = Inr (fs', st', rt) \<and> IsLeader (rt_partition rt) 0"
proof -
  let ?st = "NewPartitionStore ''data'' \<lparr>qc_SegmentSizeBytes = 67108864, qc_ReplicationFactor = 2, qc_RequiredFollowerAcks = 1\<rparr>"
  let ?ps = "AssignPartitions sample_pods 1 2"
  have ids: "map part_ID ?ps = [0]" by (simp add: AssignPartitions_def sample_pods_def)
  obtain fs1 st1 where "OpenPartition io_ok Map.empty ?st 0 = (fs1, st1, None)"
    using OpenPartition_holds [of ?st 0 "[]" Map.empty "[]"] by (auto simp: NewPartitionStore_def)
  then have opened: "open_partitions io_ok Map.empty ?st ?ps = (fs1, st1, None)"
    using ids by (cases ?ps) auto
  have local: "findLocalNode sample_pods ''q-0'' = Inr (sample_pods ! 0)"
    by (simp add: findLocalNode_def sample_pods_def sample_pod_def)
  have "sample_pods \<noteq> []" by (simp add: sample_pods_def)
  then have "IsLeader (NewPartitionManager (sample_pods ! 0) ?ps) 0" by (subst IsLeader_assigned) simp_all
  with opened local show ?thesis
    by (simp add: start_node_def sample_config_def NewRuntime_def Let_def)
qed


section \<open>The life of a node\<close>

lemma open_partitions_holds:
  assumes "distinct (map part_ID parts)" and "\<forall>p \<in> part_ID ` set parts. st_states st p = None"
    and "\<forall>p \<in> part_ID ` set parts. on_disk fs (segmentPath st p 0) (log p)"
  shows "\<exists>fs' st'. open_partitions io_ok fs st parts = (fs', st', None) \<and> st_dataDir st' = st_dataDir st \<and>
    (\<forall>p \<in> part_ID ` set parts. disk_holds (fs', st') p (log p)) \<and>
    dom (st_states st') = dom (st_states st) \<union> part_ID ` set parts \<and>
    (\<forall>q ms. q \<notin> part_ID ` set parts \<longrightarrow> disk_holds (fs, st) q ms \<longrightarrow> disk_holds (fs', st') q ms)"
  using assms
proof (induction parts arbitrary: fs st)
  case Nil
  then show ?case by simp
next
  case (Cons part parts)
  let ?p = "part_ID part"
  have here: "st_states st ?p = None" "on_disk fs (segmentPath st ?p 0) (log ?p)"
    using Cons.prems(2,3) by simp_all
  obtain fs1 st1 where one: "OpenPartition io_ok fs st ?p = (fs1, st1, None)"
      "partition_holds fs1 st1 ?p (log ?p)" "st_dataDir st1 = st_dataDir st" "\<forall>q. q \<noteq> ?p \<longrightarrow> st_states st1 q = st_states st q"
      "\<forall>path. path \<noteq> segmentPath st ?p 0 \<longrightarrow> fs1 path = fs path"
      "\<forall>q ms. q \<noteq> ?p \<longrightarrow> partition_holds fs st q ms \<longrightarrow> partition_holds fs1 st1 q ms"
    by (rule OpenPartition_on_disk [OF here]) (rule that, assumption+)
  have notin: "?p \<notin> part_ID ` set parts" using Cons.prems(1) by simp
  have other: "q \<noteq> ?p" if "q \<in> part_ID ` set parts" for q using notin that by blast
  have path: "segmentPath st1 q 0 = segmentPath st q 0" for q using one(3) by (simp add: segmentPath_def)
  have states: "\<forall>p \<in> part_ID ` set parts. st_states st1 p = None"
  proof (rule ballI)
    fix q
    assume q: "q \<in> part_ID ` set parts"
    then have "q \<in> part_ID ` set (part # parts)" by simp
    then have "st_states st q = None" by (rule bspec [OF Cons.prems(2)])
    then show "st_states st1 q = None" unfolding one(4) [THEN spec, THEN mp, OF other [OF q]] .
  qed
  have "on_disk fs1 (segmentPath st1 q 0) (log q)" if "q \<in> part_ID ` set parts" for q
  proof -
    have "segmentPath st q 0 \<noteq> segmentPath st ?p 0" using other [OF that] by simp
    then have "fs1 (segmentPath st q 0) = fs (segmentPath st q 0)" by (rule one(5) [THEN spec, THEN mp])
    from on_disk_cong [of fs1 _ fs, OF this, of "log q"] show ?thesis
      unfolding path using Cons.prems(3) that by auto
  qed
  then have files: "\<forall>p \<in> part_ID ` set parts. on_disk fs1 (segmentPath st1 p 0) (log p)" by blast
  have "distinct (map part_ID parts)" using Cons.prems(1) by simp
  from Cons.IH [OF this states files] obtain fs' where
    "\<exists>st'. open_partitions io_ok fs1 st1 parts = (fs', st', None) \<and> st_dataDir st' = st_dataDir st1 \<and>
      (\<forall>p \<in> part_ID ` set parts. disk_holds (fs', st') p (log p)) \<and>
      dom (st_states st') = dom (st_states st1) \<union> part_ID ` set parts \<and>
      (\<forall>q ms. q \<notin> part_ID ` set parts \<longrightarrow> disk_holds (fs1, st1) q ms \<longrightarrow> disk_holds (fs', st') q ms)" ..
  then obtain st' where rest: "open_partitions io_ok fs1 st1 parts = (fs', st', None) \<and> st_dataDir st' = st_dataDir st1 \<and>
      (\<forall>p \<in> part_ID ` set parts. disk_holds (fs', st') p (log p)) \<and>
      dom (st_states st') = dom (st_states st1) \<union> part_ID ` set parts \<and>
      (\<forall>q ms. q \<notin> part_ID ` set parts \<longrightarrow> disk_holds (fs1, st1) q ms \<longrightarrow> disk_holds (fs', st') q ms)" ..
  have "st_states st1 ?p \<noteq> None" using one(2) by (auto simp: partition_holds_def)
  then have "q \<in> dom (st_states st1) \<longleftrightarrow> q = ?p \<or> q \<in> dom (st_states st)" for q
    using one(4) [THEN spec, of q] by (cases "q = ?p") (simp_all add: dom_def)
  then have "dom (st_states st1) = insert ?p (dom (st_states st))" by blast
  moreover have "disk_holds (fs', st') ?p (log ?p)"
    using rest one(2) notin by (simp add: disk_holds_def)
  moreover have "disk_holds (fs', st') q ms" if "q \<noteq> ?p" "q \<notin> part_ID ` set parts" "disk_holds (fs, st) q ms" for q ms
    using that rest one(6) by (simp add: disk_holds_def)
  ultimately show ?case
    using one(1,3) rest by (intro exI [of _ fs'] exI [of _ st'] conjI) simp_all
qed

lemma AssignPartitions_ids:
  assumes "0 < pc" and "0 < rf" and "nodes \<noteq> []"
  shows "map part_ID (AssignPartitions nodes pc rf) = map int [0..<nat pc]"
  using assms by (simp add: AssignPartitions_eq comp_def)

text \<open>The segment file of a partition.\<close>

abbreviation partition_file :: "Config \<Rightarrow> int \<Rightarrow> string" where
  "partition_file cfg p \<equiv> segmentPath (NewPartitionStore (cfg_DataDir cfg)
     \<lparr>qc_SegmentSizeBytes = cfg_SegmentSizeBytes cfg, qc_ReplicationFactor = cfg_Factor cfg,
      qc_RequiredFollowerAcks = cfg_RequiredFollowerAcks cfg\<rparr>) p 0"

definition fresh_queue :: "(int \<Rightarrow> Message list) \<Rightarrow> queue_spec" where
  "fresh_queue log = \<lparr>sp_log = log, sp_done = (\<lambda>_ _. 0), sp_lent = (\<lambda>_ _. False), sp_index = Map.empty\<rparr>"

lemma start_node_represents:
  assumes "Validate cfg = None" and "nodes \<noteq> []" and "hostname \<noteq> []" and "findLocalNode nodes hostname = Inr localNode"
    and "\<forall>p \<in> int ` {0..<nat (cfg_Partitions cfg)}. p \<in> set ids \<and> on_disk fs (partition_file cfg p) (log p) \<and> length (log p) + k < 2 ^ 64"
  defines "pm \<equiv> NewPartitionManager localNode (AssignPartitions nodes (cfg_Partitions cfg) (cfg_Factor cfg))"
  shows "\<exists>fs' st' rt. start_node io_ok fs cfg nodes hostname = Inr (fs', st', rt) \<and> st_dataDir st' = cfg_DataDir cfg \<and>
    represents pm ids k (fresh_queue log) \<lparr>qn_fs = fs', qn_store = st', qn_runtime = rt, qn_metrics = no_replication\<rparr>"
proof -
  let ?ps = "AssignPartitions nodes (cfg_Partitions cfg) (cfg_Factor cfg)"
  let ?st = "NewPartitionStore (cfg_DataDir cfg) \<lparr>qc_SegmentSizeBytes = cfg_SegmentSizeBytes cfg, qc_ReplicationFactor = cfg_Factor cfg,
    qc_RequiredFollowerAcks = cfg_RequiredFollowerAcks cfg\<rparr>"
  have pos: "0 < cfg_Partitions cfg" "0 < cfg_Factor cfg"
    using assms(1) by (auto simp: Validate_def split: if_splits)
  have ids: "map part_ID ?ps = map int [0..<nat (cfg_Partitions cfg)]" by (rule AssignPartitions_ids [OF pos assms(2)])
  then have set_ids: "part_ID ` set ?ps = int ` {0..<nat (cfg_Partitions cfg)}" by (metis list.set_map set_upt)
  have sorted: "sorted (map part_ID ?ps)" "distinct (map part_ID ?ps)"
    unfolding ids by (simp_all add: sorted_map strict_sorted_iff distinct_map inj_on_def)
  have none: "st_states ?st p = None" for p by (simp add: NewPartitionStore_def)
  from open_partitions_holds [OF sorted(2), of ?st fs log] obtain fs' st' where opened: "open_partitions io_ok fs ?st ?ps = (fs', st', None)"
      "st_dataDir st' = st_dataDir ?st" "\<forall>p \<in> part_ID ` set ?ps. disk_holds (fs', st') p (log p)" "dom (st_states st') = part_ID ` set ?ps"
    using none assms(5) unfolding set_ids by (auto simp: dom_def)
  let ?rt = "NewRuntime pm (Some (coordinators cfg pm nodes ?ps))"
  have "start_node io_ok fs cfg nodes hostname = Inr (fs', st', ?rt)"
    using assms(3,4) opened(1) by (simp add: start_node_def pm_def Let_def)
  moreover have "represents pm ids k (fresh_queue log) \<lparr>qn_fs = fs', qn_store = st', qn_runtime = ?rt, qn_metrics = no_replication\<rparr>"
    using opened(3,4) sorted assms(5)
    by (auto simp: represents_def pm_def NewPartitionManager_def NewRuntime_def set_ids fresh_queue_def intro: consumers_represent_new)
  moreover have "st_dataDir st' = cfg_DataDir cfg" using opened(2) by (simp add: NewPartitionStore_def)
  ultimately show ?thesis by blast
qed

lemma fresh_queue_index: "index_lent (fresh_queue log)"
  by (rule index_lentI) (simp_all add: fresh_queue_def position_def)

lemma spec_run_fresh:
  assumes "spec_run (queue_step led) (fresh_queue log) es b"
  shows "sp_log b p = log p @ appended_to p es"
    and "received (topic, grp) p es = take (length (received (topic, grp) p es)) (filter (\<lambda>m. msg_Topic m = topic) (log p @ appended_to p es))"
proof -
  show log: "sp_log b p = log p @ appended_to p es" for p using run_log [OF assms, of p] by (simp add: fresh_queue_def)
  from run_received [OF assms fresh_queue_index, of "(topic, grp)" p]
  show "received (topic, grp) p es = take (length (received (topic, grp) p es)) (filter (\<lambda>m. msg_Topic m = topic) (log p @ appended_to p es))"
    by (simp add: topic_log_def log position_def fresh_queue_def del: filter_append)
qed

text \<open>
  The life of a node, from its start to the next: on partition files that hold any logs, each possibly with a record
  torn by a crash at its end, a node with a valid configuration starts, and answers every request it is then sent; the answers are
  explained by one event per request. Afterwards every partition file holds the old log followed by exactly the messages appended, in order; and what every
  consumer group got of a partition is a prefix of its topic's messages in that file, in order and without a gap or a repetition.
\<close>

lemma node_lifetime:
  fixes send :: "'w \<Rightarrow> RemoteReplicator \<Rightarrow> int \<Rightarrow> Record \<Rightarrow> 'w \<times> go_error option"
  assumes "Validate cfg = None" and "nodes \<noteq> []" and "hostname \<noteq> []" and "findLocalNode nodes hostname = Inr localNode"
    and "\<forall>p \<in> int ` {0..<nat (cfg_Partitions cfg)}. p \<in> set ids \<and> on_disk fs (partition_file cfg p) (log p) \<and> length (log p) + length reqs < 2 ^ 64"
    and "list_all (admits js) reqs"
  shows "\<exists>fs1 st1 rt w' n' resps es. start_node io_ok fs cfg nodes hostname = Inr (fs1, st1, rt) \<and>
    serve (node_exec js net send ids peers) (w, \<lparr>qn_fs = fs1, qn_store = st1, qn_runtime = rt, qn_metrics = no_replication\<rparr>) reqs = Some ((w', n'), resps) \<and>
    list_all2 (\<lambda>(r, resp) e. explains js (rt_partition rt) r resp e) (zip reqs resps) es \<and> length resps = length reqs \<and>
    (\<forall>p \<in> int ` {0..<nat (cfg_Partitions cfg)}. intact (qn_fs n') (partition_file cfg p) (log p @ appended_to p es)) \<and>
    (\<forall>topic grp p. received (topic, grp) p es = take (length (received (topic, grp) p es)) (filter (\<lambda>m. msg_Topic m = topic) (log p @ appended_to p es)))"
proof -
  let ?ps = "AssignPartitions nodes (cfg_Partitions cfg) (cfg_Factor cfg)"
  let ?pm = "NewPartitionManager localNode ?ps"
  have pos: "0 < cfg_Partitions cfg" "0 < cfg_Factor cfg"
    using assms(1) by (auto simp: Validate_def split: if_splits)
  obtain fs1 st1 rt where start: "start_node io_ok fs cfg nodes hostname = Inr (fs1, st1, rt)" "st_dataDir st1 = cfg_DataDir cfg"
      "represents ?pm ids (length reqs) (fresh_queue log) \<lparr>qn_fs = fs1, qn_store = st1, qn_runtime = rt, qn_metrics = no_replication\<rparr>"
    using start_node_represents [OF assms(1-5)] by blast
  let ?n = "\<lparr>qn_fs = fs1, qn_store = st1, qn_runtime = rt, qn_metrics = no_replication\<rparr>"
  have "represents ?pm ids (length reqs) (fresh_queue log) (snd (w, ?n))" using start(3) by simp
  from node.serve_simulates [OF this assms(6), of net send peers] obtain s' resps es b where run: "serve (node_exec js net send ids peers) (w, ?n) reqs = Some (s', resps)"
      "spec_run (queue_step (led_by ?pm)) (fresh_queue log) es b" "represents ?pm ids 0 b (snd s')"
      "length resps = length reqs" "list_all2 (\<lambda>(r, resp) e. explains js ?pm r resp e) (zip reqs resps) es"
    by (elim exE conjE) (rule that, assumption+)
  obtain w' n' where s': "s' = (w', n')" by (cases s')
  have dir: "st_dataDir (qn_store n') = cfg_DataDir cfg"
    using serve_invariant [OF run(1), of "\<lambda>s. st_dataDir (qn_store (snd s)) = cfg_DataDir cfg"] start(2)
    by (auto simp: s' node_exec_dataDir)
  have ids: "part_ID ` set (pm_partitions ?pm) = int ` {0..<nat (cfg_Partitions cfg)}"
    using arg_cong [OF AssignPartitions_ids [OF pos assms(2)], of set] by (simp add: NewPartitionManager_def)
  have "intact (qn_fs n') (partition_file cfg p) (log p @ appended_to p es)" if "p \<in> int ` {0..<nat (cfg_Partitions cfg)}" for p
  proof -
    have "partition_holds (qn_fs n') (qn_store n') p (log p @ appended_to p es)"
      using representsD(5) [OF run(3), of p] that unfolding ids by (simp add: disk_holds_def s' spec_run_fresh(1) [OF run(2)])
    from partition_holds_intact [OF this] show ?thesis by (simp add: segmentPath_def NewPartitionStore_def dir)
  qed
  moreover have "rt_partition rt = ?pm" using representsD(1) [OF start(3)] by simp
  ultimately show ?thesis
    using start(1) run(1,4,5) spec_run_fresh(2) [OF run(2)] unfolding s'
    by (intro exI [of _ fs1] exI [of _ st1] exI [of _ rt] exI [of _ w'] exI [of _ n'] exI [of _ resps] exI [of _ es] conjI) simp_all
qed

text \<open>A file with one message and the first byte of a second record.\<close>

definition torn_file :: filesystem where
  "torn_file = [partition_file sample_config 0 \<mapsto> log_bytes (index_records [sample_message]) @
     take 1 (record_bytes \<lparr>rec_Offset = 1, rec_Message = sample_message\<rparr>)]"

lemma torn_file_on_disk: "on_disk torn_file (partition_file sample_config 0) [sample_message]"
  unfolding on_disk_def
proof (intro conjI disjI2 exI)
  show "torn_file (partition_file sample_config 0) = Some (log_bytes (index_records [sample_message]) @
      take 1 (record_bytes \<lparr>rec_Offset = 1, rec_Message = sample_message\<rparr>))" by (simp add: torn_file_def)
  show "1 < length (record_bytes \<lparr>rec_Offset = 1, rec_Message = sample_message\<rparr>)" by (simp add: record_bytes_def)
qed (simp_all add: sample_message_storable)

end
