(* ===== verification/Pipeline.thy ===== *)
theory Pipeline
  imports Client_Server Queue_Startup
begin

text \<open>
  The whole pipeline of the repository: a queue node that starts on an empty data directory, a streamer that publishes the records of its shard to
  it over HTTP, and a processor that consumes them over HTTP and inserts them into its store. The lemmas show that what is inserted is
  what the streamer read, record by record.
\<close>

section \<open>Grouping by partition\<close>

lemma concat_map_one:
  assumes "distinct ps" and "p \<in> set ps"
  shows "concat (map (\<lambda>q. if q = p then xs else []) ps) = xs"
  using assms by (induction ps) (auto simp: concat_eq_Nil_conv)

lemma concat_routes_key:
  assumes "distinct ps" and "\<forall>m \<in> set ms. f m \<in> set ps" and "\<And>m m'. m \<in> set ms \<Longrightarrow> m' \<in> set ms \<Longrightarrow> key m = key m' \<Longrightarrow> f m = f m'"
  shows "filter (\<lambda>m. key m = k) (concat (map (\<lambda>p. filter (\<lambda>m. f m = p) ms) ps)) = filter (\<lambda>m. key m = k) ms"
proof (cases "\<exists>m \<in> set ms. key m = k")
  case False
  then have "filter (\<lambda>m. key m = k) ms = []" by (auto simp: filter_empty_conv)
  moreover have "filter (\<lambda>m. key m = k) (concat (map (\<lambda>p. filter (\<lambda>m. f m = p) ms) ps)) = []"
    using False by (auto simp: filter_empty_conv)
  ultimately show ?thesis by simp
next
  case True
  then obtain m where m: "m \<in> set ms" "key m = k" by blast
  have route: "f m' = f m" if "m' \<in> set ms" "key m' = k" for m' using assms(3) [OF that(1) m(1)] that(2) m(2) by simp
  have "filter (\<lambda>m. key m = k) (filter (\<lambda>m'. f m' = p) ms) = (if p = f m then filter (\<lambda>m. key m = k) ms else [])" for p
    using route by (auto simp: filter_empty_conv intro: filter_cong)
  then have "map (\<lambda>p. filter (\<lambda>m. key m = k) (filter (\<lambda>m'. f m' = p) ms)) ps = map (\<lambda>p. if p = f m then filter (\<lambda>m. key m = k) ms else []) ps"
    by (simp only:)
  moreover have "f m \<in> set ps" using assms(2) m(1) by simp
  ultimately have "concat (map (\<lambda>p. filter (\<lambda>m. key m = k) (filter (\<lambda>m'. f m' = p) ms)) ps) = filter (\<lambda>m. key m = k) ms"
    using concat_map_one [OF assms(1)] by (simp only:)
  then show ?thesis by (simp only: filter_concat map_map comp_def)
qed

lemma concat_routes_mset:
  assumes "distinct ps" and "\<forall>m \<in> set ms. f m \<in> set ps"
  shows "mset (concat (map (\<lambda>p. filter (\<lambda>m. f m = p) ms) ps)) = mset ms"
proof (rule multiset_eqI)
  fix x
  have "filter (\<lambda>m. m = x) (concat (map (\<lambda>p. filter (\<lambda>m. f m = p) ms) ps)) = filter (\<lambda>m. m = x) ms"
    using concat_routes_key [OF assms, of "\<lambda>m. m" x] by simp
  moreover have "count (mset xs) x = length (filter (\<lambda>m. m = x) xs)" for xs by (induction xs) auto
  ultimately show "count (mset (concat (map (\<lambda>p. filter (\<lambda>m. f m = p) ms) ps))) x = count (mset ms) x" by (simp only:)
qed

section \<open>Publishing to a node that leads all partitions\<close>

definition holds_all :: "int list \<Rightarrow> queue_node \<Rightarrow> (int \<Rightarrow> Message list) \<Rightarrow> bool" where
  "holds_all ids n log \<longleftrightarrow> unreplicated (qn_runtime n) \<and>
     (\<forall>p \<in> part_ID ` set (pm_partitions (rt_partition (qn_runtime n))).
        IsLeader (rt_partition (qn_runtime n)) p \<and> p \<in> set ids \<and> disk_holds (node_disk n) p (log p))"

abbreviation routed :: "PartitionManager \<Rightarrow> Message list \<Rightarrow> int \<Rightarrow> Message list" where
  "routed pm ms p \<equiv> filter (\<lambda>m. Route (msg_Topic m) m (pm_partitions pm) = Inr p) ms"

lemma node_publish_all:
  fixes send :: "'w \<Rightarrow> RemoteReplicator \<Rightarrow> int \<Rightarrow> Record \<Rightarrow> 'w \<times> go_error option"
  assumes "ul_Parse lib publishURL = Inr u" and "url_Path u = ''/publish''" and "topic \<noteq> []"
    and "\<forall>m \<in> set ms. carries m (record_of m) \<and> msg_Topic m = topic \<and> storable m"
    and "rt_partition (qn_runtime n) = pm" and "pm_partitions pm \<noteq> []" and "length (pm_partitions pm) < 2 ^ 32"
    and "holds_all ids n log" and "\<forall>p \<in> part_ID ` set (pm_partitions pm). length (log p) + length ms < 2 ^ 64"
  shows "\<exists>w' n'. send_messages (http_publish lib publishURL (node_server net send ids peers) topic) (w, n) ms = ((w', n'), replicate (length ms) None) \<and>
    holds_all ids n' (\<lambda>p. log p @ routed pm ms p) \<and> rt_partition (qn_runtime n') = pm \<and>
    rt_consumers (qn_runtime n') = rt_consumers (qn_runtime n)"
  using assms(4-5,8-9)
proof (induction ms arbitrary: w n log)
  case Nil
  then show ?case by simp
next
  case (Cons m ms)
  have m: "carries m (record_of m)" "msg_Topic m = topic" "storable m" using Cons.prems(1) by simp_all
  obtain part where part: "part \<in> set (pm_partitions pm)" "Route topic m (pm_partitions pm) = Inr (part_ID part)"
    using Route_mem [OF assms(6,7)] by blast
  let ?p = "part_ID part"
  have held: "unreplicated (qn_runtime n)" "IsLeader (rt_partition (qn_runtime n)) ?p" "disk_holds (node_disk n) ?p (log ?p)" "?p \<in> set ids"
    using Cons.prems(2,3) part(1) by (auto simp: holds_all_def)
  have route: "routePartition (qn_runtime n) (msg_Topic m) m = Inr ?p"
    using part(2) Cons.prems(2) m(2) by (simp add: routePartition_def PartitionManager_Partitions_def)
  have "length (log ?p) + 1 < 2 ^ 64" using Cons.prems(4) part(1) by fastforce
  from node_publish [OF assms(1,2) m(1) _ route held(2,3) m(3) this held(4,1), of net send peers w] assms(3) m(2)
  obtain w1 n1 where one: "http_publish lib publishURL (node_server net send ids peers) topic (w, n) m = ((w1, n1), None)"
      "disk_holds (node_disk n1) ?p (log ?p @ [m])" "qn_runtime n1 = count_published (qn_runtime n)"
      "\<forall>q ms'. q \<noteq> ?p \<longrightarrow> disk_holds (node_disk n) q ms' \<longrightarrow> disk_holds (node_disk n1) q ms'"
    by auto
  let ?log = "\<lambda>q. log q @ routed pm [m] q"
  have same: "rt_partition (qn_runtime n1) = pm" "rt_consumers (qn_runtime n1) = rt_consumers (qn_runtime n)" "unreplicated (qn_runtime n1)"
    using one(3) Cons.prems(2) held(1) by (simp_all add: count_published_def unreplicated_def)
  have "holds_all ids n1 ?log"
    using Cons.prems(2,3) one(2,4) same(3) part(2) m(2) same(1) by (auto simp: holds_all_def)
  moreover have "\<forall>q \<in> part_ID ` set (pm_partitions pm). length (?log q) + length ms < 2 ^ 64"
    using Cons.prems(4) by auto
  ultimately obtain w' n' where rest:
    "send_messages (http_publish lib publishURL (node_server net send ids peers) topic) (w1, n1) ms = ((w', n'), replicate (length ms) None)"
    "holds_all ids n' (\<lambda>p. ?log p @ routed pm ms p)" "rt_partition (qn_runtime n') = pm"
    "rt_consumers (qn_runtime n') = rt_consumers (qn_runtime n1)"
    using Cons.IH [of n1 ?log w1] Cons.prems(1) same(1) by auto
  have "(\<lambda>p. ?log p @ routed pm ms p) = (\<lambda>p. log p @ routed pm (m # ms) p)" by auto
  with rest one(1) same(2) show ?case by auto
qed

section \<open>What a streamer sends\<close>

fun stream_messages :: "(int \<Rightarrow> string) \<Rightarrow> string \<Rightarrow> uint64 \<Rightarrow> TelemetryRecord list \<Rightarrow> attempt list \<Rightarrow> Message list" where
  "stream_messages rfc3339 topic sequence (r # todo) (a # attempts) =
     \<lparr>msg_Topic = topic, msg_ID = MessageID sequence (at_now a), msg_RoutingKey = RoutingKey r,
      msg_Payload = bytes_of_string (telemetry_json (WithTimestamp rfc3339 r (at_now a)))\<rparr> #
     stream_messages rfc3339 topic (sequence + 1) todo attempts"
| "stream_messages rfc3339 topic sequence _ _ = []"

lemma stream_loop_accepted:
  assumes "length todo \<le> length ctxs" and "length todo \<le> length attempts" and "list_all (\<lambda>c. c = None) ctxs"
    and "list_all (\<lambda>a. at_ctx a = None \<and> at_publish a = None) attempts"
  shows "stream_loop marshal_telemetry rfc3339 rp todo ctxs sequence attempts =
    (map (\<lambda>m. (m, None)) (stream_messages rfc3339 (rp_topic rp) sequence todo attempts), None)"
  using assms
proof (induction todo arbitrary: ctxs attempts sequence)
  case (Cons r todo)
  then obtain c cs a as where lists: "ctxs = c # cs" "attempts = a # as" by (cases ctxs; cases attempts) auto
  with Cons show ?case
    by (simp add: publishWithRetry_def QueueMessage_def marshal_telemetry_def)
qed simp

lemma record_names_utf8: "utf8_telemetry r \<Longrightarrow> valid_utf8 (RoutingKey r)"
  by (simp add: RoutingKey_def utf8_telemetry_def)

lemma MessageID_utf8: "valid_utf8 (MessageID sequence t)" and MessageID_nonempty: "MessageID sequence t \<noteq> []"
proof -
  have "(of_char c :: nat) < 128" if "c \<in> set (itoa i)" for c i
    using that dec_nat_digits [of "nat \<bar>i\<bar>"] by (auto simp: itoa_def list_all_iff is_digit_def split: if_splits)
  then show "valid_utf8 (MessageID sequence t)" by (intro valid_utf8_ascii) (auto simp: MessageID_def)
  show "MessageID sequence t \<noteq> []" by (simp add: MessageID_def)
qed

definition stored_record :: "Message \<Rightarrow> TelemetryRecord" where
  "stored_record m = (case unmarshal_telemetry (msg_Payload m) of Inl _ \<Rightarrow> zero_telemetry | Inr r \<Rightarrow> r)"

lemma carries_stored: "carries m r \<Longrightarrow> stored_record m = r"
  by (simp add: carries_def stored_record_def unmarshal_telemetry_def telemetry_decode)

text \<open>The records as the streamer sends them, with the time of sending.\<close>

definition stamped :: "(int \<Rightarrow> string) \<Rightarrow> TelemetryRecord list \<Rightarrow> attempt list \<Rightarrow> TelemetryRecord list" where
  "stamped rfc3339 todo attempts = map2 (\<lambda>r a. WithTimestamp rfc3339 r (at_now a)) todo attempts"

definition queued :: "string \<Rightarrow> Message \<Rightarrow> TelemetryRecord \<Rightarrow> bool" where
  "queued topic m r \<longleftrightarrow> carries m r \<and> msg_Topic m = topic \<and> msg_RoutingKey m = RoutingKey r"

lemma stream_messages_queued:
  assumes "\<forall>r \<in> set todo. utf8_telemetry r" and "\<forall>t. valid_utf8 (rfc3339 t)" and "valid_utf8 topic"
  shows "list_all2 (queued topic) (stream_messages rfc3339 topic sequence todo attempts) (stamped rfc3339 todo attempts)"
  using assms(1)
proof (induction todo arbitrary: sequence attempts)
  case Nil
  then show ?case by (simp add: stamped_def)
next
  case (Cons r todo)
  show ?case
  proof (cases attempts)
    case Nil
    then show ?thesis by (simp add: stamped_def)
  next
    case (Cons a as)
    let ?r = "WithTimestamp rfc3339 r (at_now a)"
    have "utf8_telemetry ?r" "RoutingKey ?r = RoutingKey r"
      using Cons.prems assms(2) by (simp_all add: WithTimestamp_def utf8_telemetry_def RoutingKey_def)
    moreover have "valid_utf8 (RoutingKey r)" using Cons.prems by (intro record_names_utf8) simp
    ultimately show ?thesis
      using Cons.IH [of "sequence + 1" as] Cons.prems assms(3) Cons
      by (simp add: queued_def carries_def utf8_message_def MessageID_utf8 MessageID_nonempty stamped_def)
  qed
qed

lemma queued_records:
  assumes "list_all2 (queued topic) ms rs"
  shows "\<forall>m \<in> set ms. queued topic m (stored_record m)" and "map stored_record ms = rs"
  using assms by (induction rule: list_all2_induct) (auto simp: queued_def carries_stored)

lemma length_stream_messages: "length (stream_messages rfc3339 topic sequence todo attempts) = min (length todo) (length attempts)"
  by (induction rfc3339 topic sequence todo attempts rule: stream_messages.induct) auto

section \<open>From the CSV file to the store\<close>

lemma sole_node_starts:
  assumes "Validate cfg = None" and "cfg_Factor cfg = 1" and "node_ID node = hostname" and "hostname \<noteq> []"
    and "\<forall>p \<in> int ` {0..<nat (cfg_Partitions cfg)}. p \<in> set ids \<and> on_disk fs (partition_file cfg p) []"
  defines "pm \<equiv> NewPartitionManager node (AssignPartitions [node] (cfg_Partitions cfg) 1)"
  shows "\<exists>fs1 st1 rt. start_node io_ok fs cfg [node] hostname = Inr (fs1, st1, rt) \<and> rt_partition rt = pm \<and> rt_consumers rt = new_consumers \<and>
    holds_all ids \<lparr>qn_fs = fs1, qn_store = st1, qn_runtime = rt, qn_metrics = no_replication\<rparr> (\<lambda>_. [])"
proof -
  have pos: "0 < cfg_Partitions cfg" "cfg_RequiredFollowerAcks cfg \<le> 0"
    using assms(1,2) by (auto simp: Validate_def split: if_splits)
  have local: "findLocalNode [node] hostname = Inr node" using assms(3) by (simp add: findLocalNode_def)
  have "\<forall>p \<in> int ` {0..<nat (cfg_Partitions cfg)}. p \<in> set ids \<and> on_disk fs (partition_file cfg p) ((\<lambda>_. []) p) \<and>
      length ((\<lambda>_ :: int. [] :: Message list) p) + 0 < 2 ^ 64" using assms(5) by simp
  from start_node_represents [OF assms(1) _ assms(4) local this]
  obtain fs1 st1 rt where start: "start_node io_ok fs cfg [node] hostname = Inr (fs1, st1, rt)"
      "represents pm ids 0 (fresh_queue (\<lambda>_. [])) \<lparr>qn_fs = fs1, qn_store = st1, qn_runtime = rt, qn_metrics = no_replication\<rparr>"
    by (auto simp: assms(2) pm_def)
  have rt: "rt = NewRuntime pm (Some (coordinators cfg pm [node] (AssignPartitions [node] (cfg_Partitions cfg) 1)))"
    using start_node_runtime [OF start(1)] local by (auto simp: pm_def assms(2))
  have ids: "part_ID ` set (pm_partitions pm) = int ` {0..<nat (cfg_Partitions cfg)}"
    using AssignPartitions_ids [OF pos(1), of 1 "[node]"] by (simp add: pm_def NewPartitionManager_def) (metis list.set_map set_upt)
  have "IsLeader pm p" if "p \<in> int ` {0..<nat (cfg_Partitions cfg)}" for p
    using that unfolding pm_def by (subst IsLeader_assigned) auto
  moreover have "unreplicated rt"
    using pos(2) map_of_SomeD by (fastforce simp: unreplicated_def rt NewRuntime_def coordinators_def)
  ultimately have "holds_all ids \<lparr>qn_fs = fs1, qn_store = st1, qn_runtime = rt, qn_metrics = no_replication\<rparr> (\<lambda>_. [])"
    using representsD(1,5) [OF start(2)] by (auto simp: holds_all_def fresh_queue_def ids)
  with start(1) show ?thesis by (auto simp: rt NewRuntime_def)
qed

lemma backlog_routed:
  assumes "rt_partition rt = pm" and "rt_consumers rt = new_consumers" and "\<forall>p \<in> part_ID ` set (pm_partitions pm). IsLeader pm p"
    and "\<forall>m \<in> set ms. msg_Topic m = topic"
  shows "leaderPartitionIDs rt = sort (map part_ID (pm_partitions pm))"
    and "backlog (routed pm ms) topic key rt = concat (map (routed pm ms) (leaderPartitionIDs rt))"
proof -
  have "filter (\<lambda>p. IsLeader pm (part_ID p)) (pm_partitions pm) = pm_partitions pm" using assms(3) by (simp add: filter_id_conv)
  then show "leaderPartitionIDs rt = sort (map part_ID (pm_partitions pm))" by (simp add: leaderPartitionIDs_led_by led_by_def assms(1))
  have "view (rt_consumers rt) key p = fresh_partition" for p
    by (simp add: assms(2) new_consumers_def view_def lookup_empty)
  then have "remaining topic (routed pm ms p) (view (rt_consumers rt) key p) = routed pm ms p" for p
    using assms(4) by (auto simp: remaining_def fresh_partition_def intro: filter_cong)
  then show "backlog (routed pm ms) topic key rt = concat (map (routed pm ms) (leaderPartitionIDs rt))" by simp
qed

lemma routed_records:
  assumes "list_all2 (queued topic) ms rs" and "pm_partitions pm \<noteq> []" and "length (pm_partitions pm) < 2 ^ 32"
    and "distinct (map part_ID (pm_partitions pm))" and "led = sort (map part_ID (pm_partitions pm))"
  defines "inserted \<equiv> map stored_record (concat (map (routed pm ms) led))"
  shows "mset inserted = mset rs" and "filter (\<lambda>r. RoutingKey r = k) inserted = filter (\<lambda>r. RoutingKey r = k) rs"
proof -
  let ?f = "\<lambda>m. case Route (msg_Topic m) m (pm_partitions pm) of Inl _ \<Rightarrow> -1 | Inr p \<Rightarrow> p"
  note q = queued_records [OF assms(1)]
  have dest: "\<exists>p. Route (msg_Topic m) m (pm_partitions pm) = Inr p \<and> p \<in> set led" for m
    using Route_mem [OF assms(2,3), of "msg_Topic m" m] by (auto simp: assms(5))
  have f: "Route (msg_Topic m) m (pm_partitions pm) = Inr p \<longleftrightarrow> ?f m = p" for m p using dest [of m] by auto
  have "?f m \<in> set led" for m using dest [of m] by auto
  then have led: "distinct led" "\<forall>m \<in> set ms. ?f m \<in> set led" using assms(4,5) by simp_all
  have same: "?f m = ?f m'" if "m \<in> set ms" "m' \<in> set ms" "RoutingKey (stored_record m) = RoutingKey (stored_record m')" for m m'
  proof -
    have "msg_RoutingKey m = msg_RoutingKey m'" "msg_Topic m = msg_Topic m'" using q(1) that by (simp_all add: queued_def)
    then show ?thesis using Route_key [of m m'] by simp
  qed
  have "mset inserted = image_mset stored_record (mset ms)"
    using concat_routes_mset [OF led] by (simp add: inserted_def f)
  then show "mset inserted = mset rs" using q(2) by auto
  have "filter (\<lambda>m. RoutingKey (stored_record m) = k) (concat (map (routed pm ms) led)) = filter (\<lambda>m. RoutingKey (stored_record m) = k) ms"
    unfolding f by (rule concat_routes_key [OF led, where key = "\<lambda>m. RoutingKey (stored_record m)"]) (rule same)
  then show "filter (\<lambda>r. RoutingKey r = k) inserted = filter (\<lambda>r. RoutingKey r = k) rs"
    unfolding inserted_def q(2) [symmetric] by (simp add: filter_map comp_def)
qed

text \<open>
  C3: The pipeline loses nothing, repeats nothing and alters nothing. A node starts on an empty data directory with a valid configuration without
  replication; a streamer sends it the records of its shard over HTTP, any number of times round; then a
  processor polls it over HTTP. The node accepts every message that the streamer sends, and after at least as many turns as
  there are messages the processor has inserted exactly the records that the streamer read, with the times of sending, each as
  often as it was sent, and those with one routing key, as of one GPU, in the order in which they were sent. The
  strings of the records are well-formed UTF-8, the messages fit into the log's records, and the URL library reads back the URLs it prints.
\<close>

theorem telemetry_pipeline:
  fixes send :: "'w \<Rightarrow> RemoteReplicator \<Rightarrow> int \<Rightarrow> Record \<Rightarrow> 'w \<times> go_error option"
  assumes "Validate cfg = None" and "cfg_Factor cfg = 1" and "cfg_Partitions cfg < 2 ^ 32" and "node_ID node = hostname" and "hostname \<noteq> []"
    and "\<forall>p \<in> int ` {0..<nat (cfg_Partitions cfg)}. p \<in> set ids \<and> on_disk fs (partition_file cfg p) []"
    and "reachable_base lib base" and "ul_Parse lib queueURL = Inr base" and "NewHTTPProducer lib queueURL = Inr publishURL"
    and "rp_topic rp \<noteq> []" and "valid_utf8 (rp_topic rp)" and "grp \<noteq> []"
    and "records \<noteq> []" and "recordsForShard rp records = Inr shardRecords" and "todo = concat (replicate cycles shardRecords)"
    and "length todo \<le> length ctxs" and "list_all (\<lambda>c. c = None) ctxs"
    and "length todo \<le> length attempts" and "list_all (\<lambda>a. at_ctx a = None \<and> at_publish a = None) attempts"
    and "list_all utf8_telemetry todo" and "\<forall>t. valid_utf8 (rfc3339 t)"
    and "list_all storable (stream_messages rfc3339 (rp_topic rp) 0 todo attempts)" and "length todo < 2 ^ 64" and "length todo \<le> turns"
    and "\<forall>d r. store d r = (ins d r, None)"
  shows "\<exists>fs1 st1 rt sent s1 s2 inserted metrics'.
    start_node io_ok fs cfg [node] hostname = Inr (fs1, st1, rt) \<and>
    Stream marshal_telemetry rfc3339 rp records cycles ctxs attempts = (map (\<lambda>m. (m, None)) sent, None) \<and>
    send_messages (http_publish lib publishURL (node_server net send ids peers) (rp_topic rp))
      (w, \<lparr>qn_fs = fs1, qn_store = st1, qn_runtime = rt, qn_metrics = no_replication\<rparr>) sent = (s1, replicate (length sent) None) \<and>
    processor_loop (replicate turns (http_env lib base (node_server net send ids peers) (rp_topic rp) grp store, False)) s1 d metrics =
      (s2, foldl ins d inserted, metrics', False) \<and>
    mset inserted = mset (stamped rfc3339 todo attempts) \<and>
    (\<forall>key. filter (\<lambda>r. RoutingKey r = key) inserted = filter (\<lambda>r. RoutingKey r = key) (stamped rfc3339 todo attempts))"
proof -
  let ?pm = "NewPartitionManager node (AssignPartitions [node] (cfg_Partitions cfg) 1)"
  let ?server = "node_server net send ids peers"
  let ?topic = "rp_topic rp"
  let ?sent = "stream_messages rfc3339 ?topic 0 todo attempts"
  have pos: "0 < cfg_Partitions cfg" using assms(1) by (auto simp: Validate_def split: if_splits)
  have ids: "map part_ID (pm_partitions ?pm) = map int [0..<nat (cfg_Partitions cfg)]"
    using AssignPartitions_ids [OF pos, of 1 "[node]"] by (simp add: NewPartitionManager_def)
  then have "length (pm_partitions ?pm) = nat (cfg_Partitions cfg)" by (metis length_map length_upt minus_nat.diff_0)
  then have parts: "pm_partitions ?pm \<noteq> []" "length (pm_partitions ?pm) < 2 ^ 32" using pos assms(3) by auto
  have dist: "distinct (map part_ID (pm_partitions ?pm))" unfolding ids by (simp add: distinct_map)
  obtain fs1 st1 rt where start: "start_node io_ok fs cfg [node] hostname = Inr (fs1, st1, rt)" "rt_partition rt = ?pm"
      "rt_consumers rt = new_consumers" "holds_all ids \<lparr>qn_fs = fs1, qn_store = st1, qn_runtime = rt, qn_metrics = no_replication\<rparr> (\<lambda>_. [])"
    using sole_node_starts [OF assms(1,2,4-6)] by blast
  have stream: "Stream marshal_telemetry rfc3339 rp records cycles ctxs attempts = (map (\<lambda>m. (m, None)) ?sent, None)"
    using stream_loop_accepted [OF assms(16,18,17,19)] assms(13-15) by (simp add: Stream_def)
  have queued: "list_all2 (queued ?topic) ?sent (stamped rfc3339 todo attempts)"
    using assms(20) by (intro stream_messages_queued assms(11,21)) (simp add: list_all_iff)
  then have each: "\<forall>m \<in> set ?sent. carries m (stored_record m) \<and> msg_Topic m = ?topic \<and> storable m"
    using queued_records(1) [OF queued] assms(22) by (auto simp: queued_def list_all_iff)
  have len: "length ?sent = length todo" using assms(18) by (simp add: length_stream_messages)
  have url: "ul_Parse lib publishURL = Inr (base\<lparr>url_Path := ''/publish''\<rparr>)" by (rule producer_url [OF assms(7-9)])
  obtain w1 n1 where sent: "send_messages (http_publish lib publishURL ?server ?topic)
      (w, \<lparr>qn_fs = fs1, qn_store = st1, qn_runtime = rt, qn_metrics = no_replication\<rparr>) ?sent = ((w1, n1), replicate (length ?sent) None)"
      "holds_all ids n1 (routed ?pm ?sent)" "rt_partition (qn_runtime n1) = ?pm" "rt_consumers (qn_runtime n1) = new_consumers"
    using node_publish_all [OF url _ assms(10) each _ parts start(4), of net send peers w] start(2,3) assms(23) len by auto
  have leads: "\<forall>p \<in> part_ID ` set (pm_partitions ?pm). IsLeader ?pm p" using sent(2,3) by (auto simp: holds_all_def)
  have topic: "\<forall>m \<in> set ?sent. msg_Topic m = ?topic" using each by blast
  note left = backlog_routed [OF sent(3,4) leads topic]
  let ?led = "leaderPartitionIDs (qn_runtime n1)"
  let ?backlog = "backlog (routed ?pm ?sent) ?topic (consumerKey ?topic grp) (qn_runtime n1)"
  have rest: "at_rest (routed ?pm ?sent) (consumerKey ?topic grp) (qn_runtime n1)"
    using dist by (simp add: at_rest_def left(1) sent(4) new_consumers_def view_def lookup_empty fresh_partition_def)
  have holds: "\<forall>p \<in> set ?led. disk_holds (node_disk n1) p (routed ?pm ?sent p)"
    using sent(2,3) by (auto simp: left(1) holds_all_def)
  have "\<forall>m \<in> set ?backlog. carries m (stored_record m)" unfolding left(2) using each by auto
  moreover note content = routed_records [OF queued parts dist left(1)]
  have "length ?backlog \<le> turns"
    using arg_cong [OF content(1), of size] len assms(24) queued unfolding left(2) by (simp add: list_all2_lengthD)
  ultimately have "\<exists>s' metrics'. processor_loop (replicate turns (http_env lib base ?server ?topic grp store, False)) (w1, n1) d metrics =
      (s', foldl ins d (map stored_record ?backlog), metrics', False)"
    by (intro processor_over_http_run [OF assms(7,10,12) holds rest _ assms(25)])
  then obtain s2 metrics' where run: "processor_loop (replicate turns (http_env lib base ?server ?topic grp store, False)) (w1, n1) d metrics =
      (s2, foldl ins d (map stored_record (concat (map (routed ?pm ?sent) ?led))), metrics', False)"
    unfolding left(2) by blast
  show ?thesis
    by (intro exI conjI allI, rule start(1), rule stream, rule sent(1), rule run, rule content(1), rule content(2))
qed

definition single_config :: Config where
  "single_config = sample_config\<lparr>cfg_Factor := 1, cfg_RequiredFollowerAcks := 0\<rparr>"

definition accepted_attempt :: attempt where
  "accepted_attempt = failed_attempt\<lparr>at_publish := None\<rparr>"

definition sample_clock :: "int \<Rightarrow> string" where
  "sample_clock _ = ''2024-01-01T00:00:00Z''"

lemma sample_record_utf8: "utf8_telemetry sample_record_t"
  by code_simp

lemma sample_payload: "length (telemetry_json (WithTimestamp sample_clock sample_record_t 7)) < 1000" "telemetry_json (WithTimestamp sample_clock sample_record_t 7) \<noteq> []"
    "length (MessageID 0 7) < 1000" "length (RoutingKey sample_record_t) < 1000"
  by code_simp+

lemma sample_stream_storable: "list_all storable (stream_messages sample_clock ''gpu'' 0 [sample_record_t] [accepted_attempt])"
  using sample_payload
  by (simp add: storable_def encodable_def length_message_bytes accepted_attempt_def failed_attempt_def)

theorem telemetry_pipeline_witness:
  "\<exists>fs1 st1 rt sent s1 s2 metrics'.
    start_node io_ok Map.empty single_config [sample_node] ''q0'' = Inr (fs1, st1, rt) \<and>
    Stream marshal_telemetry sample_clock sample_replayer [sample_record_t] 1 [None] [accepted_attempt] = (map (\<lambda>m. (m, None)) sent, None) \<and>
    send_messages (http_publish sample_urls ''http://q/publish?'' (node_server sample_network (\<lambda>w rr pid r. (w, None)) [0] (Inr [sample_node])) ''gpu'')
      ((), \<lparr>qn_fs = fs1, qn_store = st1, qn_runtime = rt, qn_metrics = no_replication\<rparr>) sent = (s1, replicate (length sent) None) \<and>
    processor_loop (replicate 3 (http_env sample_urls sample_base (node_server sample_network (\<lambda>w rr pid r. (w, None)) [0] (Inr [sample_node])) ''gpu'' ''processor''
      (\<lambda>d r. (d @ [r], None)), False)) s1 [] None = (s2, [WithTimestamp sample_clock sample_record_t 7], metrics', False)"
proof -
  let ?server = "node_server sample_network (\<lambda>w rr pid r. (w, None)) [0] (Inr [sample_node])"
  let ?store = "\<lambda>d r. (d @ [r], None :: go_error option)"
  have valid: "Validate single_config = None" by code_simp
  have parts: "int ` {0..<nat (cfg_Partitions single_config)} = {0}" by (auto simp: single_config_def sample_config_def)
  have url: "ul_Parse sample_urls ''http://q'' = Inr sample_base" "NewHTTPProducer sample_urls ''http://q'' = Inr ''http://q/publish?''"
    by code_simp+
  have utf8: "\<forall>t. valid_utf8 (sample_clock t)" unfolding sample_clock_def by (rule allI) code_simp
  have empty: "on_disk Map.empty path []" for path by (simp add: on_disk_def)
  have topic: "rp_topic sample_replayer = ''gpu''" "valid_utf8 ''gpu''" by (simp add: sample_replayer_def) code_simp
  have shard: "recordsForShard sample_replayer [sample_record_t] = Inr [sample_record_t]" by (simp add: recordsForShard_def sample_replayer_def)
  have att: "at_ctx accepted_attempt = None" "at_publish accepted_attempt = None" by (simp_all add: accepted_attempt_def failed_attempt_def)
  have stamp: "stamped sample_clock [sample_record_t] [accepted_attempt] = [WithTimestamp sample_clock sample_record_t 7]"
    by (simp add: stamped_def accepted_attempt_def failed_attempt_def)
  have snoc: "foldl (\<lambda>d r. d @ [r]) d xs = d @ xs" for d xs :: "TelemetryRecord list" by (induction xs arbitrary: d) auto
  have "\<exists>fs1 st1 rt sent s1 s2 inserted metrics'.
    start_node io_ok Map.empty single_config [sample_node] ''q0'' = Inr (fs1, st1, rt) \<and>
    Stream marshal_telemetry sample_clock sample_replayer [sample_record_t] 1 [None] [accepted_attempt] = (map (\<lambda>m. (m, None)) sent, None) \<and>
    send_messages (http_publish sample_urls ''http://q/publish?'' ?server (rp_topic sample_replayer))
      ((), \<lparr>qn_fs = fs1, qn_store = st1, qn_runtime = rt, qn_metrics = no_replication\<rparr>) sent = (s1, replicate (length sent) None) \<and>
    processor_loop (replicate 3 (http_env sample_urls sample_base ?server (rp_topic sample_replayer) ''processor'' ?store, False)) s1 [] None =
      (s2, foldl (\<lambda>d r. d @ [r]) [] inserted, metrics', False) \<and>
    mset inserted = mset (stamped sample_clock [sample_record_t] [accepted_attempt]) \<and>
    (\<forall>key. filter (\<lambda>r. RoutingKey r = key) inserted =
      filter (\<lambda>r. RoutingKey r = key) (stamped sample_clock [sample_record_t] [accepted_attempt]))"
    by (rule telemetry_pipeline [OF valid _ _ _ _ _ sample_base_reachable url _ _ _ _ shard])
       (simp_all add: single_config_def sample_config_def sample_node_def empty topic sample_record_utf8 utf8 sample_stream_storable att del: stream_messages.simps)
  then obtain fs1 st1 rt sent s1 s2 inserted metrics' where run:
    "start_node io_ok Map.empty single_config [sample_node] ''q0'' = Inr (fs1, st1, rt)"
    "Stream marshal_telemetry sample_clock sample_replayer [sample_record_t] 1 [None] [accepted_attempt] = (map (\<lambda>m. (m, None)) sent, None)"
    "send_messages (http_publish sample_urls ''http://q/publish?'' ?server ''gpu'')
      ((), \<lparr>qn_fs = fs1, qn_store = st1, qn_runtime = rt, qn_metrics = no_replication\<rparr>) sent = (s1, replicate (length sent) None)"
    "processor_loop (replicate 3 (http_env sample_urls sample_base ?server ''gpu'' ''processor'' ?store, False)) s1 [] None =
      (s2, inserted, metrics', False)"
    "mset inserted = {#WithTimestamp sample_clock sample_record_t 7#}"
    unfolding stamp snoc topic(1) by (elim exE conjE) (rule that, simp_all)
  from run(5) have "inserted = [WithTimestamp sample_clock sample_record_t 7]" by (simp add: mset_single_iff)
  with run(1-4) show ?thesis by blast
qed

end
