(* ===== verification/Services.thy ===== *)
theory Services
  imports Client_Server Queue_Startup
begin

text \<open>
  The \<^verbatim>\<open>run\<close> functions of \<^verbatim>\<open>cmd\<close>: each program reads its configuration, sets up the logger, resolves its options from the environment and builds
  what it then runs. The YAML decoder, the files, the URL library and the database connection are arguments. The lemmas show that a program that gets past its
  set-up has a valid configuration, and that a started streamer has a well-formed replayer.
\<close>

section \<open>Setting up the programs\<close>

text \<open>The beginning that all programs share: \<open>name\<close> is the variable with the path of the configuration file.\<close>

definition service_config ::
  "(string \<Rightarrow> go_error + Config) \<Rightarrow> (string \<Rightarrow> go_error + string) \<Rightarrow> (string \<Rightarrow> string) \<Rightarrow> string \<Rightarrow> go_error + Config \<times> Logger" where
  "service_config yaml readFile env name =
     sum_bind (Load yaml (readFile (env_or env name ''config/config.yaml''))) (\<lambda>cfg.
     sum_bind (Configure (cfg_Logging cfg)) (\<lambda>logger. Inr (cfg, logger)))"

text \<open>
  The queue: discovery with the answers of the Kubernetes API in \<open>connect\<close> and \<open>polls\<close>, then \<open>start_node\<close>. The result also has the address on which
  the server listens.
\<close>

definition queue_start ::
  "(string \<Rightarrow> go_error + Config) \<Rightarrow> (string \<Rightarrow> go_error + string) \<Rightarrow> (string \<Rightarrow> string) \<Rightarrow> go_error option \<times> go_error option \<Rightarrow>
     (go_error + Pod list) list \<Rightarrow> io \<Rightarrow> filesystem \<Rightarrow> go_error + (filesystem \<times> PartitionStore \<times> Runtime) \<times> Cluster \<times> Logger \<times> string" where
  "queue_start yaml readFile env connect polls io fs =
     sum_bind (service_config yaml readFile env ''QUEUE_CONFIG'') (\<lambda>(cfg, logger).
     sum_bind (discoverCluster env (cfg_Port cfg) (cfg_Factor cfg) connect polls) (\<lambda>(cluster, nodes).
     sum_bind (start_node io fs cfg nodes (env ''HOSTNAME'')) (\<lambda>node.
       Inr (node, cluster, logger, '':'' @ itoa (cfg_Port cfg)))))"

text \<open>The streamer: its replayer, the URL to publish to and the records of the CSV file. Durations are 64-bit integers.\<close>

definition streamer_start ::
  "(string \<Rightarrow> go_error + Config) \<Rightarrow> (string \<Rightarrow> go_error + string) \<Rightarrow> (string \<Rightarrow> string) \<Rightarrow> url_library \<Rightarrow>
     (string \<Rightarrow> go_error + (go_error + string list) list) \<Rightarrow> go_error + Replayer \<times> string \<times> TelemetryRecord list" where
  "streamer_start yaml readFile env lib openCSV =
     sum_bind (service_config yaml readFile env ''STREAMER_CONFIG'') (\<lambda>(cfg, _).
     sum_bind (resolveStreamerOptions env cfg) (\<lambda>options.
     sum_bind (resolveShardConfig env) (\<lambda>(shardIndex, shardCount).
     sum_bind (LoadFile (openCSV (so_csvPath options))) (\<lambda>records.
     sum_bind (NewHTTPProducer lib (so_queueURL options)) (\<lambda>publishURL.
       Inr (NewReplayer (so_topic options) (of_int (cfg_RetryInitial cfg)) (of_int (cfg_RetryMax cfg)) shardIndex shardCount, publishURL, records))))))"

text \<open>
  The processor and the API: the open store, and the client or the server's address and metrics. When the set-up fails after the
  store was opened, the store is closed: it comes with the error.
\<close>

definition processor_start ::
  "(string \<Rightarrow> go_error + Config) \<Rightarrow> (string \<Rightarrow> go_error + string) \<Rightarrow> (string \<Rightarrow> string) \<Rightarrow> url_library \<Rightarrow> network \<Rightarrow> 'd connection \<Rightarrow>
     (go_error \<times> 'd option) + processorOptions \<times> HTTPClient \<times> 'd \<times> Metrics" where
  "processor_start yaml readFile env lib net conn =
     (case service_config yaml readFile env ''PROCESSOR_CONFIG'' of
        Inl e \<Rightarrow> Inl (e, None)
      | Inr (cfg, _) \<Rightarrow>
          (let options = resolveProcessorOptions env cfg in
           sum_bind (OpenStore conn (po_databaseURL options)) (\<lambda>d.
             case NewHTTPClient lib (Some net) (po_queueURL options) of
               Inl e \<Rightarrow> Inl (e, Some (cn_close conn d))
             | Inr client \<Rightarrow> Inr (options, client, d, \<lparr>pm_Consumed = 0, pm_Processed = 0, pm_Errors = 0\<rparr>))))"

definition api_start ::
  "(string \<Rightarrow> go_error + Config) \<Rightarrow> (string \<Rightarrow> go_error + string) \<Rightarrow> (string \<Rightarrow> string) \<Rightarrow> 'd connection \<Rightarrow>
     (go_error \<times> 'd option) + 'd \<times> HTTPMetrics \<times> Logger \<times> string" where
  "api_start yaml readFile env conn =
     (case service_config yaml readFile env ''API_CONFIG'' of
        Inl e \<Rightarrow> Inl (e, None)
      | Inr (cfg, logger) \<Rightarrow>
          sum_bind (OpenStore conn (env_or env ''API_DATABASE_URL'' (cfg_DatabaseURL cfg))) (\<lambda>d.
            Inr (d, NewHTTPMetrics, logger, cfg_Host cfg @ '':'' @ itoa (cfg_Port cfg))))"

section \<open>What a started program has\<close>

lemma service_config_valid: "service_config yaml readFile env name = Inr (cfg, logger) \<Longrightarrow> Validate cfg = None"
  by (auto simp: service_config_def Load_def sum_bind_eq_Inr split: sum.splits option.splits)

text \<open>The logger never refuses a configuration that was loaded.\<close>

lemma service_config_error:
  assumes "service_config yaml readFile env name = Inl e"
  shows "Load yaml (readFile (env_or env name ''config/config.yaml'')) = Inl e"
proof (cases "Load yaml (readFile (env_or env name ''config/config.yaml''))")
  case (Inr cfg)
  then have "Validate cfg = None" by (auto simp: Load_def split: sum.splits option.splits)
  then obtain logger where "Configure (cfg_Logging cfg) = Inr logger" using Validate_Configure by blast
  with Inr assms show ?thesis by (simp add: service_config_def)
qed (use assms in \<open>simp add: service_config_def\<close>)

lemma sint_duration: "0 < i \<Longrightarrow> i < 2 ^ 63 \<Longrightarrow> sint (of_int i :: duration) = i"
  by (simp add: signed_of_int signed_take_bit_int_eq_self)

lemma LoadFile_nonempty: "LoadFile opened = Inr records \<Longrightarrow> records \<noteq> []"
  by (auto simp: LoadFile_def ReadCSV_def sum_bind_eq_Inr Let_def split: sum.splits list.splits option.splits if_splits)

text \<open>
  C37: A streamer that gets past its set-up has a well-formed replayer, whatever its configuration file, its environment and its CSV file are: there are records and
  a topic, the retry intervals are positive and ordered as 64-bit durations, the shard index lies between 0 and the shard count, so that the replayer's
  shard is the one of that index and is refused only when there are fewer records than that, and every sleep of its retry loop is the
  doubled one before, capped by the maximum. The decoder's durations are those of a 64-bit integer, at most half of its range.
\<close>

theorem streamer_start_sound:
  assumes "streamer_start yaml readFile env lib openCSV = Inr (rp, publishURL, records)"
    and "\<forall>text cfg. yaml text = Inr cfg \<longrightarrow> cfg_RetryMax cfg < 2 ^ 62"
  shows "records \<noteq> [] \<and> rp_topic rp \<noteq> [] \<and> 0 < sint (rp_retryInitial rp) \<and> sint (rp_retryInitial rp) \<le> sint (rp_retryMax rp) \<and>
    (\<exists>k n. k < n \<and> rp_shardIndex rp = int k \<and> rp_shardCount rp = int n \<and>
      (case recordsForShard rp records of Inr rs \<Rightarrow> rs = shard records n k \<and> rs \<noteq> [] | Inl _ \<Rightarrow> length records \<le> k)) \<and>
    (\<forall>marshal rfc3339 r sequence attempts. \<forall>i < length (rl_sleeps (publishWithRetry marshal rfc3339 rp r sequence attempts)).
      sint (rl_sleeps (publishWithRetry marshal rfc3339 rp r sequence attempts) ! i) = min (sint (rp_retryInitial rp) * 2 ^ i) (sint (rp_retryMax rp)))"
proof -
  obtain cfg logger options shardIndex shardCount where start: "service_config yaml readFile env ''STREAMER_CONFIG'' = Inr (cfg, logger)"
      "resolveStreamerOptions env cfg = Inr options" "resolveShardConfig env = Inr (shardIndex, shardCount)"
      "LoadFile (openCSV (so_csvPath options)) = Inr records"
      "rp = NewReplayer (so_topic options) (of_int (cfg_RetryInitial cfg)) (of_int (cfg_RetryMax cfg)) shardIndex shardCount"
    using assms(1) by (auto simp: streamer_start_def sum_bind_eq_Inr)
  have "cfg_RetryMax cfg < 2 ^ 62"
    using start(1) assms(2) by (auto simp: service_config_def Load_def sum_bind_eq_Inr split: sum.splits option.splits)
  moreover have "0 < cfg_RetryInitial cfg" "cfg_RetryInitial cfg \<le> cfg_RetryMax cfg"
    using service_config_valid [OF start(1)] by (auto simp: Validate_def split: if_splits)
  ultimately have durations: "sint (rp_retryInitial rp) = cfg_RetryInitial cfg" "sint (rp_retryMax rp) = cfg_RetryMax cfg"
      "0 < sint (rp_retryInitial rp)" "sint (rp_retryInitial rp) \<le> sint (rp_retryMax rp)" "sint (rp_retryMax rp) < 2 ^ 62"
    by (simp_all add: start(5) NewReplayer_def sint_duration)
  have topic: "rp_topic rp \<noteq> []"
    using start(2) by (auto simp: start(5) NewReplayer_def resolveStreamerOptions_def env_or_def split: if_splits)
  have "0 \<le> shardIndex \<and> shardIndex < shardCount" by (rule resolveShardConfig_valid [OF start(3)])
  then obtain k n where kn: "shardIndex = int k" "shardCount = int n" "k < n" by (metis nonneg_int_cases of_nat_less_iff order_le_less_trans order_less_imp_le)
  note records = LoadFile_nonempty [OF start(4)]
  have "n = 1 \<Longrightarrow> k = 0 \<and> records = shard records n k" using kn(3) shard_1 [of records] by simp
  then have shards: "case recordsForShard rp records of Inr rs \<Rightarrow> rs = shard records n k \<and> rs \<noteq> [] | Inl _ \<Rightarrow> length records \<le> k"
    using recordsForShard_eq [of rp n k records] kn shard_empty_iff [OF kn(3), of records] records by (auto simp: start(5) NewReplayer_def)
  have "rp_shardIndex rp = int k" "rp_shardCount rp = int n" by (simp_all add: start(5) NewReplayer_def kn)
  with shards kn(3) have "\<exists>k n. k < n \<and> rp_shardIndex rp = int k \<and> rp_shardCount rp = int n \<and>
      (case recordsForShard rp records of Inr rs \<Rightarrow> rs = shard records n k \<and> rs \<noteq> [] | Inl _ \<Rightarrow> length records \<le> k)" by blast
  moreover have "sint (rl_sleeps (publishWithRetry marshal rfc3339 rp r sequence attempts) ! i) = min (sint (rp_retryInitial rp) * 2 ^ i) (sint (rp_retryMax rp))"
    if "i < length (rl_sleeps (publishWithRetry marshal rfc3339 rp r sequence attempts))" for marshal rfc3339 r sequence attempts i
    using publish_loop_sleeps [OF durations(3-5)] that by (simp add: publishWithRetry_def)
  ultimately show ?thesis using records topic durations(3,4) by blast
qed

definition sample_env :: "string \<Rightarrow> string" where
  "sample_env name =
     (if name = ''STREAMER_CSV_PATH'' then ''data.csv'' else if name = ''STREAMER_SHARD_COUNT'' then ''2''
      else if name = ''POD_NAME'' then ''streamer-1'' else if name = ''STREAMER_QUEUE_URL'' then ''http://q'' else [])"

lemma sample_streamer:
  "streamer_start (\<lambda>_. Inr sample_config) (\<lambda>_. Inr []) sample_env sample_urls (\<lambda>_. Inr [Inr requiredColumns, Inr requiredColumns, Inr requiredColumns]) =
    Inr (NewReplayer ''gpu'' 1000000000 30000000000 1 2, ''http://q/publish?'', [sample_record_t, sample_record_t])"
  by code_simp

theorem streamer_start_sound_witness:
  "\<exists>rp records rs. streamer_start (\<lambda>_. Inr sample_config) (\<lambda>_. Inr []) sample_env sample_urls
      (\<lambda>_. Inr [Inr requiredColumns, Inr requiredColumns, Inr requiredColumns]) = Inr (rp, ''http://q/publish?'', records) \<and>
    rp_shardIndex rp = 1 \<and> recordsForShard rp records = Inr rs \<and> rs \<noteq> []"
proof -
  let ?rp = "NewReplayer ''gpu'' 1000000000 30000000000 1 2" and ?records = "[sample_record_t, sample_record_t]"
  have "\<forall>text cfg. (\<lambda>_ :: string. Inr sample_config :: go_error + Config) text = Inr cfg \<longrightarrow> cfg_RetryMax cfg < 2 ^ 62"
    by (auto simp: sample_config_def)
  from streamer_start_sound [OF sample_streamer this] obtain k n where kn: "rp_shardIndex ?rp = int k" "rp_shardCount ?rp = int n"
      "case recordsForShard ?rp ?records of Inr rs \<Rightarrow> rs = shard ?records n k \<and> rs \<noteq> [] | Inl _ \<Rightarrow> length ?records \<le> k"
    by blast
  then have "k = 1" by (simp add: NewReplayer_def)
  with kn(3) obtain rs where "recordsForShard ?rp ?records = Inr rs" "rs \<noteq> []" by (cases "recordsForShard ?rp ?records") auto
  with sample_streamer show ?thesis by (auto simp: NewReplayer_def)
qed

end
