(* ===== verification/Api_Docs.thy ===== *)
theory Api_Docs
  imports Telemetry_Api
begin

text \<open>
  The documentation pages of the API (\<^verbatim>\<open>docs.go\<close>). The API description is a generated file that is embedded: it is an
  argument. The Swagger page is modelled to the byte.
\<close>

text \<open>\<^verbatim>\<open>strings.ReplaceAll\<close> for a string to replace that is not empty.\<close>

function ReplaceAll :: "string \<Rightarrow> string \<Rightarrow> string \<Rightarrow> string" where
  "ReplaceAll [] old new = []"
| "ReplaceAll (c # s) old new =
     (if old \<noteq> [] \<and> HasPrefix (c # s) old then new @ ReplaceAll (drop (length old - 1) s) old new else c # ReplaceAll s old new)"
  by pat_completeness auto
termination by (relation "measure (\<lambda>(s, _, _). length s)") auto

definition OpenAPIHandler_ServeHTTP :: "string \<Rightarrow> server_request \<Rightarrow> server_response" where
  "OpenAPIHandler_ServeHTTP swaggerSpec r =
     (if sr_Method r \<noteq> ''GET'' then MethodNotAllowed else reply_body ''application/json'' swaggerSpec)"

definition sq :: char where
  "sq = CHR 0x27"

definition dq :: char where
  "dq = CHR 0x22"

definition swagger_page :: string where
  "swagger_page = Join
     [''<!DOCTYPE html>'',
      ''<html lang='' @ [dq] @ ''en'' @ [dq] @ ''>'',
      ''<head>'',
      ''  <meta charset='' @ [dq] @ ''utf-8'' @ [dq] @ ''>'',
      ''  <meta name='' @ [dq] @ ''viewport'' @ [dq] @ '' content='' @ [dq] @ ''width=device-width, initial-scale=1'' @ [dq] @ ''>'',
      ''  <title>GPU Telemetry API</title>'',
      ''  <link rel='' @ [dq] @ ''stylesheet'' @ [dq] @ '' href='' @ [dq] @ ''https://unpkg.com/swagger-ui-dist@5/swagger-ui.css'' @ [dq] @ ''>'',
      ''</head>'',
      ''<body>'',
      ''  <div id='' @ [dq] @ ''swagger-ui'' @ [dq] @ ''></div>'',
      ''  <script src='' @ [dq] @ ''https://unpkg.com/swagger-ui-dist@5/swagger-ui-bundle.js'' @ [dq] @ ''></script>'',
      ''  <script>'',
      ''    window.onload = function() {'',
      ''      window.ui = SwaggerUIBundle({'',
      ''        url: '' @ [sq] @ ''__SPEC_PATH__'' @ [sq] @ '','',
      ''        dom_id: '' @ [sq] @ ''#swagger-ui'' @ [sq] @ '','',
      ''        deepLinking: true,'',
      ''        displayRequestDuration: true,'',
      ''        tryItOutEnabled: true'',
      ''      });'',
      ''    };'',
      ''  </script>'',
      ''</body>'',
      ''</html>''] [newline]"

definition SwaggerUIHandler_ServeHTTP :: "string \<Rightarrow> server_request \<Rightarrow> server_response" where
  "SwaggerUIHandler_ServeHTTP specPath r =
     (if sr_Method r \<noteq> ''GET'' then MethodNotAllowed
      else reply_body ''text/html; charset=utf-8'' (ReplaceAll swagger_page ''__SPEC_PATH__'' specPath))"

text \<open>The API's routes with these pages.\<close>

definition api_handler ::
  "time_parsers \<Rightarrow> (int \<Rightarrow> string) \<Rightarrow> 'a api_store \<Rightarrow> HTTPMetrics option \<Rightarrow> string \<Rightarrow> server_request \<Rightarrow> server_response" where
  "api_handler tp format6 store metrics swaggerSpec =
     api_newMux tp format6 store metrics (OpenAPIHandler_ServeHTTP swaggerSpec) (SwaggerUIHandler_ServeHTTP ''/openapi.json'')"

text \<open>The page loads the description from the route that serves it.\<close>

lemma swagger_page_linked:
  "HasPrefix (drop 471 (ReplaceAll swagger_page ''__SPEC_PATH__'' ''/openapi.json'')) (''url: '' @ [sq] @ ''/openapi.json'' @ [sq])"
  by code_simp

lemma docs_served:
  assumes "sr_Method r = ''GET''"
  shows "api_handler tp format6 store metrics spec (r\<lparr>sr_Path := ''/openapi.json''\<rparr>) = reply_body ''application/json'' spec"
    and "w_Status (api_handler tp format6 store metrics spec (r\<lparr>sr_Path := ''/swagger''\<rparr>)) = 200"
  using assms by (simp_all add: api_handler_def api_newMux_def OpenAPIHandler_ServeHTTP_def SwaggerUIHandler_ServeHTTP_def)

end
