(* ===== verification/Program_Runs.thy ===== *)
theory Program_Runs
  imports Services Api_Docs
begin

text \<open>
  The \<^verbatim>\<open>run\<close> functions of \<^verbatim>\<open>cmd\<close> from their set-up to their return: the queue and the API serve requests, the processor takes its turns and
  the streamer replays its file until the context ends; then the servers are shut down and the stores closed. A run is
  given what it meets in its environment, its requests included. The lemmas follow the log of a queue node over any number of restarts and crashes,
  and account for every request in the metrics of the API.

  A server is stopped by a signal or because it cannot listen any more: both end the context, and \<^verbatim>\<open>Shutdown\<close>'s error is the result. The deferred
  closing of a store only logs its error.
\<close>

text \<open>\<^verbatim>\<open>main\<close>: the exit status of a program.\<close>

definition exit_status :: "go_error option \<Rightarrow> int" where
  "exit_status err = (case err of None \<Rightarrow> 0 | Some _ \<Rightarrow> 1)"

section \<open>The queue\<close>

text \<open>
  What a run of the queue meets: the codec, the network and the peers' replication endpoints, the file operations, the order of map iterations, the
  configuration file, the environment, the answers of the Kubernetes API at start-up (\<open>qw_connect\<close>, \<open>qw_polls\<close>) and later, and the
  result of shutting the server down.
\<close>

record 'w queue_world =
  qw_json :: json
  qw_net :: network
  qw_send :: "'w \<Rightarrow> RemoteReplicator \<Rightarrow> int \<Rightarrow> Record \<Rightarrow> 'w \<times> go_error option"
  qw_io :: io
  qw_order :: "int list"
  qw_yaml :: "string \<Rightarrow> go_error + Config"
  qw_readFile :: "string \<Rightarrow> go_error + string"
  qw_env :: "string \<Rightarrow> string"
  qw_connect :: "go_error option \<times> go_error option"
  qw_polls :: "(go_error + Pod list) list"
  qw_listed :: "go_error + Pod list"
  qw_shutdown :: "go_error option"

record 'w queue_exit =
  qe_peers :: 'w
  qe_fs :: filesystem
  qe_store :: PartitionStore
  qe_log :: "request_log list"
  qe_responses :: "server_response list"
  qe_result :: "go_error option"

text \<open>The server's handler: the request log around \<^verbatim>\<open>newQueueMux\<close>. A request comes with the time it takes.\<close>

definition queue_handler ::
  "'w queue_world \<Rightarrow> Cluster \<Rightarrow> Logger \<Rightarrow> 'w \<times> queue_node \<Rightarrow> server_request \<times> int \<Rightarrow> (('w \<times> queue_node) \<times> request_log option \<times> server_response) option" where
  "queue_handler q cluster logger s call =
     map_option (\<lambda>(w, n, resp). ((w, n), logging_Middleware logger (Some (Component logger ''queue.http'')) (\<lambda>_. resp) (fst call) (snd call)))
       (newQueueMux (qw_json q) (qw_net q) (qw_send q) (qw_io q) (qw_order q) (Cluster_Nodes cluster (qw_listed q)) (fst s) (snd s) (fst call))"

text \<open>\<open>None\<close> stands for a request that is never answered.\<close>

definition queue_run :: "'w queue_world \<Rightarrow> 'w \<Rightarrow> filesystem \<Rightarrow> (server_request \<times> int) list \<Rightarrow> (go_error + 'w queue_exit) option" where
  "queue_run q w fs calls =
     (case queue_start (qw_yaml q) (qw_readFile q) (qw_env q) (qw_connect q) (qw_polls q) (qw_io q) fs of
        Inl e \<Rightarrow> Some (Inl e)
      | Inr ((fs1, st1, rt), cluster, logger, addr) \<Rightarrow>
          map_option (\<lambda>((w', n), answers).
              Inr \<lparr>qe_peers = w', qe_fs = qn_fs n, qe_store = fst (PartitionStore_Close (qw_io q) (qn_store n) (qw_order q)),
                   qe_log = List.map_filter fst answers, qe_responses = map snd answers, qe_result = qw_shutdown q\<rparr>)
            (serve (queue_handler q cluster logger)
              (w, \<lparr>qn_fs = fs1, qn_store = st1, qn_runtime = rt, qn_metrics = no_replication\<rparr>) calls))"

text \<open>
  A node's runs, one after the other on the same files. What a crash leaves of the files after a run is the run's second component.
\<close>

type_synonym node_run = "(server_request \<times> int) list \<times> (filesystem \<Rightarrow> filesystem)"

fun queue_runs :: "'w queue_world \<Rightarrow> 'w \<Rightarrow> filesystem \<Rightarrow> node_run list \<Rightarrow> (filesystem \<times> 'w queue_exit list) option" where
  "queue_runs q w fs [] = Some (fs, [])"
| "queue_runs q w fs ((calls, crash) # runs) =
     (case queue_run q w fs calls of
        Some (Inr x) \<Rightarrow> map_option (\<lambda>(fs', xs). (fs', x # xs)) (queue_runs q (qe_peers x) (crash (qe_fs x)) runs)
      | _ \<Rightarrow> None)"

section \<open>A node over its restarts\<close>

lemma serve_queue_handler:
  assumes "qw_io q = io_ok" and "serve (node_exec (qw_json q) (qw_net q) (qw_send q) (qw_order q) (Cluster_Nodes cluster (qw_listed q))) s (map fst calls) = Some (s', resps)"
  shows "\<exists>answers. serve (queue_handler q cluster logger) s calls = Some (s', answers) \<and> map snd answers = resps"
  using assms(2)
proof (induction calls arbitrary: s resps)
  case Nil
  then show ?case by simp
next
  case (Cons call calls)
  then obtain s1 resp resps1 where one: "node_exec (qw_json q) (qw_net q) (qw_send q) (qw_order q) (Cluster_Nodes cluster (qw_listed q)) s (fst call) = Some (s1, resp)"
      "serve (node_exec (qw_json q) (qw_net q) (qw_send q) (qw_order q) (Cluster_Nodes cluster (qw_listed q))) s1 (map fst calls) = Some (s', resps1)"
      "resps = resp # resps1"
    by (auto split: option.splits)
  from one(1) have "\<exists>line. queue_handler q cluster logger s call = Some (s1, line, resp)"
    by (auto simp: queue_handler_def node_exec_def assms(1) logging_Middleware_def)
  with Cons.IH [OF one(2)] one(3) show ?case by fastforce
qed

definition run_sound ::
  "'w queue_world \<Rightarrow> PartitionManager \<Rightarrow> (int \<Rightarrow> Message list) \<Rightarrow> (server_request \<times> int) list \<Rightarrow> 'w queue_exit \<Rightarrow> queue_event list \<Rightarrow> bool" where
  "run_sound q pm before calls x es \<longleftrightarrow>
     qe_result x = qw_shutdown q \<and> length (qe_responses x) = length calls \<and>
     list_all2 (\<lambda>(r, resp) e. explains (qw_json q) pm r resp e) (zip (map fst calls) (qe_responses x)) es \<and>
     (\<forall>topic grp p. received (topic, grp) p es =
        take (length (received (topic, grp) p es)) (filter (\<lambda>m. msg_Topic m = topic) (before p @ appended_to p es)))"

lemma findLocalNode_nodes: "findLocalNode nodes hostname = Inr n \<Longrightarrow> nodes \<noteq> []"
  by (auto simp: findLocalNode_def)

lemma appended_to_length: "length (appended_to p es) \<le> length es"
  by (induction p es rule: appended_to.induct) (auto intro: le_SucI)

lemma queue_run_sound:
  assumes "qw_io q = io_ok"
    and "Load (qw_yaml q) (qw_readFile q (env_or (qw_env q) ''QUEUE_CONFIG'' ''config/config.yaml'')) = Inr cfg"
    and "discoverCluster (qw_env q) (cfg_Port cfg) (cfg_Factor cfg) (qw_connect q) (qw_polls q) = Inr (cluster, nodes)"
    and "qw_env q ''HOSTNAME'' \<noteq> []" and "findLocalNode nodes (qw_env q ''HOSTNAME'') = Inr localNode"
    and "\<forall>p \<in> int ` {0..<nat (cfg_Partitions cfg)}. p \<in> set (qw_order q) \<and> on_disk fs (partition_file cfg p) (log p) \<and> length (log p) + length calls < 2 ^ 64"
    and "list_all (admits (qw_json q)) (map fst calls)"
  shows "\<exists>x es. queue_run q w fs calls = Some (Inr x) \<and>
    run_sound q (NewPartitionManager localNode (AssignPartitions nodes (cfg_Partitions cfg) (cfg_Factor cfg))) log calls x es \<and>
    (\<forall>p \<in> int ` {0..<nat (cfg_Partitions cfg)}. intact (qe_fs x) (partition_file cfg p) (log p @ appended_to p es))"
proof -
  have valid: "Validate cfg = None" using assms(2) by (auto simp: Load_def split: sum.splits option.splits)
  then obtain logger where logger: "Configure (cfg_Logging cfg) = Inr logger" using Validate_Configure by blast
  let ?pm = "NewPartitionManager localNode (AssignPartitions nodes (cfg_Partitions cfg) (cfg_Factor cfg))"
  let ?peers = "Cluster_Nodes cluster (qw_listed q)"
  have files: "\<forall>p \<in> int ` {0..<nat (cfg_Partitions cfg)}. p \<in> set (qw_order q) \<and> on_disk fs (partition_file cfg p) (log p) \<and>
      length (log p) + length (map fst calls) < 2 ^ 64" using assms(6) by simp
  from node_lifetime [OF valid findLocalNode_nodes [OF assms(5)] assms(4,5) files assms(7), of "qw_net q" "qw_send q" ?peers w]
  obtain fs1 st1 rt w' n' resps es where life: "start_node io_ok fs cfg nodes (qw_env q ''HOSTNAME'') = Inr (fs1, st1, rt)"
      "serve (node_exec (qw_json q) (qw_net q) (qw_send q) (qw_order q) ?peers)
        (w, \<lparr>qn_fs = fs1, qn_store = st1, qn_runtime = rt, qn_metrics = no_replication\<rparr>) (map fst calls) = Some ((w', n'), resps)"
      "list_all2 (\<lambda>(r, resp) e. explains (qw_json q) (rt_partition rt) r resp e) (zip (map fst calls) resps) es" "length resps = length (map fst calls)"
      "\<forall>p \<in> int ` {0..<nat (cfg_Partitions cfg)}. intact (qn_fs n') (partition_file cfg p) (log p @ appended_to p es)"
      "\<forall>topic grp p. received (topic, grp) p es = take (length (received (topic, grp) p es)) (filter (\<lambda>m. msg_Topic m = topic) (log p @ appended_to p es))"
    by (elim exE conjE) (rule that, assumption+)
  from start_node_runtime [OF life(1)] assms(5) have pm: "rt_partition rt = ?pm" by (auto simp: NewRuntime_def)
  obtain answers where answers: "serve (queue_handler q cluster logger)
      (w, \<lparr>qn_fs = fs1, qn_store = st1, qn_runtime = rt, qn_metrics = no_replication\<rparr>) calls = Some ((w', n'), answers)" "map snd answers = resps"
    using serve_queue_handler [OF assms(1) life(2)] by blast
  have "queue_start (qw_yaml q) (qw_readFile q) (qw_env q) (qw_connect q) (qw_polls q) (qw_io q) fs =
      Inr ((fs1, st1, rt), cluster, logger, '':'' @ itoa (cfg_Port cfg))"
    using assms(1-3) logger life(1) by (simp add: queue_start_def service_config_def)
  with answers(1) obtain x where x: "queue_run q w fs calls = Some (Inr x)" "qe_fs x = qn_fs n'" "qe_responses x = map snd answers"
      "qe_result x = qw_shutdown q"
    by (simp add: queue_run_def)
  have "run_sound q ?pm log calls x es"
    using life(3,4,6) unfolding run_sound_def x(3,4) answers(2) pm by simp
  with x(1) life(5) show ?thesis unfolding x(2) [symmetric] by blast
qed

text \<open>
  C2: The log of a node over its whole life, through any number of restarts and crashes. On partition files that hold any logs, each possibly with a record
  torn by a crash at its end, the queue program with a loadable configuration and a discovered cluster starts, answers every request and
  returns the result of its shutdown; it can then be started again on its files, even if a crash left a part of one more record in any of them.
  Within a run the responses are explained by one event per request, and what every consumer group got of a partition is a prefix of its
  topic's messages in the whole log so far, in order and without a gap or a repetition: since cursors are not kept, every run delivers
  from the beginning of the log. At the end every partition file holds the old log followed by exactly the messages appended in all runs, in order.
\<close>

theorem queue_restarts:
  fixes q :: "'w queue_world"
  assumes "qw_io q = io_ok"
    and "Load (qw_yaml q) (qw_readFile q (env_or (qw_env q) ''QUEUE_CONFIG'' ''config/config.yaml'')) = Inr cfg"
    and "discoverCluster (qw_env q) (cfg_Port cfg) (cfg_Factor cfg) (qw_connect q) (qw_polls q) = Inr (cluster, nodes)"
    and "qw_env q ''HOSTNAME'' \<noteq> []" and "findLocalNode nodes (qw_env q ''HOSTNAME'') = Inr localNode"
    and "\<forall>p \<in> int ` {0..<nat (cfg_Partitions cfg)}. p \<in> set (qw_order q) \<and> on_disk fs (partition_file cfg p) (log p) \<and>
      length (log p) + sum_list (map (length \<circ> fst) runs) < 2 ^ 64"
    and "list_all (\<lambda>(calls, crash). list_all (admits (qw_json q)) (map fst calls) \<and> (\<forall>fs. torn fs (crash fs))) runs"
  shows "\<exists>fs' exits ess. queue_runs q w fs runs = Some (fs', exits) \<and> length exits = length runs \<and> length ess = length runs \<and>
    (\<forall>i < length runs. run_sound q (NewPartitionManager localNode (AssignPartitions nodes (cfg_Partitions cfg) (cfg_Factor cfg)))
       (\<lambda>p. log p @ concat (map (appended_to p) (take i ess))) (fst (runs ! i)) (exits ! i) (ess ! i)) \<and>
    (\<forall>p \<in> int ` {0..<nat (cfg_Partitions cfg)}. on_disk fs' (partition_file cfg p) (log p @ concat (map (appended_to p) ess)))"
  using assms(6,7)
proof (induction runs arbitrary: w fs log)
  case Nil
  then show ?case by simp
next
  case (Cons run runs)
  obtain calls crash where run: "run = (calls, crash)" by (cases run)
  let ?pm = "NewPartitionManager localNode (AssignPartitions nodes (cfg_Partitions cfg) (cfg_Factor cfg))"
  let ?ps = "int ` {0..<nat (cfg_Partitions cfg)}"
  have "\<forall>p \<in> ?ps. p \<in> set (qw_order q) \<and> on_disk fs (partition_file cfg p) (log p) \<and> length (log p) + length calls < 2 ^ 64"
    "list_all (admits (qw_json q)) (map fst calls)"
    using Cons.prems by (auto simp: run)
  from queue_run_sound [OF assms(1-5) this, of w] obtain x es where x: "queue_run q w fs calls = Some (Inr x)" "run_sound q ?pm log calls x es"
      "\<forall>p \<in> ?ps. intact (qe_fs x) (partition_file cfg p) (log p @ appended_to p es)"
    by blast
  let ?log = "\<lambda>p. log p @ appended_to p es"
  have "length es = length calls" using x(2) by (auto simp: run_sound_def dest: list_all2_lengthD)
  then have short: "length (appended_to p es) \<le> length calls" for p using appended_to_length [of p es] by simp
  have files: "\<forall>p \<in> ?ps. p \<in> set (qw_order q) \<and> on_disk (crash (qe_fs x)) (partition_file cfg p) (?log p) \<and>
      length (?log p) + sum_list (map (length \<circ> fst) runs) < 2 ^ 64"
  proof (intro ballI conjI)
    fix p
    assume p: "p \<in> ?ps"
    show "p \<in> set (qw_order q)" using Cons.prems(1) p by blast
    show "on_disk (crash (qe_fs x)) (partition_file cfg p) (?log p)"
      using x(3) p Cons.prems(2) by (intro torn_on_disk [of "qe_fs x"]) (auto simp: run)
    have "length (log p) + (length calls + sum_list (map (length \<circ> fst) runs)) < 2 ^ 64" using Cons.prems(1) p by (auto simp: run comp_def)
    with short [of p] show "length (?log p) + sum_list (map (length \<circ> fst) runs) < 2 ^ 64" by simp
  qed
  have "list_all (\<lambda>(calls, crash). list_all (admits (qw_json q)) (map fst calls) \<and> (\<forall>fs. torn fs (crash fs))) runs" using Cons.prems(2) by simp
  from Cons.IH [OF files this, of "qe_peers x"] obtain fs' exits ess where rest: "queue_runs q (qe_peers x) (crash (qe_fs x)) runs = Some (fs', exits)"
      "length exits = length runs" "length ess = length runs"
      "\<forall>i < length runs. run_sound q ?pm (\<lambda>p. ?log p @ concat (map (appended_to p) (take i ess))) (fst (runs ! i)) (exits ! i) (ess ! i)"
      "\<forall>p \<in> ?ps. on_disk fs' (partition_file cfg p) (?log p @ concat (map (appended_to p) ess))"
    by blast
  have "run_sound q ?pm (\<lambda>p. log p @ concat (map (appended_to p) (take i (es # ess)))) (fst ((run # runs) ! i)) ((x # exits) ! i) ((es # ess) ! i)"
    if "i < length (run # runs)" for i
    using that x(2) rest(4) by (cases i) (simp_all add: run)
  with x(1) rest(1-3,5) show ?case
    by (intro exI [of _ fs'] exI [of _ "x # exits"] exI [of _ "es # ess"]) (simp add: run)
qed

section \<open>The processor and the streamer\<close>

text \<open>
  One turn of the processor is given what it meets: the queue's answers over HTTP, the database's answer to an insert, and whether the context ends
  after an error or while sleeping. The store is closed when the loop has returned; its result is always nil.
\<close>

record 'd processor_turn =
  pt_net :: network
  pt_insert :: "'d \<Rightarrow> TelemetryRecord \<Rightarrow> 'd \<times> go_error option"
  pt_ended :: bool

definition processor_env :: "url_library \<Rightarrow> processorOptions \<Rightarrow> HTTPClient \<Rightarrow> 'd processor_turn \<Rightarrow> (unit, 'd) runner_env" where
  "processor_env lib options client turn =
     (let client = client\<lparr>hc_client := pt_net turn\<rparr> in
      \<lparr>re_consume = (\<lambda>q. (q, HTTPClient_Consume unmarshal_message lib client (po_topic options) (po_group options))),
       re_ack = (\<lambda>q mid. (q, HTTPClient_Ack ack_json lib client mid)),
       re_unmarshal = unmarshal_telemetry, re_insert = pt_insert turn\<rparr>)"

definition processor_run ::
  "(string \<Rightarrow> go_error + Config) \<Rightarrow> (string \<Rightarrow> go_error + string) \<Rightarrow> (string \<Rightarrow> string) \<Rightarrow> url_library \<Rightarrow> network \<Rightarrow> 'd connection \<Rightarrow>
     'd processor_turn list \<Rightarrow> (go_error \<times> 'd option) + 'd \<times> Metrics option \<times> bool" where
  "processor_run yaml readFile env lib net conn turns =
     sum_bind (processor_start yaml readFile env lib net conn) (\<lambda>(options, client, d, metrics).
       case processor_loop (map (\<lambda>turn. (processor_env lib options client turn, pt_ended turn)) turns) () d (Some metrics) of
         (_, d1, metrics1, returned) \<Rightarrow> Inr (if returned then cn_close conn d1 else d1, metrics1, returned))"

text \<open>The processor's metrics server.\<close>

definition processor_metricsMux :: "Metrics option \<Rightarrow> server_request \<Rightarrow> server_response" where
  "processor_metricsMux metrics r = (if sr_Path r = ''/metrics'' then ProcessorMetrics_ServeHTTP metrics r else NotFound)"

text \<open>
  The streamer's result is that of \<^verbatim>\<open>Stream\<close>; \<open>cycles\<close>, \<open>ctxs\<close> and \<open>attempts\<close> are as for \<open>Stream\<close>.
\<close>

definition streamer_run ::
  "(string \<Rightarrow> go_error + Config) \<Rightarrow> (string \<Rightarrow> go_error + string) \<Rightarrow> (string \<Rightarrow> string) \<Rightarrow> url_library \<Rightarrow>
     (string \<Rightarrow> go_error + (go_error + string list) list) \<Rightarrow> (int \<Rightarrow> string) \<Rightarrow> nat \<Rightarrow> go_error option list \<Rightarrow> attempt list \<Rightarrow>
     go_error + (Message \<times> go_error option) list \<times> go_error option" where
  "streamer_run yaml readFile env lib openCSV rfc3339 cycles ctxs attempts =
     sum_bind (streamer_start yaml readFile env lib openCSV) (\<lambda>(rp, publishURL, records).
       Inr (Stream marshal_telemetry rfc3339 rp records cycles ctxs attempts))"

text \<open>
  Every turn that fetches a message either processes it or counts an error, whatever the queue and the database answer; a turn that fetches none counts at most an error.
\<close>

lemma RunOnce_counts:
  assumes "RunOnce env q d (Some m) = (q1, d1, metrics1, r)"
  shows "\<exists>m1. metrics1 = Some m1 \<and> pm_Processed m1 + pm_Errors m1 = pm_Processed m + pm_Errors m + (if r = Inr False then 0 else 1) \<and>
    pm_Consumed m1 - pm_Consumed m \<in> {0, 1} \<and> (r = Inr True \<longrightarrow> pm_Consumed m1 = pm_Consumed m + 1 \<and> pm_Processed m1 = pm_Processed m + 1)"
  using assms
  by (auto simp: RunOnce_def RecordError_def RecordConsumed_def RecordProcessed_def Let_def split: prod.splits sum.splits option.splits)

section \<open>A queue that is restarted\<close>

definition sample_world :: "unit queue_world" where
  "sample_world =
     \<lparr>qw_json = sample_json, qw_net = sample_network, qw_send = (\<lambda>w rr pid r. (w, None)), qw_io = io_ok, qw_order = [0],
      qw_yaml = (\<lambda>_. Inr sample_config), qw_readFile = (\<lambda>_. Inr []),
      qw_env = (\<lambda>name. if name = ''HOSTNAME'' then ''q-0'' else if name = ''QUEUE_NODES'' then ''q-0=http://a,q-1=http://b'' else []),
      qw_connect = (None, None), qw_polls = [], qw_listed = Inr [], qw_shutdown = None\<rparr>"

text \<open>A crash that leaves one byte of another record in the partition's file.\<close>

definition sample_crash :: "filesystem \<Rightarrow> filesystem" where
  "sample_crash fs =
     (case fs (partition_file sample_config 0) of
        None \<Rightarrow> fs
      | Some bytes \<Rightarrow> fs(partition_file sample_config 0 \<mapsto> bytes @ take 1 (record_bytes \<lparr>rec_Offset = 7, rec_Message = sample_message\<rparr>)))"

lemma sample_crash_torn: "torn fs (sample_crash fs)"
proof -
  have "storable (rec_Message \<lparr>rec_Offset = 7, rec_Message = sample_message\<rparr>)" by (simp add: sample_message_storable)
  moreover have "1 < length (record_bytes \<lparr>rec_Offset = 7, rec_Message = sample_message\<rparr>)" by (simp add: record_bytes_def)
  ultimately have "\<exists>r k. storable (rec_Message r) \<and> k < length (record_bytes r) \<and>
      take 1 (record_bytes \<lparr>rec_Offset = 7, rec_Message = sample_message\<rparr>) = take k (record_bytes r)" by blast
  then show ?thesis unfolding torn_def sample_crash_def by (cases "fs (partition_file sample_config 0)") simp_all
qed

definition sample_nodes :: "Node list" where
  "sample_nodes = [\<lparr>node_ID = ''q-0'', node_Address = ''http://a''\<rparr>, \<lparr>node_ID = ''q-1'', node_Address = ''http://b''\<rparr>]"

lemma sample_discovered:
  "discoverCluster (qw_env sample_world) 8080 2 (None, None) [] = Inr (StaticCluster sample_nodes, sample_nodes)"
  by code_simp

theorem queue_restarts_witness:
  "\<exists>fs' exits ess. queue_runs sample_world () torn_file
      [([(sample_post ''/publish'', 5), (sample_get, 2)], sample_crash), ([(sample_get, 1), (sample_post ''/ack'', 3)], \<lambda>fs. fs)] = Some (fs', exits) \<and>
    length exits = 2 \<and> qe_result (exits ! 1) = None \<and>
    on_disk fs' (partition_file sample_config 0) (sample_message # concat (map (appended_to 0) ess))"
proof -
  let ?runs = "[([(sample_post ''/publish'', 5), (sample_get, 2)], sample_crash), ([(sample_get, 1), (sample_post ''/ack'', 3)], \<lambda>fs. fs)] :: node_run list"
  have parts: "int ` {0..<nat (cfg_Partitions sample_config)} = {0}" by (auto simp: sample_config_def)
  have "qw_io sample_world = io_ok" by (simp add: sample_world_def)
  moreover have "Validate sample_config = None" by code_simp
  then have "Load (qw_yaml sample_world) (qw_readFile sample_world (env_or (qw_env sample_world) ''QUEUE_CONFIG'' ''config/config.yaml'')) = Inr sample_config"
    by (simp add: sample_world_def Load_def)
  moreover have "discoverCluster (qw_env sample_world) (cfg_Port sample_config) (cfg_Factor sample_config) (qw_connect sample_world) (qw_polls sample_world) =
      Inr (StaticCluster sample_nodes, sample_nodes)"
    using sample_discovered by (simp add: sample_world_def sample_config_def)
  moreover have "qw_env sample_world ''HOSTNAME'' \<noteq> []" by (simp add: sample_world_def)
  moreover have "findLocalNode sample_nodes (qw_env sample_world ''HOSTNAME'') = Inr (sample_nodes ! 0)"
    by (simp add: sample_world_def findLocalNode_def sample_nodes_def)
  moreover have "\<forall>p \<in> int ` {0..<nat (cfg_Partitions sample_config)}. p \<in> set (qw_order sample_world) \<and>
      on_disk torn_file (partition_file sample_config p) ((\<lambda>_. [sample_message]) p) \<and>
      length ((\<lambda>_ :: int. [sample_message]) p) + sum_list (map (length \<circ> fst) ?runs) < 2 ^ 64"
    unfolding parts by (simp add: torn_file_on_disk sample_world_def)
  moreover have "list_all (\<lambda>(calls, crash). list_all (admits (qw_json sample_world)) (map fst calls) \<and> (\<forall>fs. torn fs (crash fs))) ?runs"
    using sample_admits sample_crash_torn by (simp add: sample_world_def) (simp add: torn_def)
  ultimately have "\<exists>fs' exits ess. queue_runs sample_world () torn_file ?runs = Some (fs', exits) \<and> length exits = length ?runs \<and> length ess = length ?runs \<and>
    (\<forall>i < length ?runs. run_sound sample_world (NewPartitionManager (sample_nodes ! 0) (AssignPartitions sample_nodes (cfg_Partitions sample_config) (cfg_Factor sample_config)))
       (\<lambda>p. (\<lambda>_. [sample_message]) p @ concat (map (appended_to p) (take i ess))) (fst (?runs ! i)) (exits ! i) (ess ! i)) \<and>
    (\<forall>p \<in> int ` {0..<nat (cfg_Partitions sample_config)}. on_disk fs' (partition_file sample_config p) ((\<lambda>_. [sample_message]) p @ concat (map (appended_to p) ess)))"
    by (rule queue_restarts)
  then obtain fs' exits ess where w: "queue_runs sample_world () torn_file ?runs = Some (fs', exits)" "length exits = 2"
      "\<forall>i < length ?runs. qe_result (exits ! i) = qw_shutdown sample_world"
      "on_disk fs' (partition_file sample_config 0) (sample_message # concat (map (appended_to 0) ess))"
    unfolding parts run_sound_def by auto
  from w(3) have "qe_result (exits ! 1) = None" by (auto simp: sample_world_def)
  with w(1,2,4) show ?thesis by blast
qed

section \<open>The API\<close>

text \<open>
  A call to the API: the request, the clock and parsers of times, the store's answers at that moment, the time that the inner handler takes and the time
  that the whole request takes.
\<close>

record 'a api_call =
  ac_request :: server_request
  ac_times :: time_parsers
  ac_store :: "'a api_store"
  ac_elapsed :: int
  ac_total :: int

text \<open>The server's handler: the request log around the metrics middleware around the routes.\<close>

definition api_server ::
  "(int \<Rightarrow> string) \<Rightarrow> string \<Rightarrow> Logger \<Rightarrow> HTTPMetrics option \<Rightarrow> 'a api_call \<Rightarrow> HTTPMetrics option \<times> request_log option \<times> server_response" where
  "api_server format6 swaggerSpec logger metrics call =
     (case HTTPMetrics_Middleware (Some (api_handler (ac_times call) format6 (ac_store call) metrics swaggerSpec)) metrics
             (ac_request call) (ac_elapsed call) of
        (metrics1, response) \<Rightarrow>
          (metrics1, logging_Middleware logger (Some (Component logger ''api.http'')) (\<lambda>_. response) (ac_request call) (ac_total call)))"

fun api_serve ::
  "(int \<Rightarrow> string) \<Rightarrow> string \<Rightarrow> Logger \<Rightarrow> HTTPMetrics option \<Rightarrow> 'a api_call list \<Rightarrow> HTTPMetrics option \<times> (request_log option \<times> server_response) list" where
  "api_serve format6 swaggerSpec logger metrics [] = (metrics, [])"
| "api_serve format6 swaggerSpec logger metrics (call # calls) =
     (case api_server format6 swaggerSpec logger metrics call of
        (metrics1, answer) \<Rightarrow> (case api_serve format6 swaggerSpec logger metrics1 calls of (metrics2, answers) \<Rightarrow> (metrics2, answer # answers)))"

record 'd api_exit =
  ae_database :: 'd
  ae_metrics :: "HTTPMetrics option"
  ae_log :: "request_log list"
  ae_responses :: "server_response list"
  ae_result :: "go_error option"

definition api_run ::
  "(string \<Rightarrow> go_error + Config) \<Rightarrow> (string \<Rightarrow> go_error + string) \<Rightarrow> (string \<Rightarrow> string) \<Rightarrow> 'd connection \<Rightarrow>
     (int \<Rightarrow> string) \<Rightarrow> string \<Rightarrow> 'a api_call list \<Rightarrow> go_error option \<Rightarrow> (go_error \<times> 'd option) + 'd api_exit" where
  "api_run yaml readFile env conn format6 swaggerSpec calls shutdown =
     sum_bind (api_start yaml readFile env conn) (\<lambda>(d, metrics, logger, addr).
       case api_serve format6 swaggerSpec logger (Some metrics) calls of
         (metrics1, answers) \<Rightarrow>
           Inr \<lparr>ae_database = cn_close conn d, ae_metrics = metrics1, ae_log = List.map_filter fst answers, ae_responses = map snd answers,
                ae_result = shutdown\<rparr>)"

text \<open>What the middleware observes of the served calls: all but those to the metrics and health pages.\<close>

definition served_observations :: "('a api_call \<times> server_response) list \<Rightarrow> observation list" where
  "served_observations handled =
     map (\<lambda>(call, response). (sr_Method (ac_request call), normalizeMetricPath (sr_Path (ac_request call)), w_Status response, ac_elapsed call))
       (filter (\<lambda>(call, response). \<not> shouldSkipMetricPath (normalizeMetricPath (sr_Path (ac_request call)))) handled)"

lemma api_serve_observes:
  assumes "api_serve format6 spec logger (Some m) calls = (m', answers)"
  shows "length answers = length calls \<and>
    m' = Some (foldl (\<lambda>m (method, path, status, duration). observe m method path status duration) m (served_observations (zip calls (map snd answers))))"
  using assms
proof (induction calls arbitrary: m answers)
  case Nil
  then show ?case by (simp add: served_observations_def)
next
  case (Cons call calls)
  let ?path = "normalizeMetricPath (sr_Path (ac_request call))"
  obtain response m1 where one: "api_handler (ac_times call) format6 (ac_store call) (Some m) spec (ac_request call) = response"
      "m1 = (if shouldSkipMetricPath ?path then m else observe m (sr_Method (ac_request call)) ?path (w_Status response) (ac_elapsed call))" by blast
  have served: "\<exists>line. api_server format6 spec logger (Some m) call = (Some m1, line, response)"
    by (simp add: api_server_def HTTPMetrics_Middleware_def Let_def one logging_Middleware_def)
  obtain answers1 where rest: "api_serve format6 spec logger (Some m1) calls = (m', answers1)" "\<exists>line. answers = (line, response) # answers1"
    using Cons.prems served by (auto split: prod.splits)
  from Cons.IH [OF rest(1)] rest(2) one(2) show ?case by (auto simp: served_observations_def)
qed

text \<open>
  C39: The API program accounts for every request in its metrics. Whatever requests it served, each got a response, and for every method and path, with
  the path reduced to one of a fixed set of labels, the histogram's count is the number of requests to it, the bucket of each bound
  the number of those that took at most that long, so that buckets are cumulative, and the counter of each status the number of responses with that status that were sent.
  Requests to the metrics and health pages are not counted. The counters are 64-bit numbers and wrap around.
\<close>

theorem api_metrics_exact:
  assumes "api_run yaml readFile env conn format6 spec calls shutdown = Inr x"
  shows "\<exists>m. ae_metrics x = Some m \<and> length (ae_responses x) = length calls \<and>
    (let h = lookup_or fresh_histogram (hm_durationHistograms m) (durationMetricKey method path);
         reqs = filter (\<lambda>(call, response). sr_Method (ac_request call) = method \<and> normalizeMetricPath (sr_Path (ac_request call)) = path \<and>
           \<not> shouldSkipMetricPath path) (zip calls (ae_responses x))
     in dh_Count h = of_nat (length reqs) \<and>
        dh_Buckets h = map (\<lambda>(bound, _). of_nat (length (filter (\<lambda>(call, _). ac_elapsed call \<le> bound) reqs))) httpDurationBuckets \<and>
        dh_Sum h = sum_list (map (\<lambda>(call, _). ac_elapsed call) reqs) \<and>
        lookup_or 0 (hm_requestCounts m) (requestMetricKey method path (itoa status)) =
          of_nat (length (filter (\<lambda>(_, response). w_Status response = status) reqs)))"
proof -
  obtain d logger addr where "api_start yaml readFile env conn = Inr (d, NewHTTPMetrics, logger, addr)"
    using assms by (auto simp: api_run_def api_start_def sum_bind_eq_Inr split: sum.splits)
  moreover obtain m1 answers where "api_serve format6 spec logger (Some NewHTTPMetrics) calls = (m1, answers)" by (cases "api_serve format6 spec logger (Some NewHTTPMetrics) calls")
  ultimately obtain d logger addr answers where start: "api_start yaml readFile env conn = Inr (d, NewHTTPMetrics, logger, addr)"
      "api_serve format6 spec logger (Some NewHTTPMetrics) calls = (ae_metrics x, answers)" "ae_responses x = map snd answers"
    using assms by (auto simp: api_run_def)
  let ?served = "zip calls (map snd answers)"
  have m: "length answers = length calls" "ae_metrics x = Some (observe_all (served_observations ?served))"
    using api_serve_observes [OF start(2)] by (simp_all add: observe_all_def)
  have seen: "seen (served_observations handled) method path =
      map (\<lambda>(call, response). (method, path, w_Status response, ac_elapsed call))
        (filter (\<lambda>(call, response). sr_Method (ac_request call) = method \<and> normalizeMetricPath (sr_Path (ac_request call)) = path \<and>
           \<not> shouldSkipMetricPath path) handled)" for handled
    by (induction handled) (auto simp: seen_def served_observations_def)
  show ?thesis
    using histogram_exact [of "served_observations ?served" "method" "path" "status"] m
    by (simp add: seen start(3) Let_def case_prod_unfold filter_map comp_def cong: map_cong)
qed


section \<open>An API that is queried\<close>

text \<open>A connection to a database that counts the statements it executes, and a call for the GPUs of an empty store.\<close>

definition sample_connection :: "nat connection" where
  "sample_connection = \<lparr>cn_open = (\<lambda>_. Inr 0), cn_ping = (\<lambda>_. None), cn_exec = (\<lambda>d _. (d + 1, None)), cn_close = (\<lambda>d. d)\<rparr>"

definition sample_call :: "string \<Rightarrow> int \<Rightarrow> unit api_call" where
  "sample_call path elapsed =
     \<lparr>ac_request = \<lparr>sr_Method = ''GET'', sr_Path = path, sr_Query = [], sr_Body = [], sr_ctx = None\<rparr>,
      ac_times = \<lparr>tp_time = (\<lambda>_. None), tp_duration = (\<lambda>_. None), tp_now = 0\<rparr>,
      ac_store = \<lparr>as_list = Inr [], as_query = (\<lambda>_. Inr []), as_of_gpus = (\<lambda>_. Inr ''[]''), as_of_samples = (\<lambda>_. Inr ''[]''),
                  as_of_gpu_samples = (\<lambda>_ _. Inr ''[]'')\<rparr>,
      ac_elapsed = elapsed, ac_total = elapsed\<rparr>"

lemma sample_service_config: "\<exists>logger. service_config (\<lambda>_. Inr sample_config) (\<lambda>_. Inr []) env name = Inr (sample_config, logger)"
proof -
  have valid: "Validate sample_config = None" by code_simp
  with Validate_Configure obtain logger where "Configure (cfg_Logging sample_config) = Inr logger" by blast
  with valid show ?thesis by (simp add: service_config_def Load_def)
qed

lemma api_server_response:
  "snd (snd (api_server format6 spec logger m call)) = api_handler (ac_times call) format6 (ac_store call) m spec (ac_request call)"
  by (simp add: api_server_def HTTPMetrics_Middleware_def logging_Middleware_def Let_def)

abbreviation sample_answer :: "HTTPMetrics option \<Rightarrow> string \<Rightarrow> int \<Rightarrow> server_response" where
  "sample_answer m path elapsed \<equiv> api_handler (ac_times (sample_call path elapsed)) (\<lambda>_. []) (ac_store (sample_call path elapsed)) m ''{}''
     (ac_request (sample_call path elapsed))"

lemma sample_list_status: "w_Status (sample_answer m ''/api/v1/gpus'' elapsed) = 200"
  by (simp add: sample_call_def api_handler_def api_newMux_def GPUListHandler_ServeHTTP_def write_json_def TrimSuffix_def HasSuffix_def)

lemma sample_health_status: "w_Status (sample_answer m ''/health'' elapsed) = 200"
  by (simp add: sample_call_def api_handler_def api_newMux_def HealthHandler_def)

lemma sample_slash_status: "w_Status (sample_answer m ''/api/v1/gpus/'' elapsed) = 404"
proof -
  have get: "sr_Method (ac_request (sample_call ''/api/v1/gpus/'' elapsed)) = ''GET''" "sr_Path (ac_request (sample_call ''/api/v1/gpus/'' elapsed)) = ''/api/v1/gpus/''"
    by (simp_all add: sample_call_def)
  show ?thesis unfolding api_handler_def conjunct1 [OF gpu_list_trailing_slash [OF get]] by (simp add: NotFound_def)
qed

lemmas sample_statuses = sample_list_status sample_health_status sample_slash_status

theorem api_metrics_exact_witness:
  "\<exists>x m. api_run (\<lambda>_. Inr sample_config) (\<lambda>_. Inr []) (\<lambda>_. []) sample_connection (\<lambda>_. []) ''{}''
      [sample_call ''/api/v1/gpus'' 7000000, sample_call ''/health'' 1, sample_call ''/api/v1/gpus/'' 3] None = Inr x \<and> ae_metrics x = Some m \<and>
    dh_Count (lookup_or fresh_histogram (hm_durationHistograms m) (durationMetricKey ''GET'' ''/api/v1/gpus'')) = 2 \<and>
    lookup_or 0 (hm_requestCounts m) (requestMetricKey ''GET'' ''/api/v1/gpus'' (itoa 404)) = 1"
proof -
  let ?calls = "[sample_call ''/api/v1/gpus'' 7000000, sample_call ''/health'' 1, sample_call ''/api/v1/gpus/'' 3]"
  let ?run = "api_run (\<lambda>_. Inr sample_config) (\<lambda>_. Inr []) (\<lambda>_. []) sample_connection (\<lambda>_. []) ''{}'' ?calls None"
  obtain logger where "service_config (\<lambda>_. Inr sample_config) (\<lambda>_. Inr []) (\<lambda>_. []) ''API_CONFIG'' = Inr (sample_config, logger)"
    using sample_service_config by blast
  then obtain d addr where start: "api_start (\<lambda>_. Inr sample_config) (\<lambda>_. Inr []) (\<lambda>_. []) sample_connection = Inr (d, NewHTTPMetrics, logger, addr)"
    by (simp add: api_start_def OpenStore_def Store_init_def sample_connection_def schema_statements_def)
  have "\<exists>x. ?run = Inr x \<and> map w_Status (ae_responses x) = [200, 200, 404]"
    by (simp add: api_run_def start split_def api_server_response sample_statuses)
  then obtain x where x: "?run = Inr x" "map w_Status (ae_responses x) = [200, 200, 404]" by (cases ?run) auto
  then obtain r1 r2 r3 where rs: "ae_responses x = [r1, r2, r3]" "w_Status r1 = 200" "w_Status r3 = 404" by (auto simp: map_eq_Cons_conv)
  have paths: "normalizeMetricPath ''/api/v1/gpus'' = ''/api/v1/gpus''" "normalizeMetricPath ''/api/v1/gpus/'' = ''/api/v1/gpus''"
      "normalizeMetricPath ''/health'' = ''/health''" "\<not> shouldSkipMetricPath ''/api/v1/gpus''" by code_simp+
  from api_metrics_exact [OF x(1), of "''GET''" "''/api/v1/gpus''" 404] x(1) show ?thesis
    by (auto simp: rs sample_call_def paths Let_def)
qed


end
