(* ===== verification/Accepted_Messages.thy ===== *)
theory Accepted_Messages
  imports Client_Server
begin

text \<open>
  Whatever a client sends to \<^verbatim>\<open>/publish\<close>, a message that the queue accepts can be delivered: decoding leaves well-formed UTF-8 in its strings and one JSON value in its payload, nested one level
  less deep than the request, so that the consumer's response can be encoded and is decoded to the same message, and its acknowledgement names it.
\<close>

section \<open>Strings that were decoded\<close>

lemma valid_utf8_Cons: "rune_len (c # s) = Suc k \<Longrightarrow> valid_utf8 (c # s) \<longleftrightarrow> valid_utf8 (drop k s)"
  by (simp add: valid_utf8.simps(2))

lemma valid_utf8_append: "valid_utf8 a \<Longrightarrow> valid_utf8 b \<Longrightarrow> valid_utf8 (a @ b)"
proof (induction a rule: valid_utf8.induct)
  case (2 c s)
  then have k: "rune_len (c # s) \<noteq> 0" "valid_utf8 (drop (rune_len (c # s) - 1) s)" by (simp_all add: valid_utf8.simps(2))
  let ?k = "rune_len (c # s)"
  have len: "?k \<le> Suc (length s)" using rune_len_le [of "c # s"] by simp
  have rest: "take ?k (c # s) @ drop ?k (c # s) @ b = c # s @ b" by simp
  from rune_len_take [OF k(1), of "drop ?k (c # s) @ b"] have same: "rune_len (c # s @ b) = ?k" unfolding rest .
  have "valid_utf8 (drop (?k - 1) s @ b)" using 2 k by simp
  then show ?case using k(1) len by (simp add: valid_utf8.simps(2) same)
qed simp

lemma valid_utf8_sequence: "rune_len s \<noteq> 0 \<Longrightarrow> valid_utf8 (take (rune_len s) s)"
proof (cases s)
  case (Cons c r)
  assume k: "rune_len s \<noteq> 0"
  from rune_len_take [OF k, of "[]"] have same: "rune_len (take (rune_len s) s) = rune_len s" by simp
  obtain j where j: "rune_len s = Suc j" using k by (cases "rune_len s") auto
  then have "take (rune_len s) s = c # take j r" using Cons by simp
  with same j show ?thesis by (simp add: valid_utf8.simps(2))
qed (simp add: rune_len_def)

lemma valid_utf8_single: "(of_char c :: nat) < 128 \<Longrightarrow> valid_utf8 [c]"
  by (simp add: valid_utf8.simps(2) rune_len_ascii)

lemma valid_utf8_replacement: "valid_utf8 replacement"
  by code_simp

lemma valid_utf8_two: "2 \<le> (x :: nat) \<Longrightarrow> x < 32 \<Longrightarrow> (y :: nat) < 64 \<Longrightarrow> valid_utf8 [char_of (192 + x), char_of (128 + y)]"
  by (simp add: valid_utf8.simps(2) rune_len_def seq_len_def second_range_def Let_def)

lemma valid_utf8_three:
  fixes x y z :: nat
  assumes "x < 16" and "y < 64" and "z < 64" and "x = 0 \<longrightarrow> 32 \<le> y" and "x = 13 \<longrightarrow> y < 32"
  shows "valid_utf8 [char_of (224 + x), char_of (128 + y), char_of (128 + z)]"
  using assms by (auto simp: valid_utf8.simps(2) rune_len_def seq_len_def second_range_def continuation_def Let_def)

lemma valid_utf8_four:
  fixes x y z w :: nat
  assumes "x < 5" and "y < 64" and "z < 64" and "w < 64" and "x = 0 \<longrightarrow> 16 \<le> y" and "x = 4 \<longrightarrow> y < 16"
  shows "valid_utf8 [char_of (240 + x), char_of (128 + y), char_of (128 + z), char_of (128 + w)]"
  using assms by (auto simp: valid_utf8.simps(2) rune_len_def seq_len_def second_range_def continuation_def Let_def)

lemma valid_utf8_encode: "valid_utf8 (utf8_encode n)"
proof -
  consider (one) "n < 128" | (two) "128 \<le> n" "n < 2048" | (bad) "55296 \<le> n \<and> n < 57344 \<or> 1114111 < n"
    | (three) "2048 \<le> n" "n < 65536" "n < 55296 \<or> 57344 \<le> n" | (four) "65536 \<le> n" "n \<le> 1114111"
    by linarith
  then show ?thesis
  proof cases
    case one
    then show ?thesis by (simp add: utf8_encode_def valid_utf8_single)
  next
    case two
    then have "2 \<le> n div 64" "n div 64 < 32" using mult_div_mod_eq [of 64 n] mod_less_divisor [of 64 n] by linarith+
    with two valid_utf8_two [of "n div 64" "n mod 64"] show ?thesis by (simp add: utf8_encode_def)
  next
    case bad
    then show ?thesis by (auto simp: utf8_encode_def valid_utf8_replacement)
  next
    case three
    define m where "m = n div 64"
    have "32 \<le> m" "m < 1024" "m < 864 \<or> 896 \<le> m" using three mult_div_mod_eq [of 64 n] mod_less_divisor [of 64 n] unfolding m_def by linarith+
    then have "m div 64 < 16" "m div 64 = 0 \<longrightarrow> 32 \<le> m mod 64" "m div 64 = 13 \<longrightarrow> m mod 64 < 32"
      using mult_div_mod_eq [of 64 m] mod_less_divisor [of 64 m] by linarith+
    moreover have "m div 64 = n div 4096" by (simp add: m_def div_mult2_eq [symmetric])
    ultimately have "n div 4096 < 16" "n div 4096 = 0 \<longrightarrow> 32 \<le> n div 64 mod 64" "n div 4096 = 13 \<longrightarrow> n div 64 mod 64 < 32"
      by (simp_all add: m_def)
    with three valid_utf8_three [of "n div 4096" "n div 64 mod 64" "n mod 64"] show ?thesis by (auto simp: utf8_encode_def)
  next
    case four
    define m where "m = n div 4096"
    have "16 \<le> m" "m < 272" using four mult_div_mod_eq [of 4096 n] mod_less_divisor [of 4096 n] unfolding m_def by linarith+
    then have "m div 64 < 5" "m div 64 = 0 \<longrightarrow> 16 \<le> m mod 64" "m div 64 = 4 \<longrightarrow> m mod 64 < 16"
      using mult_div_mod_eq [of 64 m] mod_less_divisor [of 64 m] by linarith+
    moreover have "m div 64 = n div 262144" by (simp add: m_def div_mult2_eq [symmetric])
    ultimately have "n div 262144 < 5" "n div 262144 = 0 \<longrightarrow> 16 \<le> n div 4096 mod 64" "n div 262144 = 4 \<longrightarrow> n div 4096 mod 64 < 16"
      by (simp_all add: m_def)
    with four valid_utf8_four [of "n div 262144" "n div 4096 mod 64" "n div 64 mod 64" "n mod 64"] show ?thesis by (simp add: utf8_encode_def)
  qed
qed

text \<open>The inside of a string literal that the scanner accepts, up to the closing quote.\<close>

definition literal_body :: "string \<Rightarrow> char \<Rightarrow> bool" where
  "literal_body s q \<longleftrightarrow> (\<exists>lim. value_run lim (InString, []) (s @ [q]) \<noteq> None)"

lemma literal_body_Cons:
  assumes "literal_body (c # s) q"
  shows "c \<noteq> CHR 0x22" and "32 \<le> (of_char c :: nat)" and "c \<noteq> CHR 0x5C \<Longrightarrow> literal_body s q"
proof -
  obtain lim st where run: "value_run lim (InString, []) (c # s @ [q]) = Some st" using assms by (auto simp: literal_body_def)
  show "c \<noteq> CHR 0x22"
  proof
    assume "c = CHR 0x22"
    with run have "value_run lim (EndValue, []) (s @ [q]) = Some st" by (simp add: json_step_def)
    then show False by (cases s) (simp_all add: value_done_def)
  qed
  with run show "32 \<le> (of_char c :: nat)" by (auto simp: json_step_def split: if_splits)
  assume "c \<noteq> CHR 0x5C"
  with run \<open>c \<noteq> CHR 0x22\<close> have "value_run lim (InString, []) (s @ [q]) = Some st" by (auto simp: json_step_def split: if_splits)
  then show "literal_body s q" by (auto simp: literal_body_def simp del: split_paired_Ex)
qed

lemma literal_body_drop:
  assumes "literal_body (p @ s) q" and "CHR 0x5C \<notin> set p"
  shows "literal_body s q"
  using assms by (induction p) (auto dest: literal_body_Cons(3))

lemma literal_body_hex:
  assumes "value_run lim (InHex n, []) (s @ [q]) \<noteq> None" and "0 < n" and "unhex q = None"
  shows "n \<le> length s \<and> literal_body (drop n s) q"
  using assms
proof (induction n arbitrary: s)
  case (Suc n)
  then obtain c r where s: "s = c # r" by (cases s) (auto simp: json_step_def split: if_splits)
  show ?case
  proof (cases n)
    case 0
    with Suc.prems(1) s show ?thesis by (auto simp: json_step_def literal_body_def split: if_splits)
  next
    case (Suc m)
    with Suc.prems Suc.IH [of r] s show ?thesis by (auto simp: json_step_def split: if_splits)
  qed
qed simp

lemma literal_body_escape:
  assumes "literal_body (CHR 0x5C # e # s) q" and "unhex q = None"
  shows "if e = CHR ''u'' then 4 \<le> length s \<and> literal_body (drop 4 s) q else (of_char (simple_escape e) :: nat) < 128 \<and> literal_body s q"
proof -
  obtain lim where run: "value_run lim (InEscape, []) (e # s @ [q]) \<noteq> None" using assms(1) by (auto simp: literal_body_def json_step_def)
  show ?thesis
  proof (cases "e = CHR ''u''")
    case True
    with run have "value_run lim (InHex 4, []) (s @ [q]) \<noteq> None" by (simp add: json_step_def)
    from literal_body_hex [OF this _ assms(2)] True show ?thesis by simp
  next
    case False
    with run have "e \<in> {CHR ''b'', CHR ''f'', CHR ''n'', CHR ''r'', CHR ''t'', CHR 0x5C, CHR ''/'', CHR 0x22}"
      by (auto simp: json_step_def split: if_splits)
    moreover from this False run have "literal_body s q" by (auto simp: json_step_def literal_body_def)
    moreover have "(of_char (simple_escape e) :: nat) < 128" using calculation(1) by (elim insertE; simp add: simple_escape_def)
    ultimately show ?thesis using False by simp
  qed
qed

lemma unquote_valid:
  assumes "literal_body s q" and "unhex q = None"
  shows "valid_utf8 (unquote_body s)"
  using assms(1)
proof (induction s rule: length_induct)
  case (1 s)
  show ?case
  proof (cases s)
    case (Cons c r)
    show ?thesis
    proof (cases "c = CHR 0x5C")
      case True
      show ?thesis
      proof (cases r)
        case Nil
        with Cons True show ?thesis by (simp add: unquote_body.simps(2))
      next
        case r: (Cons e r')
        note escape = literal_body_escape [OF "1.prems" [unfolded Cons True r] assms(2)]
        show ?thesis
        proof (cases "e = CHR ''u''")
          case False
          with escape "1.IH" [rule_format, of r'] Cons r have "valid_utf8 ([simple_escape e] @ unquote_body r')"
            by (intro valid_utf8_append valid_utf8_single) simp_all
          with Cons True r False show ?thesis by (simp add: unquote_body.simps(2))
        next
          case u: True
          let ?rest = "drop 4 r'"
          from escape u have rest: "literal_body ?rest q" by simp
          from "1.IH" [rule_format, of ?rest] rest Cons r have v1: "valid_utf8 (unquote_body ?rest)" by simp
          have v2: "valid_utf8 (unquote_body (drop 6 ?rest))" if "low_surrogate ?rest \<noteq> None"
          proof -
            from that have pre: "HasPrefix ?rest [CHR 0x5C, CHR ''u'']" by (auto simp: low_surrogate_def split: if_splits)
            then obtain r2 where r2: "?rest = CHR 0x5C # CHR ''u'' # r2" by (cases ?rest; cases "tl ?rest") auto
            from literal_body_escape [OF rest [unfolded r2] assms(2)] have "literal_body (drop 4 r2) q" by simp
            moreover have "drop 6 ?rest = drop 4 r2" unfolding r2 by simp
            moreover have "length (drop 4 r2) < length s" using Cons r arg_cong [OF r2, of length] by simp
            ultimately show ?thesis using "1.IH" by simp
          qed
          show ?thesis
            using Cons True r u v1 v2
            by (auto simp: unquote_body.simps(2) Let_def valid_utf8_append valid_utf8_encode valid_utf8_replacement split: option.splits)
        qed
      qed
    next
      case False
      let ?k = "rune_len (c # r)"
      show ?thesis
      proof (cases "?k = 0")
        case True
        have "valid_utf8 (unquote_body r)" using "1.IH" literal_body_Cons(3) [OF "1.prems" [unfolded Cons] False] Cons by simp
        with Cons False True valid_utf8_append [OF valid_utf8_replacement] show ?thesis by (simp add: unquote_body.simps(2))
      next
        case k: False
        have slash: "CHR 0x5C \<notin> set (take ?k (c # r))"
        proof (cases "128 \<le> (of_char c :: nat)")
          case True
          with rune_len_high [of "CHR 0x5C" c r] show ?thesis by auto
        next
          case low: False
          then have "?k = 1" by (simp add: rune_len_ascii)
          with False show ?thesis by simp
        qed
        have "literal_body (take ?k (c # r) @ drop ?k (c # r)) q" using "1.prems" Cons by simp
        from literal_body_drop [OF this slash] have "literal_body (drop ?k (c # r)) q" .
        moreover have "drop ?k (c # r) = drop (?k - 1) r" using k by (cases ?k) simp_all
        ultimately have "valid_utf8 (unquote_body (drop (?k - 1) r))" using "1.IH" Cons by simp
        with valid_utf8_append [OF valid_utf8_sequence [OF k]] Cons False k show ?thesis by (simp add: unquote_body.simps(2) Let_def)
      qed
    qed
  qed simp
qed

section \<open>Values inside a value\<close>

lemma take_value_ends:
  "take_value lim st s = Some (v, rest) \<Longrightarrow> \<exists>e. value_run lim st v = Some e \<and> value_end e"
  by (induction lim st s arbitrary: v rule: take_value.induct) (auto split: if_splits option.splits simp: value_done_def value_end_def)

lemma skip_space_head: "skip_space s = c # r \<Longrightarrow> \<not> json_space c"
  by (metis hd_dropWhile list.discI list.sel(1))

lemma scan_value_json:
  assumes "scan_value (skip_space s) = Some (v, rest)"
  shows "json_value max_nesting v"
proof -
  obtain e where e: "value_run max_nesting (BeginValue, []) v = Some e" "value_end e" using take_value_ends [OF assms] by blast
  then have "v \<noteq> []" by (auto simp: value_end_def num_ends_def)
  moreover have "skip_space s = v @ rest" by (rule take_value_append [OF assms])
  ultimately show ?thesis using e skip_space_head [of s "hd v" "tl v @ rest"] by (cases v) (auto simp: json_value_def)
qed

definition in_literal :: "jmode \<Rightarrow> bool" where
  "in_literal m \<longleftrightarrow> m = InString \<or> m = InEscape \<or> (\<exists>n. m = InHex n)"

lemma literal_step:
  assumes "in_literal m" and "json_step lim (m, k) c = Some (m1, k1)"
  shows "k1 = k \<and> (in_literal m1 \<or> m1 = EndValue \<and> c = CHR 0x22)"
proof -
  from assms(1) consider "m = InString" | "m = InEscape" | n where "m = InHex n" by (auto simp: in_literal_def)
  then show ?thesis
  proof cases
    case 1
    with assms(2) show ?thesis by (simp add: json_step_def in_literal_def split: if_splits)
  next
    case 2
    with assms(2) show ?thesis by (auto simp: json_step_def in_literal_def split: if_splits)
  next
    case 3
    with assms(2) show ?thesis by (auto simp: json_step_def in_literal_def split: if_splits)
  qed
qed

lemma literal_run_from:
  "value_run lim (m, []) s = Some st \<Longrightarrow> in_literal m \<or> m = EndValue \<Longrightarrow> snd st = [] \<and> (in_literal (fst st) \<or> fst st = EndValue)"
proof (induction s arbitrary: m)
  case (Cons c s)
  show ?case
  proof (cases "m = EndValue")
    case True
    with Cons.prems(1) show ?thesis by (simp add: value_done_def)
  next
    case False
    then have m: "in_literal m" using Cons.prems(2) by simp
    obtain m1 k1 where one: "json_step lim (m, []) c = Some (m1, k1)" "value_run lim (m1, k1) s = Some st"
      using Cons.prems(1) by (simp split: if_splits option.splits) (metis surj_pair)
    from literal_step [OF m one(1)] Cons.IH [of m1] one(2) show ?thesis by auto
  qed
qed auto

lemma literal_quote:
  assumes "value_run lim (InString, []) s = Some st" and "value_run lim st [q] = Some e" and "value_end e"
  shows "unhex q = None"
proof -
  have "in_literal InString" by (simp add: in_literal_def)
  with literal_run_from [OF assms(1)] have st: "snd st = []" "in_literal (fst st) \<or> fst st = EndValue" by auto
  obtain m where m: "st = (m, [])" using st(1) by (cases st) simp
  have "m \<noteq> EndValue" using assms(2) by (auto simp: m value_done_def)
  with st(2) m have lit: "in_literal m" by simp
  obtain m1 k1 where e: "e = (m1, k1)" by (cases e)
  have "json_step lim (m, []) q = Some (m1, k1)" using assms(2) by (simp add: m e split: if_splits option.splits)
  from literal_step [OF lit this] assms(3) have "q = CHR 0x22" by (auto simp: e value_end_def num_ends_def in_literal_def)
  then show ?thesis by (simp add: unhex_def)
qed

text \<open>A literal that the scanner accepts reads as well-formed UTF-8.\<close>

lemma json_unquote_valid:
  assumes "json_value lim v" and "HasPrefix v [CHR 0x22]"
  shows "valid_utf8 (json_unquote v)"
proof -
  obtain s where v: "v = CHR 0x22 # s" using assms(2) by (cases v) auto
  obtain e where e: "value_run lim (InString, []) s = Some e" "value_end e"
    using assms(1) by (auto simp: v json_value_def json_step_def begin_value_def json_space_def is_digit_def split: option.splits)
  obtain s' q where s: "s = s' @ [q]" using e by (cases s rule: rev_cases) (auto simp: value_end_def num_ends_def)
  have "literal_body s' q" using e(1) by (auto simp: literal_body_def s simp del: split_paired_Ex)
  moreover have "unhex q = None"
  proof -
    obtain st where st: "value_run lim (InString, []) s' = Some st" "value_run lim st [q] = Some e"
      using e(1) by (auto simp: s value_run_append split: option.splits)
    show ?thesis by (rule literal_quote [OF st e(2)])
  qed
  ultimately show ?thesis using unquote_valid by (simp add: json_unquote_def v s)
qed

text \<open>What the scanner does with a value inside of another one, it does with the value alone, with a limit that is lower by the nesting outside.\<close>

lemma json_step_inside:
  assumes "json_step lim0 (m, k) c = Some (m1, k1)" and "\<not> value_done (m, k) c" and "b \<noteq> []" and "json_step lim (m, k @ b) c = Some st"
  shows "st = (m1, k1 @ b) \<and> json_step (lim - length b) (m, k) c = Some (m1, k1)"
proof -
  have start: "st = (m1, k1 @ b) \<and> begin_value (lim - length b) k c = Some (m1, k1)"
    if "begin_value lim0 k c = Some (m1, k1)" "begin_value lim (k @ b) c = Some st"
    using that by (auto simp: begin_value_def push_def split: if_splits)
  have finish: "st = (m1, k1 @ b)" if "end_value k c = Some (m1, k1)" "end_value (k @ b) c = Some st" "k \<noteq> []"
    using that by (auto simp: end_value_def split: if_splits list.splits jctx.splits)
  have empty: "k \<noteq> []" if "m = EndValue \<or> num_ends m \<and> num_next m c = None" using that assms(2) by (auto simp: value_done_def)
  show ?thesis
  proof (cases m)
    case BeginValueOrEmpty
    then show ?thesis using assms(1,4) start finish by (cases "k = []") (auto simp: json_step_def end_value_def json_space_def split: if_splits)
  next
    case BeginKeyOrEmpty
    then show ?thesis using assms(1,4) by (auto simp: json_step_def split: if_splits list.splits jctx.splits)
  next
    case EndValue
    then show ?thesis using assms(1,4) finish empty by (auto simp: json_step_def)
  qed (use assms(1,4) start finish empty in \<open>auto simp: json_step_def split: if_splits option.splits list.splits\<close>)
qed

lemma value_run_inside:
  assumes "value_run lim0 (m, k) v = Some (m1, k1)" and "b \<noteq> []" and "value_run lim (m, k @ b) v = Some st"
  shows "st = (m1, k1 @ b) \<and> value_run (lim - length b) (m, k) v = Some (m1, k1)"
  using assms
proof (induction v arbitrary: m k)
  case (Cons c v)
  obtain m2 k2 where one: "\<not> value_done (m, k) c" "json_step lim0 (m, k) c = Some (m2, k2)" "value_run lim0 (m2, k2) v = Some (m1, k1)"
    using Cons.prems(1) by (auto split: if_splits option.splits)
  obtain st2 where two: "json_step lim (m, k @ b) c = Some st2" "value_run lim st2 v = Some st"
    using Cons.prems(3) by (auto split: if_splits option.splits)
  from json_step_inside [OF one(2,1) Cons.prems(2) two(1)] have st2: "st2 = (m2, k2 @ b)" "json_step (lim - length b) (m, k) c = Some (m2, k2)" by auto
  from Cons.IH [OF one(3) Cons.prems(2) two(2) [unfolded st2(1)]] one(1) st2(2) show ?case by auto
qed simp

definition spacious :: "jmode \<Rightarrow> bool" where
  "spacious m \<longleftrightarrow> m = BeginValue \<or> m = BeginKeyOrEmpty \<or> m = BeginKey \<or> m = EndValue"

lemma json_step_space: "spacious m \<Longrightarrow> json_space c \<Longrightarrow> json_step lim (m, k) c = Some (m, k)"
  unfolding spacious_def by (elim disjE; simp add: json_step_def end_value_def)

lemma value_run_skip:
  assumes "value_run lim (m, k) s = Some st" and "spacious m" and "k \<noteq> []"
  shows "value_run lim (m, k) (skip_space s) = Some st"
  using assms
proof (induction s)
  case (Cons c s)
  show ?case
  proof (cases "json_space c")
    case True
    have "value_run lim (m, k) s = Some st" using Cons.prems(1) json_step_space [OF assms(2) True, of lim k] by (simp split: if_splits)
    with Cons True show ?thesis by simp
  qed (use Cons.prems(1) in simp)
qed simp

text \<open>A member's value is scanned, and what follows it.\<close>

lemma inner_value:
  assumes "value_run lim (BeginValue, b) s = Some st" and "b \<noteq> []" and "take_value max_nesting (BeginValue, []) (skip_space s) = Some (v, r)"
  shows "json_value (lim - length b) v \<and> (\<exists>m. (m = EndValue \<or> num_ends m) \<and> value_run lim (m, b) r = Some st)"
proof -
  obtain m where inner: "value_run max_nesting (BeginValue, []) v = Some (m, [])" "m = EndValue \<or> num_ends m"
    using take_value_ends [OF assms(3)] by (auto simp: value_end_def)
  have s: "skip_space s = v @ r" by (rule take_value_append [OF assms(3)])
  have "value_run lim (BeginValue, b) (v @ r) = Some st" using value_run_skip [OF assms(1) _ assms(2)] s by (simp add: spacious_def)
  then obtain st1 where st1: "value_run lim (BeginValue, [] @ b) v = Some st1" "value_run lim st1 r = Some st"
    by (auto simp: value_run_append split: option.splits)
  from value_run_inside [OF inner(1) assms(2) st1(1)] have outer: "st1 = (m, b)" "value_run (lim - length b) (BeginValue, []) v = Some (m, [])" by auto
  from scan_value_json [OF assms(3)] outer(2) inner(2) have "json_value (lim - length b) v" by (simp add: json_value_def value_end_def)
  with outer(1) inner(2) st1(2) show ?thesis by blast
qed

lemma value_run_after:
  assumes "value_run lim (m, b) r = Some st" and "m = EndValue \<or> num_ends m" and "b \<noteq> []" and "skip_space r = c # r'" and "c \<in> {CHR '','', CHR '':'', CHR ''}''}"
  shows "\<exists>st1. end_value b c = Some st1 \<and> value_run lim st1 r' = Some st"
proof -
  have ended: "\<exists>st1. end_value b c = Some st1 \<and> value_run lim st1 r' = Some st" if "value_run lim (EndValue, b) s = Some st" "skip_space s = c # r'" for s
  proof -
    have "value_run lim (EndValue, b) (c # r') = Some st" using value_run_skip [OF that(1) _ assms(3)] that(2) by (simp add: spacious_def)
    then show ?thesis by (auto simp: json_step_def simp del: split_paired_Ex split: if_splits option.splits)
  qed
  show ?thesis
  proof (cases "m = EndValue")
    case True
    with ended assms(1,4) show ?thesis by simp
  next
    case False
    then have m: "num_ends m" using assms(2) by simp
    obtain d s where r: "r = d # s" using assms(4) by (cases r) auto
    have none: "num_next m d = None"
    proof (cases "json_space d")
      case True
      then show ?thesis by (cases m) (auto simp: num_next_def is_digit_def json_space_def)
    next
      case no: False
      then have "d \<in> {CHR '','', CHR '':'', CHR ''}''}" using assms(4,5) r by simp
      then show ?thesis by (cases m) (auto simp: num_next_def is_digit_def)
    qed
    from assms(1) obtain st1 where st1: "end_value b d = Some st1" "value_run lim st1 s = Some st"
      unfolding r by (simp add: json_step_number [OF m none] split: if_splits option.splits)
    show ?thesis
    proof (cases "json_space d")
      case True
      with st1(1) have "st1 = (EndValue, b)" by (simp add: end_value_def)
      with ended [of s] st1(2) assms(4) r True show ?thesis by simp
    next
      case no: False
      with assms(4) r have "d = c" "s = r'" by simp_all
      with st1 show ?thesis by blast
    qed
  qed
qed

lemma scan_key_run:
  assumes "value_run lim (m, [InKey]) s = Some st" and "m = BeginKey \<or> m = BeginKeyOrEmpty" and "\<not> HasPrefix (skip_space s) ''}''"
    and "scan_key s = Some (k, r)"
  shows "value_run lim (BeginValue, [InValue]) r = Some st"
proof -
  obtain lit r1 where lit: "take_value max_nesting (BeginValue, []) (skip_space s) = Some (lit, r1)" "skip_space r1 = CHR '':'' # r"
    using assms(4) by (auto simp: scan_key_def split: option.splits list.splits if_splits)
  have run: "value_run lim (m, [InKey]) (skip_space s) = Some st" using value_run_skip [OF assms(1)] assms(2) by (auto simp: spacious_def)
  obtain c s1 where s: "skip_space s = c # s1" using lit(1) by (cases "skip_space s") (auto simp: value_end_def num_ends_def)
  have "\<not> json_space c" by (rule skip_space_head [OF s])
  moreover have "c \<noteq> CHR ''}''" using assms(3) s by auto
  ultimately have "json_step lim (m, [InKey]) c = (if c = CHR 0x22 then Some (InString, [InKey]) else None)"
    using assms(2) by (elim disjE) (simp_all add: json_step_def)
  with run have "c = CHR 0x22" "value_run lim (InString, [InKey]) s1 = Some st" unfolding s by (simp_all split: if_splits)
  then have "value_run lim (BeginValue, [InKey]) (skip_space s) = Some st" unfolding s by (simp add: json_step_def begin_value_def json_space_def)
  moreover have "skip_space (skip_space s) = skip_space s" by (rule dropWhile_idem)
  ultimately have "\<exists>m1. (m1 = EndValue \<or> num_ends m1) \<and> value_run lim (m1, [InKey]) r1 = Some st"
    using inner_value [of lim "[InKey]" "skip_space s" st lit r1] lit(1) by simp
  then obtain m1 where m1: "m1 = EndValue \<or> num_ends m1" "value_run lim (m1, [InKey]) r1 = Some st" by blast
  have "end_value [InKey] (CHR '':'') = Some (BeginValue, [InValue])" by (simp add: end_value_def json_space_def)
  with value_run_after [OF m1(2,1) _ lit(2)] show ?thesis by simp
qed

lemma scan_members_values:
  assumes "scan_members s = Some ms" and "value_run lim (m, [InKey]) s = Some st" and "m = BeginKey \<or> m = BeginKeyOrEmpty"
  shows "\<forall>kv \<in> set ms. json_value (lim - 1) (snd kv)"
  using assms
proof (induction s arbitrary: ms m rule: scan_members.induct)
  case (1 s)
  show ?case
  proof (cases "HasPrefix (skip_space s) ''}''")
    case True
    with "1.prems"(1) show ?thesis by (simp add: scan_members.simps [of s])
  next
    case False
    obtain k r v more r' where key: "scan_key s = Some (k, r)" and el: "scan_element (CHR ''}'') r = Some (v, more, r')"
      using "1.prems"(1) False by (auto simp: scan_members.simps [of s] split: option.splits prod.splits)
    have run: "value_run lim (BeginValue, [InValue]) r = Some st" by (rule scan_key_run [OF "1.prems"(2,3) False key])
    obtain r1 c where val: "take_value max_nesting (BeginValue, []) (skip_space r) = Some (v, r1)" "skip_space r1 = c # r'"
        "c = CHR '','' \<and> more \<or> c = CHR ''}'' \<and> \<not> more"
      using el by (auto simp: scan_element_def split: option.splits list.splits if_splits)
    from inner_value [OF run _ val(1)] obtain m1 where v: "json_value (lim - 1) v" "m1 = EndValue \<or> num_ends m1" "value_run lim (m1, [InValue]) r1 = Some st"
      by auto
    show ?thesis
    proof (cases more)
      case True
      then obtain ms' where ms: "scan_members r' = Some ms'" "ms = (k, v) # ms'" using "1.prems"(1) False key el by (auto simp: scan_members.simps [of s])
      have "c = CHR '',''" using val(3) True by simp
      moreover have "end_value [InValue] (CHR '','') = Some (BeginKey, [InKey])" by (simp add: end_value_def json_space_def)
      ultimately have "value_run lim (BeginKey, [InKey]) r' = Some st" using value_run_after [OF v(3,2) _ val(2)] by simp
      from "1.IH" [OF False key refl el refl refl True ms(1) this] v(1) ms(2) show ?thesis by simp
    next
      case no: False
      with "1.prems"(1) False key el v(1) show ?thesis by (auto simp: scan_members.simps [of s])
    qed
  qed
qed

section \<open>Published messages\<close>

lemma find_field_mem: "find_field fds k = Some store \<Longrightarrow> store \<in> snd ` set fds"
  by (auto simp: find_field_def find_Some_iff image_iff split: option.splits dest!: map_of_SomeD) (metis nth_mem snd_conv)+

lemma store_members_inv:
  assumes "store_members fds ms st = Some st'" and "I st" and "\<forall>kv \<in> set ms. P (snd kv)"
    and "\<And>store v s s'. store \<in> snd ` set fds \<Longrightarrow> P v \<Longrightarrow> I s \<Longrightarrow> store v s = Some s' \<Longrightarrow> I s'"
  shows "I st'"
  using assms
proof (induction fds ms st rule: store_members.induct)
  case (2 fds k v ms st)
  show ?case
  proof (cases "find_field fds k")
    case None
    with 2 show ?thesis by simp
  next
    case (Some store)
    then obtain s where s: "store v st = Some s" "store_members fds ms s = Some st'" using "2.prems"(1) by (auto split: option.splits)
    have "I s" using "2.prems"(4) [OF find_field_mem [OF Some] _ "2.prems"(2) s(1)] "2.prems"(3) by simp
    with 2 Some s show ?thesis by simp
  qed
qed simp

text \<open>An object that the decoder reads has members that are values, nested one level less deep than it.\<close>

lemma decoded_members:
  assumes "json_Decode fds zero s = Some x"
  shows "x = zero \<or> (\<exists>ms. store_members fds ms zero = Some x \<and> (\<forall>kv \<in> set ms. json_value (max_nesting - 1) (snd kv)))"
proof -
  obtain v rest where v: "scan_value (skip_space s) = Some (v, rest)" "decode_struct fds v zero = Some x"
    using assms by (auto simp: json_Decode_def split: option.splits)
  show ?thesis
  proof (cases "HasPrefix v ''{''")
    case True
    then obtain r where r: "v = CHR ''{'' # r" by (cases v) auto
    with v(2) obtain ms where ms: "scan_members r = Some ms" "store_members fds ms zero = Some x"
      by (auto simp: decode_struct_def split: option.splits)
    obtain e where "value_run max_nesting (BeginValue, []) v = Some e" using take_value_ends [OF v(1)] by blast
    moreover have "json_step max_nesting (BeginValue, []) (CHR ''{'') = Some (BeginKeyOrEmpty, [InKey])"
      by (simp add: json_step_def begin_value_def push_def json_space_def max_nesting_def)
    ultimately have "value_run max_nesting (BeginKeyOrEmpty, [InKey]) r = Some e" by (simp add: r)
    from scan_members_values [OF ms(1) this] ms(2) show ?thesis by blast
  next
    case False
    with v(2) show ?thesis by (auto simp: decode_struct_def split: if_splits)
  qed
qed

definition decoded_ok :: "publishRequest \<Rightarrow> bool" where
  "decoded_ok q \<longleftrightarrow> valid_utf8 (pr_Topic q) \<and> valid_utf8 (pr_ID q) \<and> valid_utf8 (pr_RoutingKey q) \<and>
     (pr_Payload q = [] \<or> json_value (max_nesting - 1) (string_of_bytes (pr_Payload q)))"

lemma publish_decoded_ok:
  assumes "js_publish go_json body = Some q"
  shows "decoded_ok q"
proof -
  have zero: "decoded_ok zero_request" by (simp add: decoded_ok_def zero_request_def)
  have step: "decoded_ok s'" if "store \<in> snd ` set publish_fields" "json_value (max_nesting - 1) v" "decoded_ok s" "store v s = Some s'" for store v s s'
    using that(1,3,4) that(2) json_unquote_valid [OF that(2)]
    by (auto simp: publish_fields_def set_string_def set_raw_def decoded_ok_def split: if_splits)
  from assms decoded_members [of publish_fields zero_request body q] zero show ?thesis
    using store_members_inv [of publish_fields _ zero_request q decoded_ok "json_value (max_nesting - 1)", OF _ zero _ step]
    by (auto simp: go_json_def)
qed

lemma decoded_deliverable:
  assumes "decoded_ok q" and "pr_ID q \<noteq> []" and "pr_Payload q \<noteq> []"
  shows "deliverable (publish_message q)"
proof -
  have "json_value (max_nesting - 1) (string_of_bytes (pr_Payload q))" using assms(1,3) by (simp add: decoded_ok_def)
  then obtain raw where "compact (string_of_bytes (pr_Payload q)) = Some raw" "json_value (max_nesting - 1) raw"
    by (rule compact_nested) simp
  with assms show ?thesis by (simp add: deliverable_def utf8_message_def decoded_ok_def publish_message_def)
qed

lemma PublishHandler_accepts:
  assumes "PublishHandler_ServeHTTP js net send io ids nodes w fs st rt r = (w', fs', st', rt', resp)" and "w_Status resp = 202"
  shows "\<exists>q. js_publish js (sr_Body r) = Some q \<and> pr_Topic q \<noteq> [] \<and> pr_ID q \<noteq> [] \<and> pr_Payload q \<noteq> []"
  using assms by (auto simp: PublishHandler_ServeHTTP_def MethodNotAllowed_def split: if_splits option.splits)

text \<open>
  C5: A message that the queue accepts can be delivered, whatever bytes its client sent. When a node answers a publish request with 202, at the leader or after forwarding, the decoded
  message can be encoded for a consumer, who decodes it to the same topic, ID and routing key and to the payload without its white space; and the acknowledgement
  that the consumer then sends is decoded to the message's ID. Invalid UTF-8 and lone surrogates in strings were replaced when the request was decoded, and a payload that fitted into the request
  fits into the response.
\<close>

theorem accepted_publish_deliverable:
  assumes "PublishHandler_ServeHTTP go_json net send io ids nodes w fs st rt r = (w', fs', st', rt', resp)" and "w_Status resp = 202"
  shows "\<exists>q raw body ack. js_publish go_json (sr_Body r) = Some q \<and> compact (string_of_bytes (pr_Payload q)) = Some raw \<and>
    js_of_message go_json (publish_message q) = Inr body \<and>
    unmarshal_message (body @ [newline]) = Inr ((publish_message q)\<lparr>msg_Payload := bytes_of_string raw\<rparr>) \<and>
    ack_json (msg_ID (publish_message q)) = Inr ack \<and> js_ack go_json ack = Some (msg_ID (publish_message q))"
proof -
  obtain q where q: "js_publish go_json (sr_Body r) = Some q" "pr_ID q \<noteq> []" "pr_Payload q \<noteq> []" using PublishHandler_accepts [OF assms] by blast
  have ok: "deliverable (publish_message q)" by (rule decoded_deliverable [OF publish_decoded_ok [OF q(1)] q(2,3)])
  then obtain raw where raw: "compact (string_of_bytes (pr_Payload q)) = Some raw"
    by (auto simp: deliverable_def publish_message_def split: option.splits)
  then have "arrived (publish_message q) = (publish_message q)\<lparr>msg_Payload := bytes_of_string raw\<rparr>" by (simp add: arrived_def publish_message_def)
  moreover obtain ack where ack: "ack_json (msg_ID (publish_message q)) = Inr ack" by (simp add: ack_json_def)
  moreover have "js_ack go_json ack = Some (msg_ID (publish_message q))"
    using ack_decode [OF _ ack] ok by (simp add: go_json_def deliverable_def utf8_message_def)
  ultimately show ?thesis using delivered_response [OF ok] q(1) raw by metis
qed

lemma sample_payload_compact: "compact (string_of_bytes (msg_Payload sample_message)) = Some ''{}''"
  by (simp add: sample_message_def) code_simp

lemma sample_strings: "valid_utf8 (msg_Topic sample_message)" "valid_utf8 (msg_ID sample_message)" "valid_utf8 (msg_RoutingKey sample_message)"
  by (simp add: sample_message_def, code_simp)+

lemma sample_value: "json_value (Suc 0) ''{}''"
  by code_simp

lemma sample_bytes: "bytes_of_string ''{}'' = msg_Payload sample_message"
  by (simp add: sample_message_def bytes_of_string_def)

theorem accepted_publish_deliverable_witness:
  "\<exists>sent w' fs' st' rt' resp q body ack.
    PublishHandler_ServeHTTP go_json sample_network (\<lambda>w rr pid r. (w, None)) io_ok [0] (Inr [sample_node]) () (fst (opened_disk 0)) (snd (opened_disk 0))
      sample_runtime \<lparr>sr_Method = ''POST'', sr_Path = ''/publish'', sr_Query = [], sr_Body = sent, sr_ctx = None\<rparr> = (w', fs', st', rt', resp) \<and>
    w_Status resp = 202 \<and> js_publish go_json sent = Some q \<and> js_of_message go_json (publish_message q) = Inr body \<and>
    unmarshal_message (body @ [newline]) = Inr sample_message \<and> js_ack go_json ack = Some (msg_ID sample_message)"
proof -
  let ?m = sample_message
  obtain sent where sent: "message_json (msg_Topic ?m) (msg_ID ?m) (msg_RoutingKey ?m) (msg_Payload ?m) = Inr sent"
    by (simp add: message_json_def marshal_raw_def sample_payload_compact)
  let ?q = "\<lparr>pr_Topic = msg_Topic ?m, pr_ID = msg_ID ?m, pr_RoutingKey = msg_RoutingKey ?m, pr_Payload = bytes_of_string ''{}''\<rparr>"
  let ?r = "\<lparr>sr_Method = ''POST'', sr_Path = ''/publish'', sr_Query = [], sr_Body = sent, sr_ctx = None\<rparr>"
  have "json_Decode publish_fields zero_request (sent @ []) = Some ?q"
    using publish_decode [OF sent, of "''{}''" "Suc 0" "[]"] sample_strings sample_payload_compact by (simp add: sample_value max_nesting_def)
  then have q: "js_publish go_json sent = Some ?q" by (simp add: go_json_def)
  have m: "publish_message ?q = ?m" by (simp add: publish_message_def sample_bytes)
  obtain w' fs' st' rt' e where pub: "Publish (\<lambda>w rr pid r. (w, None)) None io_ok [0] () (fst (opened_disk 0)) (snd (opened_disk 0)) sample_runtime (msg_Topic ?m) ?m =
      (w', fs', st', rt', e)" by (metis prod_cases5)
  have plain: "?m\<lparr>msg_Topic := msg_Topic ?m\<rparr> = ?m" by simp
  have "rt_replication sample_runtime = None" by (simp add: sample_runtime_def NewRuntime_def)
  with Publish_local [OF sample_route sample_leader _ _ _ _ pub, of "[]"] have "e = None" by (simp add: plain)
  then have "PublishHandler_ServeHTTP go_json sample_network (\<lambda>w rr pid r. (w, None)) io_ok [0] (Inr [sample_node]) () (fst (opened_disk 0)) (snd (opened_disk 0))
      sample_runtime ?r = (w', fs', st', rt', reply 202)"
    using publish_handler_leader [of ?r go_json ?q sample_runtime 0 sample_network "\<lambda>w rr pid r. (w, None)" "[0]" "Inr [sample_node]" "()"
        "fst (opened_disk 0)" "snd (opened_disk 0)"] q pub sample_route sample_leader by (simp add: m) (simp add: sample_message_def bytes_of_string_def)
  note handled = this
  have "w_Status (reply 202) = 202" by simp
  from accepted_publish_deliverable [OF handled this] obtain q raw body ack where w: "js_publish go_json sent = Some q"
      "compact (string_of_bytes (pr_Payload q)) = Some raw" "js_of_message go_json (publish_message q) = Inr body"
      "unmarshal_message (body @ [newline]) = Inr ((publish_message q)\<lparr>msg_Payload := bytes_of_string raw\<rparr>)"
      "js_ack go_json ack = Some (msg_ID (publish_message q))" by auto
  from w(1) q have q': "q = ?q" by simp
  with w(2) sample_payload_compact have "raw = ''{}''" by (simp add: sample_bytes)
  then have "(publish_message q)\<lparr>msg_Payload := bytes_of_string raw\<rparr> = ?m" unfolding q' m by (simp add: sample_bytes)
  with w handled m q' show ?thesis
    by (intro exI [of _ sent] exI [of _ w'] exI [of _ fs'] exI [of _ st'] exI [of _ rt'] exI [of _ "reply 202"] exI [of _ q] exI [of _ body] exI [of _ ack]) simp
qed

end
