(* ===== verification/Spec2Isabelle.thy ===== *)
theory Spec2Isabelle
  imports Pipeline Program_Runs Accepted_Messages
begin

text \<open>
  A model of the GPU telemetry system in Isabelle/HOL and the theorems that hold of it. The repository has four programs. A streamer reads a CSV file of GPU samples
  and publishes one message per sample over HTTP. Queue nodes form a cluster that keeps the messages in append-only partition files, replicates each partition from its
  leader to followers, and hands the messages out to consumer groups. A processor consumes over HTTP, inserts every sample into PostgreSQL and acknowledges it. An API
  answers queries on the stored samples.


  \<^bold>\<open>The theories and the code they model\<close> (paths are under \<^verbatim>\<open>src/\<close>)

  \<^item> Prelude, Step_Systems: base types, the sequencing of fallible steps, rewrite-rule collections, lemmas on lists and maps; the
    locales \<open>step_system\<close>, \<open>terminating_system\<close>, \<open>deadlock_free_system\<close> and \<open>simulation\<close>.
  \<^item> Go_Std, Go_Http, Net_Url, Go_Json, Go_Json_Struct: what the sources use of Go's standard library, as HOL functions: errors that wrap each other, numbers and strings,
    big-endian integers, readers, requests and responses, query strings and paths, the JSON scanner, quoting, compaction, base64 and the decoding of structs.
  \<^item> Codec, Segment_Store, Partition_Store: the storage of \<^verbatim>\<open>internal/queue\<close> (\<^verbatim>\<open>codec.go\<close>, \<^verbatim>\<open>segment_store.go\<close>, \<^verbatim>\<open>partition_store.go\<close>). The state is a file system (a map
    from paths to bytes) and the record of open partitions; each operation takes an outcome for every system call it makes.
  \<^item> Cluster_Layout, Hash_Router: members of a cluster and their discovery, the assignment of replicas, the partition manager (\<^verbatim>\<open>static_nodes.go\<close>, \<^verbatim>\<open>kubernetes_cluster.go\<close>, \<^verbatim>\<open>assignment.go\<close>,
    \<^verbatim>\<open>partition_manager.go\<close>, the discovery of \<^verbatim>\<open>cmd/queue/main.go\<close>), and the routing of messages to partitions (\<^verbatim>\<open>hash_router.go\<close>).
  \<^item> Replication: replicators, HTTP transport and coordinator. The coordinator is a step relation over its goroutines and its channel, and also the function it computes.
  \<^item> Consumers, Runtime: cursors and deliveries of consumer groups, and publish, poll, acknowledge and statistics (\<^verbatim>\<open>runtime.go\<close>, \<^verbatim>\<open>runtime_metrics.go\<close>).
  \<^item> Queue_Handlers, Wire_Format: the HTTP handlers and routes of a queue node with the JSON codec as an argument, and that codec, \<open>go_json\<close>, with all other JSON texts of the system.
  \<^item> Queue_Cluster: the leader of a partition with its followers' stores.
  \<^item> Queue_Spec, Queue_Node: the abstract queue, and the proof that a node's HTTP server refines it.
  \<^item> Telemetry, Telemetry_Store, Processor, Telemetry_Api, Api_Docs: \<^verbatim>\<open>internal/telemetry\<close>, \<^verbatim>\<open>internal/processor\<close> and \<^verbatim>\<open>internal/api\<close>.
  \<^item> Service_Config, Queue_Startup, Services, Program_Runs: configuration and logging (\<^verbatim>\<open>internal/config\<close>, \<^verbatim>\<open>internal/logging\<close>), the start of a queue node, and the
    \<^verbatim>\<open>run\<close> functions of the four programs under \<^verbatim>\<open>cmd\<close>, first up to the point where they begin to serve and then to their return.
  \<^item> Client_Server, Accepted_Messages, Pipeline: HTTP clients against the server of a node, messages of any client through the JSON of the queue, and streamer, queue and processor together.

  A definition has the name of the Go function it models; a method \<^verbatim>\<open>(T) M\<close> of a type is \<open>T_M\<close> where \<open>M\<close> alone would clash. A struct is a record, an error result a sum or an option, a
  mutated receiver an argument that is returned updated.


  \<^bold>\<open>What is shown\<close>

  \<^item> Storage: an encoded message decodes to itself; a partition is a list of messages; an append is all or nothing across a crash at any byte; recovery is idempotent
    and leaves a readable file; and the cases in which the code loses or hides messages (a failed second write, a failed sync, a read error during recovery, an empty payload).
  \<^item> Replication: every interleaving of the coordinator ends, without deadlock, with the value that the number of successes determines; what a quorum
    guarantees across leader and followers, what reaches a follower over HTTP, and that a follower that missed a record is lost for good.
  \<^item> Consumers: acknowledgements are exact, polling returns the first due message and ends, a group that keeps polling gets its topic once and in order; two groups that hold
    the same message, and two pollers of one group, break this.
  \<^item> A node: its server refines the abstract queue of Queue_Spec. Over any number of restarts and crashes its files hold exactly what it accepted, in order; cursors are not kept, so each run
    of the program delivers from the start of the log again.
  \<^item> The wire: every message that a publish request gets accepted, whatever its bytes, can be encoded for a consumer, decoded and acknowledged.
  \<^item> The system: what the streamer reads is what the processor inserts, record by record and in order per routing key, through JSON, URLs, HTTP and the partition files.
  \<^item> Producer, store and API: shards partition the records, retries are bounded and stop at the first success, CSV columns are found by name, a query's text holds no value
    of a parameter, and the API's metrics count every request once.


  \<^bold>\<open>Interfaces\<close>

  The contract of a component towards its clients is a locale, interpreted on the definitions of the component that provides it: \<open>message_storage\<close> (the partition store, for the runtime), \<open>message_consumer\<close>
  (the runtime and the node over HTTP, for the processor), \<open>deadlock_free_system\<close> (the coordinator), \<open>step_system\<close> (the consumer state), \<open>simulation\<close> (the node).


  \<^bold>\<open>Loops\<close>

  Recursion follows the data wherever the code's loop does, with measures for the scans over files and texts. \<open>pollPartition\<close> and the loop of \<open>Consume\<close> depend on what the storage answers: the first is a partial function
  with an option result, and the lemmas show that it returns for every partition that holds a list of messages; the second is followed along the list of its waits. \<open>consume_all\<close> (a reader that
  polls until nothing is due) takes fuel, and more than the number of due messages is enough. Loops that run until the context ends (the processor, the streamer, the servers) are given as many turns, attempts or requests as they see, and
  the theorems hold for lists of any length.


  \<^bold>\<open>Modelling decisions\<close>

  \<^item> The state of a context is its error, constant during one call except where a loop asks again.
  \<^item> Every method that holds a mutex from its first to its last line is one step. Where the code releases the lock in between, the steps are separate (Consumers, Replication).
  \<^item> Bytes that were written count as written whether they were synced or not; a crash cuts an append off after any of its writes. Files are opened with \<^verbatim>\<open>O_APPEND\<close>, so their position is no state.
  \<^item> The order in which Go ranges over a map is an argument.
  \<^item> Arguments for code that is not in the repository: the YAML decoder, the parser of whole URLs, times and durations, floating-point numbers, the CSV decoder, the database, the Kubernetes API, the
    network. Their documented behaviour is a named hypothesis where a theorem needs it, as \<open>reachable_base\<close> for URLs.
  \<^item> JSON is modelled to the byte, with shortened error texts; a nil and an empty payload are not distinguished. \<^verbatim>\<open>TrimSpace\<close> and \<^verbatim>\<open>ToLower\<close> act on ASCII.
  \<^item> The configuration's nested structs are one record. The sum of a latency histogram is exact where the code adds floating-point numbers; its counters are 64-bit words.
  \<^item> Routes match the path as the client sent it: the redirects of \<^verbatim>\<open>http.ServeMux\<close> for unclean paths are left out. Errors while a response's body is read are left out.
  \<^item> The refinement of a node assumes that the disk works and that clients do not disconnect during a request; the storage theorems cover every fault.


  \<^bold>\<open>Not modelled\<close>

  Log output other than the request log, the text of a printed log line, timeouts and the accept loop of \<^verbatim>\<open>net/http\<close> (a server's life is the list of requests it gets), signals (the end of
  that list), the JSON of statistics as read by other programs, and \<^verbatim>\<open>internal/api/doc_types.go\<close>, whose types no code uses: the API description is generated from them.
\<close>

end
